(* ===== verification/Prelude.thy ===== *)
theory Prelude
  imports Main "HOL-Library.AList" "HOL-Library.Multiset"
begin

text \<open>
  The shared vocabulary of the development: JavaScript's insertion-ordered \<open>Map\<close> as an
  association list with distinct keys, JavaScript's stable \<open>Array.prototype.sort\<close> as an
  insertion sort over a comparison, results that may be errors, truthiness of optional strings,
  the character classes of the identifier grammars and the decimal rendering of counters.
  The locale \<open>keyed_table\<close> is the interface every table of the model is used through; it is
  interpreted here on the association lists.
\<close>

section \<open>Collections of facts\<close>

named_theorems table_simps \<open>reading a table after an insert or a delete\<close>
named_theorems sort_facts \<open>what the stable sort keeps and guarantees\<close>

section \<open>Results that may be errors\<close>

text \<open>A thrown error is \<open>Inl\<close>, a returned value is \<open>Inr\<close>.\<close>

definition and_then :: "'e + 'a \<Rightarrow> ('a \<Rightarrow> 'e + 'b) \<Rightarrow> 'e + 'b" where
  "and_then r k = (case r of Inl e \<Rightarrow> Inl e | Inr x \<Rightarrow> k x)"

lemma and_then_simps [simp]:
  "and_then (Inl e) k = Inl e"
  "and_then (Inr x) k = k x"
  by (simp_all add: and_then_def)

lemma and_then_Inr_iff:
  "and_then r k = Inr y \<longleftrightarrow> (\<exists>x. r = Inr x \<and> k x = Inr y)"
  by (cases r) simp_all

lemma and_then_Inl_iff:
  "and_then r k = Inl e \<longleftrightarrow> r = Inl e \<or> (\<exists>x. r = Inr x \<and> k x = Inl e)"
  by (cases r) simp_all

text \<open>A loop over a list whose body may throw: it stops at the first error.\<close>

fun fold_res :: "('s \<Rightarrow> 'a \<Rightarrow> 'e + 's) \<Rightarrow> 's \<Rightarrow> 'a list \<Rightarrow> 'e + 's" where
  "fold_res f s [] = Inr s"
| "fold_res f s (x # xs) = and_then (f s x) (\<lambda>s'. fold_res f s' xs)"

lemma fold_res_invariant:
  assumes "fold_res f s xs = Inr t" and "P s"
    and step: "\<And>s x s'. P s \<Longrightarrow> x \<in> set xs \<Longrightarrow> f s x = Inr s' \<Longrightarrow> P s'"
  shows "P t"
  using assms
proof (induction xs arbitrary: s)
  case Nil
  then show ?case by simp
next
  case (Cons x xs)
  from Cons.prems(1) obtain s' where "f s x = Inr s'" and rest: "fold_res f s' xs = Inr t"
    by (auto simp: and_then_Inr_iff)
  moreover from this Cons.prems have "P s'" by (metis list.set_intros(1))
  ultimately show ?case using Cons.IH Cons.prems(3) by (metis list.set_intros(2))
qed

text \<open>Rebuilding an accumulator entry by entry: when every step appends the next entry, the loop
  over the values rebuilds the whole list.\<close>

lemma fold_res_rebuild:
  assumes "\<And>pre k v post. m = pre @ (k, v) # post \<Longrightarrow> f (mk pre) v = Inr (mk (pre @ [(k, v)]))"
  shows "fold_res f (mk []) (map snd m) = Inr (mk m)"
proof -
  have "fold_res f (mk pre) (map snd post) = Inr (mk m)" if "m = pre @ post" for pre post
    using that
  proof (induction post arbitrary: pre)
    case Nil
    then show ?case by simp
  next
    case (Cons kv post)
    obtain k v where kv: "kv = (k, v)" by (cases kv)
    have "f (mk pre) v = Inr (mk (pre @ [(k, v)]))"
      using Cons.prems kv assms by blast
    moreover have "fold_res f (mk (pre @ [(k, v)])) (map snd post) = Inr (mk m)"
      using Cons.prems kv Cons.IH [of "pre @ [(k, v)]"] by simp
    ultimately show ?case using kv by simp
  qed
  from this [of "[]" m] show ?thesis by simp
qed

section \<open>Truthiness of optional strings\<close>

text \<open>
  An optional string is truthy when it is present and not the empty string; this is the test of
  \<open>if (value)\<close>, \<open>value && ...\<close> and \<open>filter(Boolean)\<close>.
\<close>

definition truthy :: "string option \<Rightarrow> bool" where
  "truthy v = (case v of None \<Rightarrow> False | Some s \<Rightarrow> s \<noteq> '''')"

lemma truthy_simps [simp]:
  "\<not> truthy None"
  "truthy (Some s) \<longleftrightarrow> s \<noteq> ''''"
  by (simp_all add: truthy_def)

lemma truthyE: "truthy v \<Longrightarrow> (\<And>s. v = Some s \<Longrightarrow> s \<noteq> '''' \<Longrightarrow> P) \<Longrightarrow> P"
  by (cases v) simp_all

section \<open>Character classes\<close>

definition code_of :: "char \<Rightarrow> nat" where
  "code_of c = of_char c"

definition in_range :: "nat \<Rightarrow> nat \<Rightarrow> char \<Rightarrow> bool" where
  "in_range lo hi c \<longleftrightarrow> lo \<le> code_of c \<and> code_of c \<le> hi"

definition is_upper :: "char \<Rightarrow> bool" where
  "is_upper c = in_range 65 90 c"

definition is_lower :: "char \<Rightarrow> bool" where
  "is_lower c = in_range 97 122 c"

definition is_digit :: "char \<Rightarrow> bool" where
  "is_digit c = in_range 48 57 c"

definition is_alnum :: "char \<Rightarrow> bool" where
  "is_alnum c \<longleftrightarrow> is_upper c \<or> is_lower c \<or> is_digit c"

definition is_lower_hex :: "char \<Rightarrow> bool" where
  "is_lower_hex c \<longleftrightarrow> is_digit c \<or> in_range 97 102 c"

lemmas char_class_defs = is_upper_def is_lower_def is_digit_def is_alnum_def is_lower_hex_def
  in_range_def code_of_def

text \<open>The common digest grammar \<open>/^[0-9a-f]{lo,hi}$/\<close>.\<close>

definition hex_digest :: "nat \<Rightarrow> nat \<Rightarrow> string \<Rightarrow> bool" where
  "hex_digest lo hi s \<longleftrightarrow> lo \<le> length s \<and> length s \<le> hi \<and> list_all is_lower_hex s"

text \<open>\<open>String.prototype.trim\<close> on characters up to code 255.\<close>

definition is_js_space :: "char \<Rightarrow> bool" where
  "is_js_space c \<longleftrightarrow> in_range 9 13 c \<or> code_of c = 32 \<or> code_of c = 160"

definition trim :: "string \<Rightarrow> string" where
  "trim s = rev (dropWhile is_js_space (rev (dropWhile is_js_space s)))"

text \<open>\<open>String.prototype.split\<close> at a character.\<close>

fun split_on :: "char \<Rightarrow> string \<Rightarrow> string list" where
  "split_on c [] = [[]]"
| "split_on c (x # xs) =
     (if x = c then [] # split_on c xs
      else case split_on c xs of [] \<Rightarrow> [[x]] | w # ws \<Rightarrow> (x # w) # ws)"

section \<open>Insertion-ordered maps\<close>

text \<open>
  JavaScript's \<open>Map\<close> iterates in insertion order; \<open>set\<close> on a present key keeps its place and
  \<open>delete\<close> removes it. That is the library's \<open>AList.update\<close> and \<open>AList.delete\<close> on a list
  whose keys are distinct.
\<close>

type_synonym ('k, 'v) js_map = "('k \<times> 'v) list"

definition map_ok :: "('k, 'v) js_map \<Rightarrow> bool" where
  "map_ok m \<longleftrightarrow> distinct (map fst m)"

definition map_has :: "('k, 'v) js_map \<Rightarrow> 'k \<Rightarrow> bool" where
  "map_has m k \<longleftrightarrow> map_of m k \<noteq> None"

definition map_keep :: "('k \<Rightarrow> 'v \<Rightarrow> bool) \<Rightarrow> ('k, 'v) js_map \<Rightarrow> ('k, 'v) js_map" where
  "map_keep p m = filter (\<lambda>(k, v). p k v) m"

definition map_vals :: "('k \<Rightarrow> 'v \<Rightarrow> 'w) \<Rightarrow> ('k, 'v) js_map \<Rightarrow> ('k, 'w) js_map" where
  "map_vals f m = map (\<lambda>(k, v). (k, f k v)) m"

lemma map_ok_Nil [simp]: "map_ok []"
  by (simp add: map_ok_def)

lemma map_ok_update [simp]: "map_ok m \<Longrightarrow> map_ok (AList.update k v m)"
  by (simp add: map_ok_def distinct_update)

lemma map_ok_delete [simp]: "map_ok m \<Longrightarrow> map_ok (AList.delete k m)"
  by (simp add: map_ok_def distinct_delete)

lemma map_ok_keep [simp]: "map_ok m \<Longrightarrow> map_ok (map_keep p m)"
  by (induction m) (auto simp: map_ok_def map_keep_def)

lemma map_fst_vals [simp]: "map fst (map_vals f m) = map fst m"
  by (induction m) (auto simp: map_vals_def)

lemma map_ok_vals [simp]: "map_ok (map_vals f m) = map_ok m"
  by (simp add: map_ok_def)

lemma get_update [table_simps]:
  "map_of (AList.update k v m) k' = (if k' = k then Some v else map_of m k')"
  by (simp add: update_conv')

lemma get_delete [table_simps]:
  "map_of (AList.delete k m) k' = (if k' = k then None else map_of m k')"
  by (simp add: delete_conv')

lemma get_keep [table_simps]:
  assumes "map_ok m"
  shows "map_of (map_keep p m) k =
    (case map_of m k of None \<Rightarrow> None | Some v \<Rightarrow> if p k v then Some v else None)"
  using assms
proof (induction m)
  case Nil
  then show ?case by (simp add: map_keep_def)
next
  case (Cons q m)
  obtain j w where q: "q = (j, w)" by (cases q)
  from Cons.prems q have "map_ok m" and absent: "map_of m j = None"
    by (auto simp: map_ok_def map_of_eq_None_iff)
  with Cons.IH have IH: "map_of (map_keep p m) k =
      (case map_of m k of None \<Rightarrow> None | Some v \<Rightarrow> if p k v then Some v else None)"
    by simp
  then show ?case
    by (cases "k = j") (auto simp: q absent map_keep_def split: option.splits)
qed

lemma get_vals [table_simps]: "map_of (map_vals f m) k = map_option (f k) (map_of m k)"
  by (induction m) (auto simp: map_vals_def)

lemma get_in_set: "map_of m k = Some v \<Longrightarrow> (k, v) \<in> set m"
  by (rule map_of_SomeD)

lemma get_eq_in_set: "map_ok m \<Longrightarrow> map_of m k = Some v \<longleftrightarrow> (k, v) \<in> set m"
  by (simp add: map_ok_def)

lemma map_has_simps [table_simps]:
  "map_has (AList.update k v m) k' \<longleftrightarrow> k' = k \<or> map_has m k'"
  "map_has (AList.delete k m) k' \<longleftrightarrow> k' \<noteq> k \<and> map_has m k'"
  by (simp_all add: map_has_def table_simps)

lemma map_has_vals [table_simps]: "map_has (map_vals f m) k = map_has m k"
  by (simp add: map_has_def table_simps)

lemma map_has_iff_key: "map_has m k \<longleftrightarrow> k \<in> fst ` set m"
  by (simp add: map_has_def map_of_eq_None_iff)

lemma length_update_present:
  "map_has m k \<Longrightarrow> length (AList.update k v m) = length m"
  by (induction m) (auto simp: map_has_def split: if_splits)

lemma update_absent: "\<not> map_has m k \<Longrightarrow> AList.update k v m = m @ [(k, v)]"
  by (induction m) (auto simp: map_has_def split: if_splits)

lemma update_same: "map_of m k = Some v \<Longrightarrow> AList.update k v m = m"
  by (induction m) (auto split: if_splits)

lemma delete_absent: "\<not> map_has m k \<Longrightarrow> AList.delete k m = m"
  by (induction m) (auto simp: map_has_def split: if_splits)

lemma length_keep: "length (map_keep p m) \<le> length m"
  by (simp add: map_keep_def)

lemma length_delete_present:
  "map_ok m \<Longrightarrow> map_has m k \<Longrightarrow> Suc (length (AList.delete k m)) = length m"
proof (induction m)
  case Nil
  then show ?case by (simp add: map_has_def)
next
  case (Cons p m)
  show ?case
  proof (cases "fst p = k")
    case True
    with Cons.prems have "\<not> map_has m k"
      by (auto simp: map_ok_def map_has_iff_key)
    with True show ?thesis by (cases p) (simp add: delete_absent)
  next
    case False
    with Cons show ?thesis
      by (cases p) (auto simp: map_ok_def map_has_def)
  qed
qed

subsection \<open>The table interface\<close>

text \<open>
  What the components rely on when they keep a table: reading back what was written, not
  disturbing other keys, and keeping the table well formed.
\<close>

locale keyed_table =
  fixes get :: "'s \<Rightarrow> 'k \<Rightarrow> 'v option"
    and put :: "'k \<Rightarrow> 'v \<Rightarrow> 's \<Rightarrow> 's"
    and del :: "'k \<Rightarrow> 's \<Rightarrow> 's"
    and ok :: "'s \<Rightarrow> bool"
  assumes get_put: "ok s \<Longrightarrow> get (put k v s) k' = (if k' = k then Some v else get s k')"
    and get_del: "ok s \<Longrightarrow> get (del k s) k' = (if k' = k then None else get s k')"
    and ok_put: "ok s \<Longrightarrow> ok (put k v s)"
    and ok_del: "ok s \<Longrightarrow> ok (del k s)"
begin

lemma put_put_get: "ok s \<Longrightarrow> get (put k v (put k w s)) k' = get (put k v s) k'"
  by (simp add: get_put ok_put)

lemma put_commutes_get:
  "ok s \<Longrightarrow> k \<noteq> l \<Longrightarrow> get (put k v (put l w s)) k' = get (put l w (put k v s)) k'"
  by (simp add: get_put ok_put)

lemma del_put_get: "ok s \<Longrightarrow> get (del k (put k v s)) k' = get (del k s) k'"
  by (simp add: get_put get_del ok_put)

lemma frame_put: "ok s \<Longrightarrow> k' \<noteq> k \<Longrightarrow> get (put k v s) k' = get s k'"
  by (simp add: get_put)

lemma frame_del: "ok s \<Longrightarrow> k' \<noteq> k \<Longrightarrow> get (del k s) k' = get s k'"
  by (simp add: get_del)

end

interpretation js: keyed_table map_of AList.update AList.delete map_ok
  by unfold_locales (simp_all add: table_simps)

section \<open>The stable sort\<close>

text \<open>
  \<open>Array.prototype.sort\<close> is stable. \<open>sort_by le\<close> is the stable insertion sort for the
  comparison \<open>le a b\<close> (the comparator's result is at most zero); elements that compare
  equal keep their order.
\<close>

fun insert_by :: "('a \<Rightarrow> 'a \<Rightarrow> bool) \<Rightarrow> 'a \<Rightarrow> 'a list \<Rightarrow> 'a list" where
  "insert_by le x [] = [x]"
| "insert_by le x (y # ys) = (if le x y then x # y # ys else y # insert_by le x ys)"

fun sort_by :: "('a \<Rightarrow> 'a \<Rightarrow> bool) \<Rightarrow> 'a list \<Rightarrow> 'a list" where
  "sort_by le [] = []"
| "sort_by le (x # xs) = insert_by le x (sort_by le xs)"

definition total_order_by :: "('a \<Rightarrow> 'a \<Rightarrow> bool) \<Rightarrow> bool" where
  "total_order_by le \<longleftrightarrow> (\<forall>a b. le a b \<or> le b a) \<and> (\<forall>a b c. le a b \<longrightarrow> le b c \<longrightarrow> le a c)"

lemma mset_insert_by [sort_facts]: "mset (insert_by le x xs) = add_mset x (mset xs)"
  by (induction xs) auto

lemma mset_sort_by [sort_facts]: "mset (sort_by le xs) = mset xs"
  by (induction xs) (auto simp: sort_facts)

lemma set_sort_by [simp]: "set (sort_by le xs) = set xs"
  by (metis mset_sort_by set_mset_mset)

lemma set_insert_by [simp]: "set (insert_by le x xs) = insert x (set xs)"
  by (induction xs) auto

lemma length_sort_by [simp]: "length (sort_by le xs) = length xs"
  by (metis mset_sort_by size_mset)

lemma sort_by_Nil_iff [simp]: "sort_by le xs = [] \<longleftrightarrow> xs = []"
  by (metis length_0_conv length_sort_by)

lemma sorted_insert_by:
  "total_order_by le \<Longrightarrow> sorted_wrt le xs \<Longrightarrow> sorted_wrt le (insert_by le x xs)"
  by (induction xs) (auto simp: total_order_by_def)

lemma sorted_sort_by [sort_facts]: "total_order_by le \<Longrightarrow> sorted_wrt le (sort_by le xs)"
  by (induction xs) (simp_all add: sorted_insert_by)

lemma sort_by_hd_least:
  assumes "total_order_by le" and "x \<in> set xs"
  shows "le (hd (sort_by le xs)) x"
proof -
  have "sorted_wrt le (sort_by le xs)" using assms(1) by (rule sorted_sort_by)
  moreover have "x \<in> set (sort_by le xs)" using assms(2) by simp
  moreover have "le x x" using assms(1) by (auto simp: total_order_by_def)
  ultimately show ?thesis by (cases "sort_by le xs") auto
qed

text \<open>The order of strings by code units, as \<open>Array.prototype.sort\<close> and binary collation have it.\<close>

fun bytes_le :: "string \<Rightarrow> string \<Rightarrow> bool" where
  "bytes_le [] ys = True"
| "bytes_le (x # xs) [] = False"
| "bytes_le (x # xs) (y # ys) = (code_of x < code_of y \<or> x = y \<and> bytes_le xs ys)"

lemma bytes_le_refl: "bytes_le s s"
  by (induction s) simp_all

lemma bytes_le_total: "bytes_le s t \<or> bytes_le t s"
proof (induction s t rule: bytes_le.induct)
  case (3 x xs y ys)
  then show ?case by (auto simp: code_of_def)
qed simp_all

lemma bytes_le_antisym: "bytes_le s t \<Longrightarrow> bytes_le t s \<Longrightarrow> s = t"
proof (induction s t rule: bytes_le.induct)
  case (1 ys)
  then show ?case by (cases ys) simp_all
qed auto

lemma bytes_le_trans: "bytes_le s t \<Longrightarrow> bytes_le t u \<Longrightarrow> bytes_le s u"
proof (induction s t arbitrary: u rule: bytes_le.induct)
  case (3 x xs y ys)
  then show ?case by (cases u) auto
qed simp_all

lemma total_order_bytes: "total_order_by bytes_le"
  unfolding total_order_by_def using bytes_le_total bytes_le_trans by blast

text \<open>Two lists with the same elements have the same sorted list when the order is antisymmetric on them.\<close>

lemma sorted_wrt_unique:
  assumes "sorted_wrt le xs" and "sorted_wrt le ys" and "mset xs = mset ys"
    and "\<And>a b. a \<in> set xs \<Longrightarrow> b \<in> set xs \<Longrightarrow> le a b \<Longrightarrow> le b a \<Longrightarrow> a = b"
  shows "xs = ys"
  using assms
proof (induction xs arbitrary: ys)
  case Nil
  then show ?case by simp
next
  case (Cons x xs)
  from Cons.prems(3) obtain y zs where ys: "ys = y # zs" by (cases ys) auto
  have "set (x # xs) = set ys" using Cons.prems(3) by (rule mset_eq_setD)
  then have members: "y \<in> set (x # xs)" "x \<in> set ys" using ys by auto
  have "x = y"
  proof (rule ccontr)
    assume neq: "x \<noteq> y"
    with members ys have "y \<in> set xs" "x \<in> set zs" by auto
    with Cons.prems(1,2) ys have "le x y" "le y x" by auto
    with Cons.prems(4) [of x y] members(1) neq show False by simp
  qed
  moreover have "xs = zs"
  proof (rule Cons.IH)
    show "sorted_wrt le xs" "sorted_wrt le zs" using Cons.prems(1,2) ys by simp_all
    show "mset xs = mset zs" using Cons.prems(3) ys \<open>x = y\<close> by simp
    show "\<And>a b. a \<in> set xs \<Longrightarrow> b \<in> set xs \<Longrightarrow> le a b \<Longrightarrow> le b a \<Longrightarrow> a = b"
      using Cons.prems(4) by simp
  qed
  ultimately show ?case using ys by simp
qed

lemma sort_by_perm:
  assumes "total_order_by le" and "mset xs = mset ys"
    and "\<And>a b. a \<in> set xs \<Longrightarrow> b \<in> set xs \<Longrightarrow> le a b \<Longrightarrow> le b a \<Longrightarrow> a = b"
  shows "sort_by le xs = sort_by le ys"
  by (rule sorted_wrt_unique [where le = le])
    (use assms in \<open>simp_all add: sorted_sort_by mset_sort_by\<close>)

section \<open>Decimal rendering of counters\<close>

text \<open>\<open>Number.prototype.toString\<close> on a non-negative integer.\<close>

definition digit_char :: "nat \<Rightarrow> char" where
  "digit_char d = char_of (48 + d)"

fun dec :: "nat \<Rightarrow> string" where
  "dec n = (if n < 10 then [digit_char n] else dec (n div 10) @ [digit_char (n mod 10)])"

declare dec.simps [simp del]

fun undec_from :: "nat \<Rightarrow> string \<Rightarrow> nat" where
  "undec_from acc [] = acc"
| "undec_from acc (c # cs) = undec_from (10 * acc + (code_of c - 48)) cs"

lemma undec_from_append: "undec_from acc (xs @ ys) = undec_from (undec_from acc xs) ys"
  by (induction xs arbitrary: acc) simp_all

lemma code_of_digit: "d < 10 \<Longrightarrow> code_of (digit_char d) = 48 + d"
  by (simp add: code_of_def digit_char_def)

lemma undec_dec: "undec_from 0 (dec n) = n"
proof (induction n rule: dec.induct)
  case (1 n)
  show ?case
  proof (cases "n < 10")
    case True
    then show ?thesis by (simp add: dec.simps [of n] code_of_digit)
  next
    case False
    with 1 have "undec_from 0 (dec (n div 10)) = n div 10" by simp
    with False show ?thesis
      by (simp add: dec.simps [of n] undec_from_append code_of_digit)
  qed
qed

lemma dec_inject [simp]: "dec m = dec n \<longleftrightarrow> m = n"
  by (metis undec_dec)

lemma dec_not_Nil [simp]: "dec n \<noteq> []"
  by (simp add: dec.simps [of n])

section \<open>Joining strings\<close>

text \<open>\<open>Array.prototype.join\<close>.\<close>

fun join_with :: "string \<Rightarrow> string list \<Rightarrow> string" where
  "join_with sep [] = ''''"
| "join_with sep [s] = s"
| "join_with sep (s # t # ts) = s @ sep @ join_with sep (t # ts)"

end
