(* ===== verification/Json.thy ===== *)
theory Json
  imports Prelude Complex_Main
begin

text \<open>
  The values of \<open>JSON.parse\<close>, \<open>Number.isSafeInteger\<close>, and the canonical text \<open>canonicalJson\<close> of
  \<open>src/tenant-migration.ts\<close>, whose digest is the fingerprint of a request: objects are rendered with
  their keys sorted. The texts \<open>JSON.stringify\<close> gives to strings and numbers are parameters.
\<close>

text \<open>An object is a list of entries with distinct keys in insertion order. A number that overflows to
  infinity is \<open>JNum None\<close>.\<close>

datatype json = JNull | JBool bool | JNum "rat option" | JStr string | JArr "json list"
  | JObj "(string \<times> json) list"

definition max_safe :: int where "max_safe = 2 ^ 53 - 1"

definition safe_integer :: "rat option \<Rightarrow> int option" where
  "safe_integer v =
     (case v of None \<Rightarrow> None
      | Some q \<Rightarrow> if of_int \<lfloor>q\<rfloor> = q \<and> \<bar>\<lfloor>q\<rfloor>\<bar> \<le> 2 ^ 53 - 1 then Some \<lfloor>q\<rfloor> else None)"

definition key_le :: "string \<times> 'a \<Rightarrow> string \<times> 'a \<Rightarrow> bool" where
  "key_le a b = bytes_le (fst a) (fst b)"

fun canonical_json :: "(string \<Rightarrow> string) \<Rightarrow> (rat option \<Rightarrow> string) \<Rightarrow> json \<Rightarrow> string" where
  "canonical_json quote num JNull = ''null''"
| "canonical_json quote num (JBool b) = (if b then ''true'' else ''false'')"
| "canonical_json quote num (JNum n) = num n"
| "canonical_json quote num (JStr s) = quote s"
| "canonical_json quote num (JArr vs) = ''['' @ join_with '','' (map (canonical_json quote num) vs) @ '']''"
| "canonical_json quote num (JObj es) =
     ''{'' @ join_with '',''
       (map (\<lambda>(k, t). quote k @ '':'' @ t)
         (sort_by key_le (map (\<lambda>(k, v). (k, canonical_json quote num v)) es))) @ ''}''"

text \<open>Equal up to the order of the entries of objects, at any depth.\<close>

inductive same_value :: "json \<Rightarrow> json \<Rightarrow> bool" where
  same_refl: "same_value v v"
| same_array: "list_all2 same_value vs ws \<Longrightarrow> same_value (JArr vs) (JArr ws)"
| same_object: "distinct (map fst es) \<Longrightarrow> mset es' = mset es \<Longrightarrow>
    list_all2 (\<lambda>p q. fst p = fst q \<and> same_value (snd p) (snd q)) es' fs \<Longrightarrow> same_value (JObj es) (JObj fs)"

lemma total_order_key: "total_order_by (key_le :: string \<times> 'a \<Rightarrow> _)"
  using total_order_bytes unfolding total_order_by_def key_le_def by blast

lemma sort_keys_perm:
  assumes "distinct (map fst es)" and "mset es = mset fs"
  shows "sort_by key_le es = sort_by key_le fs"
proof (rule sort_by_perm [OF total_order_key assms(2)])
  fix a b :: "string \<times> 'a"
  assume ab: "a \<in> set es" "b \<in> set es" "key_le a b" "key_le b a"
  then have "fst a = fst b" unfolding key_le_def using bytes_le_antisym by blast
  with ab(1,2) assms(1) show "a = b" by (metis eq_key_imp_eq_value prod.collapse)
qed

lemma canonical_same_value: "same_value v w \<Longrightarrow> canonical_json quote num v = canonical_json quote num w"
proof (induction rule: same_value.induct)
  case (same_refl v)
  show ?case by simp
next
  case (same_array vs ws)
  then have "map (canonical_json quote num) vs = map (canonical_json quote num) ws"
    by (induction rule: list_all2_induct) auto
  then show ?case by simp
next
  case (same_object es es' fs)
  let ?r = "\<lambda>(k, v). (k, canonical_json quote num v)"
  have "map ?r es' = map ?r fs"
    using same_object.IH by (induction rule: list_all2_induct) auto
  moreover have "distinct (map fst (map ?r es))"
    using same_object.hyps(1) by (simp add: comp_def case_prod_unfold)
  moreover have "mset (map ?r es) = mset (map ?r es')" using same_object.hyps(2) by simp
  ultimately have "sort_by key_le (map ?r es) = sort_by key_le (map ?r fs)"
    using sort_keys_perm by metis
  then show ?case by simp
qed

end
