(* ===== verification/Errors.thy ===== *)
theory Errors
  imports Prelude
begin

text \<open>
  \<open>src/errors.ts\<close>: the closed vocabulary of error codes, the HTTP status of each code, the
  message that may leave the server for a thrown value, the metric label and the rendering of
  a tool failure. A thrown value is a \<open>RemembraError\<close>, a Zod failure with its issues, an
  \<open>Error\<close> with a name and a message, or something else that was thrown. Attached causes and
  stack traces are not modelled: no function of the module reads them.
\<close>

datatype error_code =
    INVALID_INPUT | SNAPSHOT_INVALID | SCOPE_ESCAPES_ROOT | NOT_FOUND | CONFLICT
  | LOCK_TIMEOUT | IO_ERROR | LLM_ERROR | PROVIDER_TIMEOUT | ENCRYPTED_NO_KEY
  | RATE_LIMITED | REQUEST_TIMEOUT | SERVICE_UNAVAILABLE | QUEUE_FULL | QUEUE_CLOSED
  | SENSITIVE_DATA | INJECTION_DETECTED | TENANT_REQUIRED

type_synonym 'a result = "error_code + 'a"

datatype path_part = Field string | Index nat

record zod_issue =
  issue_path :: "path_part list"
  issue_message :: string

datatype thrown =
    Remembra error_code string
  | Zod "zod_issue list"
  | JsError string string
  | NotAnError string

fun code_name :: "error_code \<Rightarrow> string" where
  "code_name INVALID_INPUT = ''INVALID_INPUT''"
| "code_name SNAPSHOT_INVALID = ''SNAPSHOT_INVALID''"
| "code_name SCOPE_ESCAPES_ROOT = ''SCOPE_ESCAPES_ROOT''"
| "code_name NOT_FOUND = ''NOT_FOUND''"
| "code_name CONFLICT = ''CONFLICT''"
| "code_name LOCK_TIMEOUT = ''LOCK_TIMEOUT''"
| "code_name IO_ERROR = ''IO_ERROR''"
| "code_name LLM_ERROR = ''LLM_ERROR''"
| "code_name PROVIDER_TIMEOUT = ''PROVIDER_TIMEOUT''"
| "code_name ENCRYPTED_NO_KEY = ''ENCRYPTED_NO_KEY''"
| "code_name RATE_LIMITED = ''RATE_LIMITED''"
| "code_name REQUEST_TIMEOUT = ''REQUEST_TIMEOUT''"
| "code_name SERVICE_UNAVAILABLE = ''SERVICE_UNAVAILABLE''"
| "code_name QUEUE_FULL = ''QUEUE_FULL''"
| "code_name QUEUE_CLOSED = ''QUEUE_CLOSED''"
| "code_name SENSITIVE_DATA = ''SENSITIVE_DATA''"
| "code_name INJECTION_DETECTED = ''INJECTION_DETECTED''"
| "code_name TENANT_REQUIRED = ''TENANT_REQUIRED''"

fun status_for :: "error_code \<Rightarrow> nat" where
  "status_for INVALID_INPUT = 400"
| "status_for SNAPSHOT_INVALID = 400"
| "status_for SCOPE_ESCAPES_ROOT = 400"
| "status_for NOT_FOUND = 404"
| "status_for CONFLICT = 409"
| "status_for LOCK_TIMEOUT = 423"
| "status_for IO_ERROR = 500"
| "status_for LLM_ERROR = 502"
| "status_for PROVIDER_TIMEOUT = 504"
| "status_for ENCRYPTED_NO_KEY = 503"
| "status_for RATE_LIMITED = 429"
| "status_for REQUEST_TIMEOUT = 504"
| "status_for SERVICE_UNAVAILABLE = 503"
| "status_for QUEUE_FULL = 429"
| "status_for QUEUE_CLOSED = 503"
| "status_for SENSITIVE_DATA = 400"
| "status_for INJECTION_DETECTED = 400"
| "status_for TENANT_REQUIRED = 403"

fun render_part :: "path_part \<Rightarrow> string" where
  "render_part (Field s) = s"
| "render_part (Index n) = dec n"

definition issue_where :: "zod_issue \<Rightarrow> string" where
  "issue_where i =
     (let joined = join_with ''.'' (map render_part (issue_path i))
      in if joined = '''' then ''(root)'' else joined)"

definition zod_summary :: "zod_issue list \<Rightarrow> string" where
  "zod_summary issues =
     (let place = (case issues of [] \<Rightarrow> ''input'' | i # _ \<Rightarrow> issue_where i);
          what = (case issues of [] \<Rightarrow> ''invalid input'' | i # _ \<Rightarrow> issue_message i)
      in if length issues > 1
         then place @ '': '' @ what @ '' (+'' @ dec (length issues - 1) @ '' more)''
         else place @ '': '' @ what)"

fun input_error :: "error_code \<Rightarrow> thrown \<Rightarrow> thrown" where
  "input_error c (Zod issues) = Remembra c (zod_summary issues)"
| "input_error c e = e"

fun public_error_message :: "thrown \<Rightarrow> string" where
  "public_error_message (Remembra c m) =
     (case c of
        LLM_ERROR \<Rightarrow> ''The provider request failed.''
      | PROVIDER_TIMEOUT \<Rightarrow> ''The provider request timed out.''
      | IO_ERROR \<Rightarrow> ''The server could not complete the request.''
      | _ \<Rightarrow> m)"
| "public_error_message (Zod issues) = zod_summary issues"
| "public_error_message (JsError name m) =
     (if name = ''BadRequestError'' then m else ''The server could not complete the request.'')"
| "public_error_message (NotAnError s) = ''The server could not complete the request.''"

fun format_tool_error :: "thrown \<Rightarrow> string" where
  "format_tool_error (Remembra c m) =
     ''['' @ code_name c @ ''] '' @ public_error_message (Remembra c m)"
| "format_tool_error (Zod issues) = ''[INVALID_INPUT] '' @ zod_summary issues"
| "format_tool_error (JsError name m) = ''[INTERNAL] '' @ m"
| "format_tool_error (NotAnError s) = ''[INTERNAL] '' @ s"

text \<open>The label is a code or \<open>INTERNAL\<close>, written \<open>None\<close>.\<close>

fun error_label :: "thrown \<Rightarrow> error_code option" where
  "error_label (Remembra c m) = Some c"
| "error_label (Zod issues) = Some INVALID_INPUT"
| "error_label (JsError name m) = None"
| "error_label (NotAnError s) = None"

text \<open>What a failing MCP tool returns, and the counter it increments.\<close>

record tool_failure =
  tf_text :: string
  tf_is_error :: bool
  tf_metric_code :: "error_code option"

definition tool_fail :: "thrown \<Rightarrow> tool_failure" where
  "tool_fail e = \<lparr>tf_text = format_tool_error e, tf_is_error = True, tf_metric_code = error_label e\<rparr>"

section \<open>Facts\<close>

definition provider_code :: "error_code \<Rightarrow> bool" where
  "provider_code c \<longleftrightarrow> c = LLM_ERROR \<or> c = PROVIDER_TIMEOUT \<or> c = IO_ERROR"

lemma status_for_is_error: "400 \<le> status_for c \<and> status_for c < 600"
  by (cases c) simp_all

lemma provider_message_fixed:
  "provider_code c \<Longrightarrow> public_error_message (Remembra c m) = public_error_message (Remembra c m')"
  by (cases c) (simp_all add: provider_code_def)

lemma input_error_label: "error_label (input_error INVALID_INPUT e) = error_label e"
  by (cases e) simp_all

lemma code_name_inject [simp]: "code_name a = code_name b \<longleftrightarrow> a = b"
  by (cases a; cases b) simp_all

end
