(* ===== verification/Tenant.thy ===== *)
theory Tenant
  imports Errors
begin

text \<open>
  \<open>src/tenant.ts\<close> and the identifier grammar of \<open>src/types.ts\<close>: the claims a trusted host
  presents, their validation into a principal, the opaque context, the filter a context stands
  for, the predicate that decides whether a stored memory belongs to a filter, and the opaque
  directory key of an organization. Strings are lists of 8-bit characters: every identifier
  that passes the grammar is ASCII, so its length and its UTF-8 bytes are those of the code.
  A Zod failure is the code it is classified as; the text of the message is not modelled.
\<close>

section \<open>Identifiers, scopes and capabilities\<close>

definition is_tenant_char :: "char \<Rightarrow> bool" where
  "is_tenant_char c \<longleftrightarrow> is_alnum c \<or> c = CHR ''.'' \<or> c = CHR ''_'' \<or> c = CHR '':'' \<or> c = CHR ''-''"

definition is_valid_tenant_id :: "string \<Rightarrow> bool" where
  "is_valid_tenant_id s \<longleftrightarrow>
     1 \<le> length s \<and> length s \<le> 128 \<and> list_all is_tenant_char s \<and> s \<noteq> ''.'' \<and> s \<noteq> ''..''"

definition scope_kinds :: "string list" where
  "scope_kinds = [''project'', ''agent'', ''task'', ''council'']"

definition is_kind_scope :: "string \<Rightarrow> string \<Rightarrow> bool" where
  "is_kind_scope kind s \<longleftrightarrow>
     take (length kind + 1) s = kind @ ''/'' \<and> drop (length kind + 1) s \<noteq> [] \<and>
     list_all is_tenant_char (drop (length kind + 1) s)"

definition is_tenant_scope :: "string \<Rightarrow> bool" where
  "is_tenant_scope s \<longleftrightarrow>
     1 \<le> length s \<and> length s \<le> 512 \<and>
     (s = ''global'' \<or> list_ex (\<lambda>k. is_kind_scope k s) scope_kinds)"

datatype capability = TenantRead | TenantWrite | TenantExport | TenantAdmin

fun capability_of :: "string \<Rightarrow> capability option" where
  "capability_of s =
     (if s = ''tenant:read'' then Some TenantRead
      else if s = ''tenant:write'' then Some TenantWrite
      else if s = ''tenant:export'' then Some TenantExport
      else if s = ''tenant:admin'' then Some TenantAdmin
      else None)"

section \<open>Claims and principals\<close>

text \<open>
  Untrusted claims: the fields of the object as presented, and the names of any other keys
  it has (the schema is strict). \<open>NoObject\<close> is a value that is not an object.
\<close>

record principal_claims =
  cl_organizationId :: string
  cl_userId :: "string option"
  cl_projectId :: "string option"
  cl_agentId :: "string option"
  cl_membershipVersion :: string
  cl_scopes :: "string list option"
  cl_capabilities :: "string list option"
  cl_unknownKeys :: "string list"

datatype claims = NoObject | Claims principal_claims

record principal =
  pr_organizationId :: string
  pr_userId :: "string option"
  pr_projectId :: "string option"
  pr_agentId :: "string option"
  pr_membershipVersion :: string
  pr_scopes :: "string list option"
  pr_capabilities :: "capability list option"

definition opt_valid :: "('a \<Rightarrow> bool) \<Rightarrow> 'a option \<Rightarrow> bool" where
  "opt_valid p v = (case v of None \<Rightarrow> True | Some x \<Rightarrow> p x)"

definition claims_shape_ok :: "principal_claims \<Rightarrow> bool" where
  "claims_shape_ok c \<longleftrightarrow>
     is_valid_tenant_id (cl_organizationId c) \<and>
     opt_valid is_valid_tenant_id (cl_userId c) \<and>
     opt_valid is_valid_tenant_id (cl_projectId c) \<and>
     opt_valid is_valid_tenant_id (cl_agentId c) \<and>
     1 \<le> length (cl_membershipVersion c) \<and> length (cl_membershipVersion c) \<le> 128 \<and>
     opt_valid (\<lambda>xs. list_all is_tenant_scope xs \<and> length xs \<le> 256) (cl_scopes c) \<and>
     opt_valid (\<lambda>xs. list_all (\<lambda>s. capability_of s \<noteq> None) xs \<and> length xs \<le> 16)
       (cl_capabilities c) \<and>
     cl_unknownKeys c = []"

definition dimension_count :: "string option \<Rightarrow> string option \<Rightarrow> string option \<Rightarrow> nat" where
  "dimension_count u p a = length (filter truthy [u, p, a])"

definition caps_of :: "'a list option \<Rightarrow> 'a list" where
  "caps_of v = (case v of None \<Rightarrow> [] | Some xs \<Rightarrow> xs)"

text \<open>The three cross-field rules of the schema's \<open>superRefine\<close>.\<close>

definition claims_rules_ok :: "principal_claims \<Rightarrow> bool" where
  "claims_rules_ok c \<longleftrightarrow>
     (let dims = dimension_count (cl_userId c) (cl_projectId c) (cl_agentId c);
          caps = caps_of (cl_capabilities c)
      in \<not> (dims > 0 \<and> caps_of (cl_scopes c) = []) \<and>
         \<not> (dims = 0 \<and> \<not> list_ex (\<lambda>s. s = ''tenant:read'' \<or> s = ''tenant:admin'') caps) \<and>
         \<not> (''tenant:admin'' \<in> set caps \<and> ''tenant:read'' \<notin> set caps))"

definition to_principal :: "principal_claims \<Rightarrow> principal" where
  "to_principal c =
     \<lparr>pr_organizationId = cl_organizationId c, pr_userId = cl_userId c,
      pr_projectId = cl_projectId c, pr_agentId = cl_agentId c,
      pr_membershipVersion = cl_membershipVersion c, pr_scopes = cl_scopes c,
      pr_capabilities = map_option (List.map_filter capability_of) (cl_capabilities c)\<rparr>"

fun parse_tenant_principal :: "claims \<Rightarrow> principal result" where
  "parse_tenant_principal NoObject = Inl INVALID_INPUT"
| "parse_tenant_principal (Claims c) =
     (if claims_shape_ok c \<and> claims_rules_ok c then Inr (to_principal c) else Inl INVALID_INPUT)"

text \<open>
  A context carries a private symbol, so the only values that are contexts are the minted
  ones; every other value a caller may pass is \<open>Undefined\<close>, \<open>Null\<close> or \<open>Forged\<close>.
\<close>

datatype context_value = Undefined | Null | Forged | Context principal

definition create_tenant_context :: "claims \<Rightarrow> context_value result" where
  "create_tenant_context c = and_then (parse_tenant_principal c) (\<lambda>p. Inr (Context p))"

fun is_tenant_context :: "context_value \<Rightarrow> bool" where
  "is_tenant_context (Context p) = True"
| "is_tenant_context v = False"

definition assert_tenant_context :: "context_value \<Rightarrow> unit result" where
  "assert_tenant_context v = (if is_tenant_context v then Inr () else Inl TENANT_REQUIRED)"

section \<open>Filters\<close>

record tenant_filter =
  tf_organizationId :: string
  tf_projectId :: "string option"
  tf_userId :: "string option"
  tf_agentId :: "string option"
  tf_organizationWide :: "bool option"

definition filter_ok :: "tenant_filter \<Rightarrow> bool" where
  "filter_ok f \<longleftrightarrow>
     is_valid_tenant_id (tf_organizationId f) \<and> opt_valid is_valid_tenant_id (tf_projectId f) \<and>
     opt_valid is_valid_tenant_id (tf_userId f) \<and> opt_valid is_valid_tenant_id (tf_agentId f)"

definition parse_tenant_filter :: "tenant_filter \<Rightarrow> tenant_filter result" where
  "parse_tenant_filter f = (if filter_ok f then Inr f else Inl INVALID_INPUT)"

definition keep_truthy :: "string option \<Rightarrow> string option" where
  "keep_truthy v = (if truthy v then v else None)"

definition filter_of_principal :: "principal \<Rightarrow> tenant_filter" where
  "filter_of_principal p =
     \<lparr>tf_organizationId = pr_organizationId p,
      tf_projectId = keep_truthy (pr_projectId p),
      tf_userId = keep_truthy (pr_userId p),
      tf_agentId = keep_truthy (pr_agentId p),
      tf_organizationWide =
        Some (dimension_count (pr_projectId p) (pr_userId p) (pr_agentId p) = 0)\<rparr>"

fun tenant_filter_from_context :: "context_value \<Rightarrow> tenant_filter result" where
  "tenant_filter_from_context (Context p) = Inr (filter_of_principal p)"
| "tenant_filter_from_context v = Inl TENANT_REQUIRED"

section \<open>Membership of a memory in a filter\<close>

record resource =
  rs_tenantId :: "string option"
  rs_projectId :: "string option"
  rs_userId :: "string option"
  rs_agentId :: "string option"

definition memory_belongs_to_tenant :: "resource \<Rightarrow> tenant_filter \<Rightarrow> bool" where
  "memory_belongs_to_tenant m f =
     (if rs_tenantId m \<noteq> Some (tf_organizationId f) then False
      else if tf_organizationWide f = Some True then True
      else if truthy (tf_projectId f) \<and> rs_projectId m \<noteq> tf_projectId f then False
      else if truthy (tf_userId f) \<and> rs_userId m \<noteq> tf_userId f then False
      else if truthy (tf_agentId f) \<and> rs_agentId m \<noteq> tf_agentId f then False
      else if tf_organizationWide f = Some False \<or> tf_organizationWide f = None then
        (if \<not> truthy (tf_projectId f) \<and> rs_projectId m \<noteq> None then False
         else if \<not> truthy (tf_userId f) \<and> rs_userId m \<noteq> None then False
         else if \<not> truthy (tf_agentId f) \<and> rs_agentId m \<noteq> None then False
         else True)
      else True)"

section \<open>The directory key\<close>

text \<open>
  \<open>Buffer.toString("base64url")\<close> without padding: three bytes become four symbols, a rest of
  one or two bytes becomes two or three.
\<close>

fun b64_groups :: "nat list \<Rightarrow> nat list" where
  "b64_groups [] = []"
| "b64_groups [a] = [a div 4, (a mod 4) * 16]"
| "b64_groups [a, b] = [a div 4, (a mod 4) * 16 + b div 16, (b mod 16) * 4]"
| "b64_groups (a # b # c # rest) =
     a div 4 # ((a mod 4) * 16 + b div 16) # ((b mod 16) * 4 + c div 64) # (c mod 64) #
     b64_groups rest"

fun b64_ungroup :: "nat list \<Rightarrow> nat list" where
  "b64_ungroup (p # q # r # s # rest) =
     (p * 4 + q div 16) # ((q mod 16) * 16 + r div 4) # ((r mod 4) * 64 + s) # b64_ungroup rest"
| "b64_ungroup [p, q, r] = [p * 4 + q div 16, (q mod 16) * 16 + r div 4]"
| "b64_ungroup [p, q] = [p * 4 + q div 16]"
| "b64_ungroup ps = []"

definition b64_symbol :: "nat \<Rightarrow> char" where
  "b64_symbol n =
     (if n < 26 then char_of (65 + n)
      else if n < 52 then char_of (71 + n)
      else if n < 62 then char_of (n - 4)
      else if n = 62 then CHR ''-'' else CHR ''_'')"

definition base64url :: "string \<Rightarrow> string" where
  "base64url s = map b64_symbol (b64_groups (map code_of s))"

definition tenant_directory_key :: "string \<Rightarrow> string result" where
  "tenant_directory_key org =
     and_then (parse_tenant_filter
         \<lparr>tf_organizationId = org, tf_projectId = None, tf_userId = None, tf_agentId = None,
          tf_organizationWide = None\<rparr>)
       (\<lambda>f. Inr (''tenant_'' @ base64url (tf_organizationId f)))"

section \<open>Facts\<close>

lemma code_of_lt [simp]: "code_of c < 256"
  by (simp add: code_of_def)

lemma code_of_inject [simp]: "code_of c = code_of d \<longleftrightarrow> c = d"
  by (simp add: code_of_def)

lemma b64_ungroup_groups: "list_all (\<lambda>n. n < 256) bs \<Longrightarrow> b64_ungroup (b64_groups bs) = bs"
  by (induction bs rule: b64_groups.induct) auto

lemma b64_groups_bound: "list_all (\<lambda>n. n < 256) bs \<Longrightarrow> list_all (\<lambda>n. n < 64) (b64_groups bs)"
proof (induction bs rule: b64_groups.induct)
  case (4 a b c rest)
  then have "a div 4 < 64" "(a mod 4) * 16 + b div 16 < 64" "(b mod 16) * 4 + c div 64 < 64"
    by auto
  with 4 show ?case by simp
qed auto

definition b64_value :: "char \<Rightarrow> nat" where
  "b64_value c =
     (if is_upper c then code_of c - 65
      else if is_lower c then code_of c - 71
      else if is_digit c then code_of c + 4
      else if c = CHR ''-'' then 62 else 63)"

lemma code_of_char_of [simp]: "(n::nat) < 256 \<Longrightarrow> code_of (char_of n) = n"
  by (simp add: code_of_def)

lemma b64_value_symbol: "n < 64 \<Longrightarrow> b64_value (b64_symbol n) = n"
  by (auto simp: b64_value_def b64_symbol_def is_upper_def is_lower_def is_digit_def in_range_def
      code_of_def)

lemma map_value_symbol: "list_all (\<lambda>n. n < 64) ns \<Longrightarrow> map b64_value (map b64_symbol ns) = ns"
  by (induction ns) (simp_all add: b64_value_symbol)

lemma codes_bounded: "list_all (\<lambda>n. n < 256) (map code_of s)"
  by (simp add: list_all_iff)

lemma base64url_inject: "base64url s = base64url t \<longleftrightarrow> s = t"
proof
  assume eq: "base64url s = base64url t"
  have decode: "b64_ungroup (map b64_value (base64url u)) = map code_of u" for u
    by (simp only: base64url_def map_value_symbol [OF b64_groups_bound [OF codes_bounded]]
        b64_ungroup_groups [OF codes_bounded])
  have "map code_of s = map code_of t" using eq decode by metis
  then show "s = t" by (rule map_injective) (simp add: inj_def)
qed simp

lemma b64_symbol_safe: "is_alnum (b64_symbol n) \<or> b64_symbol n = CHR ''-'' \<or> b64_symbol n = CHR ''_''"
  by (auto simp: b64_symbol_def is_alnum_def is_upper_def is_lower_def is_digit_def in_range_def)

lemma caps_of_simps [simp]: "caps_of None = []" "caps_of (Some xs) = xs"
  by (simp_all add: caps_of_def)

lemma opt_valid_simps [simp]: "opt_valid p None" "opt_valid p (Some x) = p x"
  by (simp_all add: opt_valid_def)

lemma valid_id_nonempty: "is_valid_tenant_id s \<Longrightarrow> s \<noteq> ''''"
  by (auto simp: is_valid_tenant_id_def)

lemma keep_truthy_simps [simp]:
  "keep_truthy None = None"
  "s \<noteq> '''' \<Longrightarrow> keep_truthy (Some s) = Some s"
  "truthy (keep_truthy v) = truthy v"
  by (simp_all add: keep_truthy_def)

lemma keep_truthy_not_empty [simp]: "keep_truthy v \<noteq> Some ''''"
  by (cases v) (auto simp: keep_truthy_def)

lemma dimension_count_zero: "dimension_count u p a = 0 \<longleftrightarrow> \<not> truthy u \<and> \<not> truthy p \<and> \<not> truthy a"
  by (auto simp: dimension_count_def)

lemma dim_exact: "v \<noteq> Some '''' \<Longrightarrow> (if truthy v then w = v else w = None) \<longleftrightarrow> w = v"
  by (cases v) auto

text \<open>
  The exact reading of the membership predicate: an organization-wide filter asks for the
  organization alone, any other filter asks for exactly its own dimensions.
\<close>

lemma memory_belongs_iff:
  assumes "tf_projectId f \<noteq> Some ''''" "tf_userId f \<noteq> Some ''''" "tf_agentId f \<noteq> Some ''''"
  shows "memory_belongs_to_tenant m f \<longleftrightarrow>
    rs_tenantId m = Some (tf_organizationId f) \<and>
    (tf_organizationWide f = Some True \<or>
     rs_projectId m = tf_projectId f \<and> rs_userId m = tf_userId f \<and> rs_agentId m = tf_agentId f)"
proof -
  have t: "truthy (tf_projectId f) \<longleftrightarrow> tf_projectId f \<noteq> None" "truthy (tf_userId f) \<longleftrightarrow> tf_userId f \<noteq> None"
    "truthy (tf_agentId f) \<longleftrightarrow> tf_agentId f \<noteq> None"
    using assms by (auto simp: truthy_def split: option.splits)
  have wide: "tf_organizationWide f = Some True \<or> tf_organizationWide f = Some False \<or> tf_organizationWide f = None"
    by (cases "tf_organizationWide f") auto
  show ?thesis
  proof (cases "rs_tenantId m = Some (tf_organizationId f) \<and> tf_organizationWide f \<noteq> Some True")
    case True
    then show ?thesis using wide assms
      by (cases "tf_projectId f"; cases "tf_userId f"; cases "tf_agentId f") (simp_all add: memory_belongs_to_tenant_def t)
  next
    case False
    then show ?thesis by (auto simp: memory_belongs_to_tenant_def)
  qed
qed

lemma memory_belongs_org:
  "memory_belongs_to_tenant m f \<Longrightarrow> rs_tenantId m = Some (tf_organizationId f)"
  by (auto simp: memory_belongs_to_tenant_def split: if_splits)

lemma parse_principal_ok:
  "parse_tenant_principal c = Inr p \<Longrightarrow>
    is_valid_tenant_id (pr_organizationId p) \<and> opt_valid is_valid_tenant_id (pr_projectId p) \<and>
    opt_valid is_valid_tenant_id (pr_userId p) \<and> opt_valid is_valid_tenant_id (pr_agentId p)"
  by (cases c) (auto simp: claims_shape_ok_def to_principal_def split: if_splits)

lemma filter_of_principal_dims [simp]:
  "tf_projectId (filter_of_principal p) \<noteq> Some ''''"
  "tf_userId (filter_of_principal p) \<noteq> Some ''''"
  "tf_agentId (filter_of_principal p) \<noteq> Some ''''"
  by (simp_all add: filter_of_principal_def)

section \<open>Properties\<close>

text \<open>C1. Tenant isolation. A memory that the filter of a minted context admits carries the
  organization of that context; and unless the principal is organization-wide (no project, user
  or agent), its project, user and agent are exactly those of the principal, a missing dimension
  included: a scoped principal never sees a row of a wider or a different scope.\<close>

theorem tenant_isolation:
  assumes "parse_tenant_principal c = Inr p"
  shows "memory_belongs_to_tenant m (filter_of_principal p) \<longleftrightarrow>
    rs_tenantId m = Some (pr_organizationId p) \<and>
    (pr_projectId p = None \<and> pr_userId p = None \<and> pr_agentId p = None \<or>
     rs_projectId m = pr_projectId p \<and> rs_userId m = pr_userId p \<and> rs_agentId m = pr_agentId p)"
proof -
  have keep: "keep_truthy v = v" and none: "v = None \<longleftrightarrow> \<not> truthy v"
    if "opt_valid is_valid_tenant_id v" for v
    using that by (cases v; auto dest: valid_id_nonempty)+
  note ok = parse_principal_ok [OF assms]
  have "tf_organizationWide (filter_of_principal p) = Some True \<longleftrightarrow>
      pr_projectId p = None \<and> pr_userId p = None \<and> pr_agentId p = None"
    using ok by (auto simp: filter_of_principal_def dimension_count_zero none)
  then show ?thesis
    using ok keep by (simp add: memory_belongs_iff) (simp add: filter_of_principal_def)
qed

definition sample_claims :: principal_claims where
  "sample_claims =
     \<lparr>cl_organizationId = ''acme'', cl_userId = None, cl_projectId = Some ''p1'', cl_agentId = None,
      cl_membershipVersion = ''1'', cl_scopes = Some [''project/p1''],
      cl_capabilities = Some [''tenant:read'', ''tenant:write''], cl_unknownKeys = []\<rparr>"

lemma sample_claims_parse: "parse_tenant_principal (Claims sample_claims) = Inr (to_principal sample_claims)"
  by code_simp

theorem tenant_isolation_witness:
  "\<not> memory_belongs_to_tenant
      \<lparr>rs_tenantId = Some ''acme'', rs_projectId = None, rs_userId = None, rs_agentId = None\<rparr>
      (filter_of_principal (to_principal sample_claims))"
  using tenant_isolation [OF sample_claims_parse,
      of "\<lparr>rs_tenantId = Some ''acme'', rs_projectId = None, rs_userId = None, rs_agentId = None\<rparr>"]
  by (simp add: to_principal_def sample_claims_def)

text \<open>The directory key of an organization is collision-free and stays one path component:
  two valid organization ids with the same key are equal, and after the fixed prefix the key has
  only letters, digits, hyphen and underscore, so no separator and no dot.\<close>

theorem directory_key_injective_and_safe:
  assumes "tenant_directory_key a = Inr k"
  shows "(tenant_directory_key b = Inr k \<longrightarrow> a = b) \<and>
    (\<exists>body. k = ''tenant_'' @ body \<and>
      list_all (\<lambda>c. is_alnum c \<or> c = CHR ''-'' \<or> c = CHR ''_'') body)"
proof -
  have "base64url a = base64url b" if "tenant_directory_key b = Inr k"
    using that assms
    by (auto simp: tenant_directory_key_def and_then_Inr_iff parse_tenant_filter_def split: if_splits)
  moreover have "k = ''tenant_'' @ base64url a"
    using assms
    by (auto simp: tenant_directory_key_def and_then_Inr_iff parse_tenant_filter_def split: if_splits)
  moreover have "list_all (\<lambda>c. is_alnum c \<or> c = CHR ''-'' \<or> c = CHR ''_'') (base64url a)"
    by (simp add: base64url_def list_all_iff b64_symbol_safe)
  ultimately show ?thesis by (auto simp: base64url_inject)
qed

theorem directory_key_injective_and_safe_witness:
  "tenant_directory_key ''acme'' = Inr ''tenant_YWNtZQ'' \<and> tenant_directory_key ''acmf'' \<noteq> Inr ''tenant_YWNtZQ''"
proof -
  have k: "tenant_directory_key ''acme'' = Inr ''tenant_YWNtZQ''" by code_simp
  show ?thesis using k directory_key_injective_and_safe [OF k, of "''acmf''"] by auto
qed

end
