(* ===== verification/MemoryRecord.thy ===== *)
theory MemoryRecord
  imports Json Tenant
begin

text \<open>
  The stored memory of \<open>src/types.ts\<close> with its closed vocabularies and identifier rules, the
  defaults of a new memory (\<open>defaultTrust\<close>, \<open>defaultOwner\<close>) and the agent-mode read policy of
  \<open>src/agent.ts\<close>. The vocabularies are unions of string literals in the code and lists of strings
  here; a date is its ISO text, a number a rational, a value of \<open>meta\<close> a JSON value. The fields of
  a provenance besides its source are kept as the labels that are present, in the order of the schema.
\<close>

section \<open>Vocabularies\<close>

definition memory_types :: "string list" where
  "memory_types = [''fact'', ''preference'', ''decision'', ''constraint'', ''instruction'', ''role'', ''entity'',
     ''relationship'', ''event'', ''history'', ''observation'']"

definition trust_levels :: "string list" where
  "trust_levels = [''unverified'', ''trusted'', ''verified'', ''system'']"

definition source_types :: "string list" where
  "source_types = [''manual'', ''conversation'', ''agent'', ''import'', ''system'']"

definition retention_modes :: "string list" where
  "retention_modes = [''pinned'', ''persistent'', ''ephemeral'', ''decaying'', ''neverExpire'']"

definition relation_kinds :: "string list" where
  "relation_kinds = [''supports'', ''contradicts'', ''supersedes'', ''refines'', ''duplicates'', ''related'']"

definition memory_owners :: "string list" where
  "memory_owners = [''user'', ''agent'', ''project'', ''organization'', ''global'']"

definition memory_accesses :: "string list" where
  "memory_accesses = [''private'', ''shared'', ''global'']"

definition sensitivity_bands :: "string list" where
  "sensitivity_bands = [''public'', ''internal'', ''confidential'', ''secret'']"

definition schema_version :: nat where "schema_version = 3"
definition tenant_schema_version :: nat where "tenant_schema_version = 4"

section \<open>The record\<close>

definition provenance_labels :: "string list" where
  "provenance_labels = [''sessionId'', ''messageId'', ''agentId'', ''agentType'', ''agentVersion'',
     ''conversationId'', ''taskId'', ''runId'', ''provider'']"

record provenance =
  pv_sourceType :: string
  pv_labels :: "(string \<times> string) list"

record relation =
  rl_id :: string
  rl_kind :: string

record memory =
  mm_id :: string
  mm_type :: string
  mm_content :: string
  mm_scope :: string
  mm_tags :: "string list"
  mm_importance :: int
  mm_confidence :: rat
  mm_trust :: string
  mm_provenance :: provenance
  mm_owner :: "string option"
  mm_access :: "string option"
  mm_tenantId :: "string option"
  mm_projectId :: "string option"
  mm_userId :: "string option"
  mm_agentId :: "string option"
  mm_sensitivity :: "string option"
  mm_legalHold :: "bool option"
  mm_meta :: "(string \<times> json) list option"
  mm_validFrom :: "string option"
  mm_validUntil :: "string option"
  mm_observedAt :: "string option"
  mm_supersededBy :: "string option"
  mm_createdAt :: string
  mm_updatedAt :: string
  mm_lastSeen :: "string option"
  mm_lastValidated :: "string option"
  mm_archivedAt :: "string option"
  mm_version :: nat
  mm_source :: "string option"
  mm_retention :: "string option"
  mm_relations :: "relation list option"
  mm_embedding :: "rat list option"

text \<open>The input of a store, after its schema.\<close>

record store_input =
  si_type :: string
  si_content :: string
  si_scope :: string
  si_tags :: "string list"
  si_importance :: int
  si_source :: "string option"
  si_confidence :: "rat option"
  si_trust :: "string option"
  si_retention :: "string option"
  si_sourceType :: "string option"
  si_labels :: "(string \<times> string) list"
  si_owner :: "string option"
  si_access :: "string option"
  si_meta :: "(string \<times> json) list option"
  si_sensitivity :: "string option"
  si_legalHold :: "bool option"
  si_validFrom :: "string option"
  si_validUntil :: "string option"
  si_observedAt :: "string option"
  si_supersededBy :: "string option"

section \<open>Identifiers and scopes\<close>

definition is_id_char :: "char \<Rightarrow> bool" where
  "is_id_char c \<longleftrightarrow> is_alnum c \<or> c = CHR ''.'' \<or> c = CHR ''_'' \<or> c = CHR ''-''"

definition is_record_id :: "string \<Rightarrow> bool" where
  "is_record_id s \<longleftrightarrow> s \<noteq> '''' \<and> list_all is_id_char s"

definition unsafe_id_char :: "char \<Rightarrow> bool" where
  "unsafe_id_char c \<longleftrightarrow> c \<in> set [CHR 0x5C, CHR ''/'', CHR 0x7F, CHR ''<'', CHR ''>'', CHR '':'', CHR 0x22, CHR ''|'',
     CHR ''?'', CHR ''*''] \<or> code_of c \<le> 31"

definition is_safe_memory_id :: "string \<Rightarrow> bool" where
  "is_safe_memory_id s \<longleftrightarrow> length s > 0 \<and> length s \<le> 255 \<and> s \<noteq> ''.'' \<and> s \<noteq> ''..'' \<and>
     \<not> list_ex unsafe_id_char s \<and> \<not> (last s = CHR ''.'' \<or> last s = CHR '' '')"

definition is_path_char :: "char \<Rightarrow> bool" where
  "is_path_char c \<longleftrightarrow> is_id_char c \<or> c = CHR ''/''"

definition safe_scope_text :: "string \<Rightarrow> string" where
  "safe_scope_text s = map (\<lambda>c. if is_path_char c then c else CHR ''_'') s"

definition is_safe_scope :: "string \<Rightarrow> bool" where
  "is_safe_scope s \<longleftrightarrow> s = ''global'' \<or> ''..'' \<notin> set (split_on (CHR ''/'') (safe_scope_text s))"

section \<open>Defaults\<close>

definition default_trust :: "provenance \<Rightarrow> string" where
  "default_trust p =
     (if pv_sourceType p = ''conversation'' then ''unverified''
      else if pv_sourceType p = ''system'' then ''system'' else ''trusted'')"

definition default_owner :: "provenance \<Rightarrow> string" where
  "default_owner p = (if pv_sourceType p = ''agent'' then ''agent'' else ''global'')"

text \<open>The configured default access is a variable of the environment.\<close>

definition default_access :: "string option \<Rightarrow> string" where
  "default_access configured =
     (case configured of None \<Rightarrow> ''global'' | Some s \<Rightarrow> if s \<in> set memory_accesses then s else ''global'')"

section \<open>Agent mode\<close>

record agent_context =
  ac_agentId :: string
  ac_agentType :: "string option"
  ac_agentVersion :: "string option"
  ac_councilId :: "string option"
  ac_taskId :: "string option"
  ac_conversationId :: "string option"
  ac_runId :: "string option"
  ac_scopes :: "string list option"

definition context_scopes :: "agent_context \<Rightarrow> string list" where
  "context_scopes c = (case ac_scopes c of None \<Rightarrow> [] | Some xs \<Rightarrow> xs) @ [''agent:'' @ ac_agentId c] @
     (case ac_councilId c of None \<Rightarrow> [] | Some s \<Rightarrow> if s \<noteq> '''' then [''council:'' @ s] else []) @
     (case ac_taskId c of None \<Rightarrow> [] | Some s \<Rightarrow> if s \<noteq> '''' then [''task:'' @ s] else [])"

definition can_use_scope :: "string \<Rightarrow> agent_context option \<Rightarrow> bool" where
  "can_use_scope scope ctx \<longleftrightarrow>
     scope = ''global'' \<or> (case ctx of None \<Rightarrow> False | Some c \<Rightarrow> scope \<in> set (context_scopes c))"

definition access_of :: "memory \<Rightarrow> string" where
  "access_of m = (case mm_access m of None \<Rightarrow> ''global'' | Some a \<Rightarrow> a)"

definition can_read_memory :: "memory \<Rightarrow> agent_context option \<Rightarrow> bool \<Rightarrow> bool" where
  "can_read_memory m ctx agentMode =
     (if \<not> agentMode then True
      else if mm_scope m \<noteq> ''global'' \<and> \<not> can_use_scope (mm_scope m) ctx then False
      else if access_of m = ''global'' then True
      else case ctx of
          None \<Rightarrow> False
        | Some c \<Rightarrow>
            if access_of m = ''shared'' then True
            else mm_access m = Some ''private'' \<and>
              map_of (pv_labels (mm_provenance m)) ''agentId'' = Some (ac_agentId c))"

section \<open>Tenant\<close>

text \<open>The tenant dimensions of a memory, as the predicate of \<open>src/tenant.ts\<close> reads them.\<close>

definition memory_dims :: "memory \<Rightarrow> resource" where
  "memory_dims m = \<lparr>rs_tenantId = mm_tenantId m, rs_projectId = mm_projectId m, rs_userId = mm_userId m,
     rs_agentId = mm_agentId m\<rparr>"

definition in_tenant :: "memory \<Rightarrow> tenant_filter \<Rightarrow> bool" where
  "in_tenant m f = memory_belongs_to_tenant (memory_dims m) f"

section \<open>Facts\<close>

lemma private_memory_read:
  assumes "can_read_memory m ctx True" "mm_access m = Some ''private''"
  shows "\<exists>c. ctx = Some c \<and> map_of (pv_labels (mm_provenance m)) ''agentId'' = Some (ac_agentId c) \<and>
    can_use_scope (mm_scope m) ctx"
  using assms by (auto simp: can_read_memory_def access_of_def can_use_scope_def split: if_splits option.splits)

end
