(* ===== verification/RetrievalText.thy ===== *)
theory RetrievalText
  imports MemoryRecord
begin

text \<open>
  The lexical half of \<open>src/retrieval.ts\<close>: the query with its leading qualifier, tokens, term statistics and the
  keyword score. Numbers of the code are rationals, so rounding is not modelled; what the language supplies
  (case folding, Unicode classes, logarithm, square root, power, dates, collation, UTF-8 length) is a parameter
  of type \<open>lang\<close>. Regular expressions are written out as the scanners they are.
\<close>

section \<open>Parameters\<close>

text \<open>\<open>la_word\<close> is the class of letters and numbers, \<open>la_cjk\<close> the range \<open>CJK_RANGE\<close>, \<open>la_compare\<close> is
  \<open>localeCompare\<close>, \<open>la_date\<close> is \<open>Date.parse\<close> where it is finite.\<close>

record lang =
  la_lower :: "string \<Rightarrow> string"
  la_word :: "char \<Rightarrow> bool"
  la_cjk :: "char \<Rightarrow> bool"
  la_log :: "rat \<Rightarrow> rat"
  la_sqrt :: "rat \<Rightarrow> rat"
  la_pow2 :: "rat \<Rightarrow> rat"
  la_date :: "string \<Rightarrow> rat option"
  la_compare :: "string \<Rightarrow> string \<Rightarrow> int"
  la_bytes :: "string \<Rightarrow> nat"

section \<open>Tokens\<close>

text \<open>The maximal runs of letters and numbers; empty runs are dropped.\<close>

fun word_runs :: "(char \<Rightarrow> bool) \<Rightarrow> string \<Rightarrow> string list" where
  "word_runs p [] = [[]]"
| "word_runs p (c # cs) =
     (if \<not> p c then [] # word_runs p cs
      else case word_runs p cs of [] \<Rightarrow> [[c]] | w # ws \<Rightarrow> (c # w) # ws)"

definition tokenize :: "lang \<Rightarrow> string \<Rightarrow> string list" where
  "tokenize l text =
     concat (map (\<lambda>run. if run = '''' then [] else if list_ex (la_cjk l) run then map (\<lambda>c. [c]) run else [run])
       (word_runs (la_word l) (la_lower l text)))"

section \<open>The query\<close>

record temporal =
  tm_latest :: "nat option"
  tm_recent :: "nat option"
  tm_before :: "string option"
  tm_after :: "string option"

definition no_temporal :: temporal where
  "no_temporal = \<lparr>tm_latest = None, tm_recent = None, tm_before = None, tm_after = None\<rparr>"

definition is_newline :: "char \<Rightarrow> bool" where
  "is_newline c \<longleftrightarrow> c = CHR 0x0A \<or> c = CHR 0x0D"

text \<open>The word of a qualifier in any case of its letters, then white space: what follows them.\<close>

definition after_word :: "string \<Rightarrow> string \<Rightarrow> string option" where
  "after_word w s =
     (let n = length w; same = (\<lambda>c d. c = d \<or> is_upper c \<and> code_of c + 32 = code_of d)
      in if length s > n \<and> list_all2 same (take n s) w \<and> is_js_space (s ! n)
         then Some (dropWhile is_js_space (drop n s)) else None)"

text \<open>\<open>(\d+)(?:\s+(.*))?\<close>: the number and the rest of the line, if white space follows the number.\<close>

definition count_and_body :: "string \<Rightarrow> (nat \<times> string) option" where
  "count_and_body s =
     (let ds = takeWhile is_digit s; rest = dropWhile is_digit s
      in if ds = '''' then None
         else Some (undec_from 0 ds,
           if rest \<noteq> '''' \<and> is_js_space (hd rest)
           then takeWhile (\<lambda>c. \<not> is_newline c) (dropWhile is_js_space rest) else ''''))"

text \<open>\<open>(.+)\<close>: the white space before it gives characters back when nothing else is left; the query is trimmed,
  so that something always is.\<close>

definition rest_of_line :: "string \<Rightarrow> string option" where
  "rest_of_line s = (let r = takeWhile (\<lambda>c. \<not> is_newline c) s in if r = '''' then None else Some r)"

definition qualifier :: "string \<Rightarrow> (temporal \<times> string) option" where
  "qualifier q =
     (case Option.bind (after_word ''latest'' q) count_and_body of
        Some (n, body) \<Rightarrow> Some (no_temporal\<lparr>tm_latest := Some n\<rparr>, body)
      | None \<Rightarrow>
     (case Option.bind (after_word ''recent'' q) count_and_body of
        Some (n, body) \<Rightarrow> Some (no_temporal\<lparr>tm_recent := Some n\<rparr>, body)
      | None \<Rightarrow>
     (case Option.bind (after_word ''before'' q) rest_of_line of
        Some t \<Rightarrow> Some (no_temporal\<lparr>tm_before := Some (trim t)\<rparr>, '''')
      | None \<Rightarrow>
     (case after_word ''after'' q of
        Some t \<Rightarrow> if t \<noteq> '''' \<and> list_all (\<lambda>c. \<not> is_newline c) t
                   then Some (no_temporal\<lparr>tm_after := Some (trim t)\<rparr>, '''') else None
      | None \<Rightarrow> None))))"

definition query_terms :: "lang \<Rightarrow> string \<Rightarrow> string list" where
  "query_terms l body = filter (\<lambda>t. length t > 1 \<or> list_ex (la_cjk l) t) (tokenize l body)"

definition extract_query :: "lang \<Rightarrow> string option \<Rightarrow> string list \<times> temporal" where
  "extract_query l raw =
     (let q = trim (case raw of None \<Rightarrow> '''' | Some s \<Rightarrow> s)
      in if q = '''' then ([], no_temporal)
         else (case qualifier q of
                 None \<Rightarrow> (query_terms l q, no_temporal)
               | Some (t, body) \<Rightarrow> (query_terms l (trim body), t)))"

section \<open>Term statistics\<close>

record term_stats =
  ts_frequency :: "(string, nat) js_map"
  ts_count :: nat

definition memory_tokens :: "lang \<Rightarrow> memory \<Rightarrow> string list" where
  "memory_tokens l m = tokenize l (mm_content m) @ concat (map (tokenize l) (mm_tags m))"

definition count_tokens :: "string list \<Rightarrow> (string, nat) js_map \<Rightarrow> (string, nat) js_map" where
  "count_tokens seen df =
     fold (\<lambda>t df. AList.update t ((case map_of df t of None \<Rightarrow> 0 | Some n \<Rightarrow> n) + 1) df) seen df"

definition build_term_statistics :: "lang \<Rightarrow> memory list \<Rightarrow> string list \<Rightarrow> nat \<Rightarrow> term_stats" where
  "build_term_statistics l ms terms docs =
     (let wanted = filter (\<lambda>t. t \<noteq> '''') (map (la_lower l) terms)
      in \<lparr>ts_frequency = fold (\<lambda>m. count_tokens (remdups (filter (\<lambda>t. t \<in> set wanted) (memory_tokens l m)))) ms [],
          ts_count = docs\<rparr>)"

definition normalised_idf :: "lang \<Rightarrow> string \<Rightarrow> term_stats option \<Rightarrow> rat" where
  "normalised_idf l term stats = (case stats of
     None \<Rightarrow> 1
   | Some st \<Rightarrow>
       if ts_count st = 0 then 1
       else (let frequency = (case map_of (ts_frequency st) term of None \<Rightarrow> ts_count st | Some df \<Rightarrow> max 1 df);
                 ceiling = la_log l (1 + of_nat (ts_count st))
             in if ceiling \<le> 0 then 1
                else max 0 (min 1 (la_log l (1 + of_nat (ts_count st) / of_nat frequency) / ceiling))))"

section \<open>The keyword score\<close>

record lexical_weights =
  lw_content :: rat
  lw_tags :: rat
  lw_prefix :: rat
  lw_phrase :: rat

definition default_lexical_weights :: lexical_weights where
  "default_lexical_weights = \<lparr>lw_content = 1, lw_tags = 1 / 2, lw_prefix = 35 / 100, lw_phrase = 3 / 2\<rparr>"

definition lexical_headroom :: rat where "lexical_headroom = 2"

definition is_prefix_of :: "string \<Rightarrow> string \<Rightarrow> bool" where
  "is_prefix_of term token \<longleftrightarrow> length token > length term \<and> take (length term) token = term"

text \<open>What one term adds: to the credit, and to the credit of exact matches in the content.\<close>

definition term_credit :: "lang \<Rightarrow> lexical_weights \<Rightarrow> term_stats option \<Rightarrow> string list \<Rightarrow> string list \<Rightarrow> string \<Rightarrow> rat \<times> rat" where
  "term_credit l w stats content tags raw =
     (let term = la_lower l raw
      in if term = '''' then (0, 0)
         else (let idf = normalised_idf l term stats;
                   exact = (if term \<in> set content then lw_content w * idf else 0);
                   inContent = (if term \<in> set content then lw_content w * idf
                     else if list_ex (is_prefix_of term) content then lw_content w * lw_prefix w * idf else 0);
                   inTags = (if term \<in> set tags then lw_tags w * idf
                     else if list_ex (is_prefix_of term) tags then lw_tags w * lw_prefix w * idf else 0)
               in (inContent + inTags, exact)))"

definition has_phrase :: "string list \<Rightarrow> string list \<Rightarrow> bool" where
  "has_phrase ordered tokens \<longleftrightarrow>
     list_ex (\<lambda>start. take (length ordered) (drop start tokens) = ordered) [0..<length tokens + 1 - length ordered]"

definition scaled_coverage :: "rat \<Rightarrow> rat" where
  "scaled_coverage coverage = (if coverage \<le> 0 then 0 else if coverage \<ge> 1 then 60 else coverage * 60)"

definition keyword_score :: "lang \<Rightarrow> memory \<Rightarrow> string list \<Rightarrow> lexical_weights \<Rightarrow> term_stats option \<Rightarrow> rat" where
  "keyword_score l m terms w stats =
     (if terms = [] then 0
      else
        (let content = tokenize l (mm_content m);
             tags = concat (map (tokenize l) (mm_tags m));
             credits = map (term_credit l w stats content tags) terms;
             matched = sum_list (map fst credits);
             exact = sum_list (map snd credits);
             phrase = (if length terms > 1 \<and> exact > 0 \<and> has_phrase (map (la_lower l) terms) content
               then exact * (lw_phrase w - 1) else 0);
             maxPossible = of_nat (length terms) * lw_content w * lexical_headroom
         in if maxPossible \<le> 0 then 0
            else scaled_coverage ((matched + phrase) / maxPossible)))"

section \<open>Facts\<close>

lemma normalised_idf_bounds: "0 \<le> normalised_idf l t stats" "normalised_idf l t stats \<le> 1"
  by (auto simp: normalised_idf_def Let_def split: option.split)

lemma scaled_coverage_bounds: "0 \<le> scaled_coverage c" "scaled_coverage c \<le> 60"
  by (simp_all add: scaled_coverage_def)

lemma keyword_score_bounds: "0 \<le> keyword_score l m terms w stats" "keyword_score l m terms w stats \<le> 60"
  by (simp_all add: keyword_score_def Let_def scaled_coverage_bounds)

end
