(* ===== verification/Retrieval.thy ===== *)
theory Retrieval
  imports RetrievalText
begin

text \<open>
  The pipeline of \<open>src/retrieval.ts\<close>: scope filter, vector score, reciprocal rank fusion, modifiers, the gate of
  standing instructions, suppression of superseded and duplicated memories, diversity, budget and explanations,
  composed as \<open>searchQ\<close> composes them, and the expansion through relations. The clock and the time that has
  passed are parameters; the debug trace is not modelled.
\<close>

section \<open>Scope\<close>

definition apply_scope_filter :: "memory \<Rightarrow> string option \<Rightarrow> nat" where
  "apply_scope_filter m queryScope =
     (if truthy queryScope \<and> Some (mm_scope m) \<noteq> queryScope \<and> mm_scope m \<noteq> ''global'' then 0
      else if mm_scope m = ''global'' then 100
      else if truthy queryScope \<and> Some (mm_scope m) = queryScope then 150
      else 100)"

definition is_standing_instruction :: "memory \<Rightarrow> bool \<Rightarrow> bool" where
  "is_standing_instruction m requireTrust \<longleftrightarrow>
     (mm_type m = ''role'' \<or> mm_type m = ''instruction'') \<and> (\<not> requireTrust \<or> mm_trust m \<noteq> ''unverified'')"

section \<open>Vectors\<close>

definition dot :: "rat list \<Rightarrow> rat list \<Rightarrow> rat" where
  "dot a b = sum_list (map2 (*) a b)"

definition cosine :: "lang \<Rightarrow> rat list \<Rightarrow> rat list \<Rightarrow> rat" where
  "cosine l a b =
     (if a = [] \<or> length a \<noteq> length b then 0
      else if dot a a = 0 \<or> dot b b = 0 then 0
      else dot a b / (la_sqrt l (dot a a) * la_sqrt l (dot b b)))"

definition vector_score :: "lang \<Rightarrow> memory \<Rightarrow> rat list \<Rightarrow> rat" where
  "vector_score l m v = (case mm_embedding m of
     None \<Rightarrow> 0
   | Some e \<Rightarrow> if e = [] \<or> length e \<noteq> length v then 0 else max 0 (cosine l v e) * 100)"

section \<open>Fusion\<close>

record fusion_weights =
  fw_keyword :: rat
  fw_semantic :: rat
  fw_metadata :: rat
  fw_recency :: rat
  fw_confidence :: rat
  fw_rrfK :: rat
  fw_scale :: rat

definition default_fusion_weights :: fusion_weights where
  "default_fusion_weights = \<lparr>fw_keyword = 1, fw_semantic = 1, fw_metadata = 1, fw_recency = 1, fw_confidence = 1,
     fw_rrfK = 16 / 10, fw_scale = 50\<rparr>"

text \<open>The weights a policy gives, by name; a value that is not finite is \<open>None\<close>.\<close>

type_synonym given_weights = "(string \<times> rat option) list"

definition given_weight :: "given_weights \<Rightarrow> string \<Rightarrow> rat \<Rightarrow> rat option" where
  "given_weight g k d = (case map_of g k of None \<Rightarrow> Some d | Some v \<Rightarrow> v)"

definition valid_weight :: "rat option \<Rightarrow> bool" where
  "valid_weight v \<longleftrightarrow> (case v of None \<Rightarrow> False | Some q \<Rightarrow> q \<ge> 0)"

definition merged_weights :: "given_weights option \<Rightarrow> fusion_weights result" where
  "merged_weights given = (case given of
     None \<Rightarrow> Inr default_fusion_weights
   | Some g \<Rightarrow>
       (let w = given_weight g;
            kw = w ''keyword'' 1; se = w ''semantic'' 1; md = w ''metadata'' 1; re = w ''recency'' 1;
            co = w ''confidence'' 1; k = w ''rrfK'' (16 / 10); sc = w ''fusionScale'' 50
        in if \<not> list_all valid_weight [kw, se, md, re, co, k, sc] then Inl INVALID_INPUT
           else if k = Some 0 then Inl INVALID_INPUT
           else Inr \<lparr>fw_keyword = the kw, fw_semantic = the se, fw_metadata = the md, fw_recency = the re,
             fw_confidence = the co, fw_rrfK = the k, fw_scale = the sc\<rparr>))"

text \<open>One ranked list: equal scores share the average of their ranks. \<open>i\<close> is the number of entries before.\<close>

function rank_credits :: "rat \<Rightarrow> rat \<Rightarrow> nat \<Rightarrow> (string \<times> rat) list \<Rightarrow> (string \<times> rat) list" where
  "rank_credits k w i [] = []"
| "rank_credits k w i ((x, s) # xs) =
     (let tie = takeWhile (\<lambda>(y, t). t = s) xs;
          j = i + 1 + length tie;
          c = w / (k + of_nat (i + 1 + j) / 2)
      in (x, c) # map (\<lambda>(y, t). (y, c)) tie @ rank_credits k w j (dropWhile (\<lambda>(y, t). t = s) xs))"
  by pat_completeness auto
termination by (relation "measure (\<lambda>(k, w, i, xs). length xs)") (auto simp: less_Suc_eq_le length_dropWhile_le)

definition add_credits :: "(string \<times> rat) list \<Rightarrow> (string, rat) js_map \<Rightarrow> (string, rat) js_map" where
  "add_credits cs fuse =
     fold (\<lambda>(x, c) f. AList.update x ((case map_of f x of None \<Rightarrow> 0 | Some v \<Rightarrow> v) + c) f) cs fuse"

definition rrf_fuse :: "(string \<times> rat) list \<Rightarrow> (string \<times> rat) list \<Rightarrow> fusion_weights \<Rightarrow> (string, rat) js_map" where
  "rrf_fuse kw vec w =
     add_credits (rank_credits (fw_rrfK w) (fw_semantic w) 0 vec)
       (add_credits (rank_credits (fw_rrfK w) (fw_keyword w) 0 kw) [])"

definition single_list_ranks :: "(string \<times> rat) list \<Rightarrow> rat \<Rightarrow> fusion_weights \<Rightarrow> (string, rat) js_map" where
  "single_list_ranks xs listWeight w =
     fold (\<lambda>(x, c) f. AList.update x c f) (rank_credits (fw_rrfK w) listWeight 0 xs) []"

section \<open>Modifiers\<close>

definition trust_points :: "string \<Rightarrow> rat" where
  "trust_points t = (if t = ''system'' then 8 else if t = ''verified'' then 6 else if t = ''trusted'' then 2 else - 8)"

text \<open>\<open>now\<close> in milliseconds.\<close>

definition recency_score :: "lang \<Rightarrow> memory \<Rightarrow> rat \<Rightarrow> rat" where
  "recency_score l m now = (case la_date l (mm_updatedAt m) of
     None \<Rightarrow> 0
   | Some t \<Rightarrow> 20 * la_pow2 l (- max 0 ((now - t) / 86400000) / 30))"

definition modifier_score :: "lang \<Rightarrow> memory \<Rightarrow> temporal \<Rightarrow> rat \<Rightarrow> fusion_weights \<Rightarrow> rat" where
  "modifier_score l m t now w =
     (let metadata = (if pv_sourceType (mm_provenance m) = ''manual'' then 10 else 0) + trust_points (mm_trust m) +
            (if mm_retention m = Some ''pinned'' then 50 else 0) + of_int (mm_importance m) * 4;
          recencyMultiplier = (if tm_latest t \<noteq> None \<or> tm_recent t \<noteq> None then 2 else 1 / 2)
      in metadata * fw_metadata w + mm_confidence m * 20 * fw_confidence w +
         recency_score l m now * recencyMultiplier * fw_recency w)"

definition apply_standing_gate :: "rat \<Rightarrow> memory \<Rightarrow> bool \<Rightarrow> rat" where
  "apply_standing_gate s m requireTrust = (if is_standing_instruction m requireTrust then s + 1000 else s)"

section \<open>Duplicates\<close>

text \<open>\<open>replace(/\s+/g, " ")\<close>.\<close>

fun collapse_spaces :: "string \<Rightarrow> string" where
  "collapse_spaces [] = []"
| "collapse_spaces (c # cs) =
     (if is_js_space c
      then (case cs of d # ds \<Rightarrow> if is_js_space d then collapse_spaces cs else CHR '' '' # collapse_spaces cs
                     | [] \<Rightarrow> [CHR '' ''])
      else c # collapse_spaces cs)"

definition duplicate_key :: "lang \<Rightarrow> memory \<Rightarrow> string" where
  "duplicate_key l m =
     rev (dropWhile (\<lambda>c. c \<in> set ''.,;:!?'') (rev (trim (collapse_spaces (la_lower l (mm_content m))))))"

definition source_key :: "memory \<Rightarrow> string" where
  "source_key m =
     (let p = mm_provenance m; f = (\<lambda>k. case map_of (pv_labels p) k of None \<Rightarrow> '''' | Some v \<Rightarrow> v)
      in join_with ''|'' [pv_sourceType p, f ''agentId'', f ''conversationId'', f ''sessionId'', f ''runId''])"

record dedup_options =
  do_exact :: "bool option"
  do_sameSource :: "bool option"
  do_window :: "nat option"

datatype removal_reason = ExactCopy | SameSource

record removal =
  rm_id :: string
  rm_keptId :: string
  rm_reason :: removal_reason

record dedup_state =
  ds_text :: "(string, string) js_map"
  ds_pair :: "(string, string) js_map"
  ds_kept :: "memory list"
  ds_removed :: "removal list"

definition put_absent :: "'k \<Rightarrow> 'v \<Rightarrow> ('k, 'v) js_map \<Rightarrow> ('k, 'v) js_map" where
  "put_absent k v m = (if map_of m k = None then AList.update k v m else m)"

text \<open>The maps hold the ids of the memories that were kept.\<close>

definition dedup_step :: "lang \<Rightarrow> bool \<Rightarrow> memory \<Rightarrow> dedup_state \<Rightarrow> dedup_state" where
  "dedup_step l sameSource m s =
     (let key = duplicate_key l m
      in if key = '''' then s\<lparr>ds_kept := ds_kept s @ [m]\<rparr>
         else
           (let pair = (if sameSource then source_key m else '''') @ [CHR 0x00] @ key;
                priorPair = (if sameSource then map_of (ds_pair s) pair else None)
            in case priorPair of
                 Some i \<Rightarrow> s\<lparr>ds_removed := ds_removed s @ [\<lparr>rm_id = mm_id m, rm_keptId = i, rm_reason = SameSource\<rparr>]\<rparr>
               | None \<Rightarrow>
                   (case (if sameSource then None else map_of (ds_text s) key) of
                      Some i \<Rightarrow> s\<lparr>ds_removed := ds_removed s @ [\<lparr>rm_id = mm_id m, rm_keptId = i, rm_reason = ExactCopy\<rparr>]\<rparr>
                    | None \<Rightarrow> s\<lparr>ds_text := put_absent key (mm_id m) (ds_text s),
                        ds_pair := (if sameSource then put_absent pair (mm_id m) (ds_pair s) else ds_pair s),
                        ds_kept := ds_kept s @ [m]\<rparr>)))"

definition or_value :: "'a \<Rightarrow> 'a option \<Rightarrow> 'a" where
  "or_value d v = (case v of None \<Rightarrow> d | Some x \<Rightarrow> x)"

definition dedupe_results :: "lang \<Rightarrow> memory list \<Rightarrow> dedup_options \<Rightarrow> memory list \<times> removal list" where
  "dedupe_results l ranked opts =
     (let sameSource = or_value False (do_sameSource opts)
      in if \<not> or_value True (do_exact opts) \<and> \<not> sameSource then (ranked, [])
         else
           (let window = max 1 (or_value 200 (do_window opts));
                s = fold (dedup_step l sameSource) (take window ranked)
                      \<lparr>ds_text = [], ds_pair = [], ds_kept = [], ds_removed = []\<rparr>
            in (ds_kept s @ drop window ranked, ds_removed s)))"

section \<open>Relations\<close>

fun dedupe_memories :: "memory list \<Rightarrow> memory list" where
  "dedupe_memories [] = []"
| "dedupe_memories (m # ms) = m # dedupe_memories (filter (\<lambda>n. mm_id n \<noteq> mm_id m) ms)"

definition relation_ids :: "memory \<Rightarrow> string list" where
  "relation_ids m = map rl_id (or_value [] (mm_relations m))"

definition incoming_ids :: "memory list \<Rightarrow> string \<Rightarrow> string list" where
  "incoming_ids pool i = concat (map (\<lambda>m. map (\<lambda>_. mm_id m) (filter (\<lambda>x. x = i) (relation_ids m))) pool)"

text \<open>A map built from a list keeps the last entry of a key.\<close>

definition pool_get :: "memory list \<Rightarrow> string \<Rightarrow> memory option" where
  "pool_get pool i = find (\<lambda>m. mm_id m = i) (rev pool)"

record expansion =
  ex_selected :: "memory list"
  ex_next :: "memory list"
  ex_edges :: nat

text \<open>One neighbour; the ids visited are those of the selected memories.\<close>

definition expand_edge :: "memory list \<Rightarrow> nat \<Rightarrow> string \<Rightarrow> expansion \<Rightarrow> expansion" where
  "expand_edge pool maxEdges i s =
     (if ex_edges s \<ge> maxEdges then s
      else
        (let s = s\<lparr>ex_edges := ex_edges s + 1\<rparr>
         in if i \<in> mm_id ` set (ex_selected s) then s
            else (case pool_get pool i of
                    None \<Rightarrow> s
                  | Some n \<Rightarrow> s\<lparr>ex_selected := ex_selected s @ [n], ex_next := ex_next s @ [n]\<rparr>)))"

definition expand_memory :: "memory list \<Rightarrow> nat \<Rightarrow> memory \<Rightarrow> expansion \<Rightarrow> expansion" where
  "expand_memory pool maxEdges m s = fold (expand_edge pool maxEdges) (relation_ids m @ incoming_ids pool (mm_id m)) s"

fun expand_levels :: "memory list \<Rightarrow> nat \<Rightarrow> nat \<Rightarrow> memory list \<Rightarrow> expansion \<Rightarrow> expansion" where
  "expand_levels pool maxEdges 0 frontier s = s"
| "expand_levels pool maxEdges (Suc depth) frontier s =
     (if frontier = [] \<or> ex_edges s \<ge> maxEdges then s
      else (let s = fold (expand_memory pool maxEdges) frontier (s\<lparr>ex_next := []\<rparr>)
            in expand_levels pool maxEdges depth (ex_next s) s))"

definition clamp :: "int \<Rightarrow> rat \<Rightarrow> nat" where
  "clamp hi q = nat (max 0 (min hi \<lfloor>q\<rfloor>))"

definition expand_relation_candidates :: "memory list \<Rightarrow> memory list \<Rightarrow> rat option \<Rightarrow> rat option \<Rightarrow> memory list" where
  "expand_relation_candidates pool seeds depth edges =
     (let maxDepth = clamp 2 (or_value 1 depth); maxEdges = clamp 128 (or_value 32 edges); selected = dedupe_memories seeds
      in if maxDepth = 0 \<or> maxEdges = 0 then selected
         else ex_selected (expand_levels pool maxEdges maxDepth selected \<lparr>ex_selected = selected, ex_next = [], ex_edges = 0\<rparr>))"

section \<open>Diversity\<close>

definition mmr_value :: "lang \<Rightarrow> rat list \<Rightarrow> rat \<Rightarrow> memory list \<Rightarrow> memory \<Rightarrow> rat" where
  "mmr_value l v lambda selected m = (case mm_embedding m of
     None \<Rightarrow> 0
   | Some e \<Rightarrow>
       if length e \<noteq> length v then 0
       else
         (let es = filter (\<lambda>x. x \<noteq> [] \<and> length x = length v) (map (\<lambda>s. or_value [] (mm_embedding s)) selected);
              maxRel = foldr (\<lambda>x acc. max (cosine l v x) acc) es 0;
              total = sum_list (map (cosine l e) es);
              avgSelf = (if selected \<noteq> [] then total / of_nat (length selected) else total)
          in maxRel - lambda * avgSelf))"

text \<open>The first index of the greatest value.\<close>

fun best_from :: "rat \<Rightarrow> nat \<Rightarrow> nat \<Rightarrow> rat list \<Rightarrow> nat" where
  "best_from best b i [] = b"
| "best_from best b i (x # xs) = (if x > best then best_from x i (Suc i) xs else best_from best b (Suc i) xs)"

definition best_index :: "rat list \<Rightarrow> nat" where
  "best_index xs = (case xs of [] \<Rightarrow> 0 | x # rest \<Rightarrow> best_from x 0 1 rest)"

fun mmr_pick :: "lang \<Rightarrow> rat list \<Rightarrow> rat \<Rightarrow> nat \<Rightarrow> memory list \<Rightarrow> memory list \<Rightarrow> memory list" where
  "mmr_pick l v lambda 0 selected queue = selected"
| "mmr_pick l v lambda (Suc n) selected queue =
     (if queue = [] then selected
      else (let b = best_index (map (mmr_value l v lambda selected) queue)
            in mmr_pick l v lambda n (selected @ [queue ! b]) (take b queue @ drop (Suc b) queue)))"

definition mmr_dedup :: "lang \<Rightarrow> memory list \<Rightarrow> rat list option \<Rightarrow> nat \<Rightarrow> rat \<Rightarrow> memory list" where
  "mmr_dedup l candidates v limit lambda =
     (if length candidates \<le> limit \<or> or_value [] v = [] then take limit candidates
      else mmr_pick l (or_value [] v) lambda limit [] candidates)"

section \<open>The pipeline\<close>

record budget =
  bg_maxItems :: "rat option"
  bg_maxTokens :: "rat option"
  bg_maxBytes :: "rat option"
  bg_maxLatencyMs :: "rat option"

definition bound_ok :: "rat option \<Rightarrow> bool" where
  "bound_ok v \<longleftrightarrow> (case v of None \<Rightarrow> True | Some q \<Rightarrow> of_int \<lfloor>q\<rfloor> = q \<and> q \<ge> 1)"

definition assert_valid_budget :: "budget \<Rightarrow> bool" where
  "assert_valid_budget b \<longleftrightarrow>
     bound_ok (bg_maxItems b) \<and> bound_ok (bg_maxTokens b) \<and> bound_ok (bg_maxBytes b) \<and> bound_ok (bg_maxLatencyMs b)"

record search_query =
  sq_query :: "string option"
  sq_scope :: "string option"
  sq_limit :: "nat option"
  sq_explain :: "bool option"
  sq_candidates :: "string list option"
  sq_totalDocs :: "nat option"
  sq_dedupeExact :: "bool option"
  sq_dedupeSameSource :: "bool option"
  sq_includeSuperseded :: "bool option"
  sq_budget :: "budget option"

record retrieval_policy =
  rp_requireRoleTrust :: "bool option"
  rp_diversity :: "bool option"
  rp_reranking :: "bool option"
  rp_fusionWeights :: "given_weights option"

record scored =
  sc_memory :: memory
  sc_keyword :: rat
  sc_vector :: rat
  sc_scope :: nat

definition score_entry ::
  "lang \<Rightarrow> search_query \<Rightarrow> string list \<Rightarrow> term_stats \<Rightarrow> rat list option \<Rightarrow> bool \<Rightarrow> memory \<Rightarrow> scored option" where
  "score_entry l q terms stats v requireRoleTrust m =
     (let scope = apply_scope_filter m (sq_scope q)
      in if scope = 0 then None
         else
           (let kw = keyword_score l m terms default_lexical_weights (Some stats);
                vec = (case v of None \<Rightarrow> 0 | Some x \<Rightarrow> vector_score l m x)
            in if vec > 0 \<and> vec < 5 \<and> \<not> is_standing_instruction m requireRoleTrust \<and> mm_scope m \<noteq> ''global'' \<and>
                  \<not> (truthy (sq_scope q) \<and> Some (mm_scope m) = sq_scope q)
               then None
               else Some \<lparr>sc_memory = m, sc_keyword = kw, sc_vector = vec, sc_scope = scope\<rparr>))"

definition seeded :: "search_query \<Rightarrow> scored list \<Rightarrow> scored list" where
  "seeded q es = (case sq_candidates q of
     None \<Rightarrow> es
   | Some ids \<Rightarrow>
       if ids = [] then es
       else (let remaining = filter (\<lambda>e. mm_id (sc_memory e) \<in> set ids) es
             in (if remaining \<noteq> [] then [] else es) @ remaining))"

text \<open>Comparators: the first that is not zero decides; \<open>score_le\<close> sorts downwards by score.\<close>

definition score_le :: "lang \<Rightarrow> string \<times> rat \<Rightarrow> string \<times> rat \<Rightarrow> bool" where
  "score_le l a b \<longleftrightarrow> snd b < snd a \<or> (snd b = snd a \<and> la_compare l (fst a) (fst b) \<le> 0)"

definition ranked_list :: "lang \<Rightarrow> (scored \<Rightarrow> rat) \<Rightarrow> scored list \<Rightarrow> (string \<times> rat) list" where
  "ranked_list l f es = sort_by (score_le l) (map (\<lambda>e. (mm_id (sc_memory e), f e)) (filter (\<lambda>e. f e > 0) es))"

definition fuse_scores :: "lang \<Rightarrow> fusion_weights \<Rightarrow> scored list \<Rightarrow> (string, rat) js_map" where
  "fuse_scores l w es =
     (let kw = ranked_list l sc_keyword es; vec = ranked_list l sc_vector es
      in if kw = [] then single_list_ranks vec (fw_semantic w) w
         else if vec = [] then single_list_ranks kw (fw_keyword w) w
         else rrf_fuse kw vec w)"

record gated =
  gt_memory :: memory
  gt_fuse :: rat
  gt_mod :: rat
  gt_final :: rat
  gt_entry :: scored

definition gate_entry ::
  "lang \<Rightarrow> fusion_weights \<Rightarrow> temporal \<Rightarrow> rat \<Rightarrow> bool \<Rightarrow> (string, rat) js_map \<Rightarrow> scored \<Rightarrow> gated" where
  "gate_entry l w t now requireRoleTrust fuses e =
     (let m = sc_memory e;
          fuse = or_value 0 (map_of fuses (mm_id m));
          modifiers = modifier_score l m t now w
      in \<lparr>gt_memory = m, gt_fuse = fuse, gt_mod = modifiers,
          gt_final = apply_standing_gate (fuse * fw_scale w + modifiers + of_nat (sc_scope e)) m requireRoleTrust,
          gt_entry = e\<rparr>)"

definition gated_le :: "lang \<Rightarrow> gated \<Rightarrow> gated \<Rightarrow> bool" where
  "gated_le l a b \<longleftrightarrow> gt_final b < gt_final a \<or> (gt_final b = gt_final a \<and>
     (let c = la_compare l (mm_updatedAt (gt_memory b)) (mm_updatedAt (gt_memory a))
      in c < 0 \<or> (c = 0 \<and> la_compare l (mm_id (gt_memory a)) (mm_id (gt_memory b)) \<le> 0)))"

definition embed_value :: "lang \<Rightarrow> rat list \<Rightarrow> memory \<Rightarrow> rat" where
  "embed_value l v m = (case mm_embedding m of
     None \<Rightarrow> - 1 | Some e \<Rightarrow> if length e = length v then cosine l v e else - 1)"

definition rerank_with_embed :: "lang \<Rightarrow> rat list \<Rightarrow> memory list \<Rightarrow> memory list" where
  "rerank_with_embed l v ms = sort_by (\<lambda>a b. embed_value l v b \<le> embed_value l v a) ms"

definition superseded_in :: "memory list \<Rightarrow> memory \<Rightarrow> bool" where
  "superseded_in pool m \<longleftrightarrow> truthy (mm_supersededBy m) \<and> mm_supersededBy m \<in> (\<lambda>n. Some (mm_id n)) ` set pool"

datatype bound = MaxItems | MaxBytes | MaxLatency

text \<open>The budget loop over the ordered list; \<open>elapsed i\<close> is the clock at the \<open>i\<close>-th memory.\<close>

fun budget_loop ::
  "lang \<Rightarrow> (nat \<Rightarrow> rat) \<Rightarrow> budget \<Rightarrow> nat \<Rightarrow> nat \<Rightarrow> memory list \<Rightarrow> memory list \<Rightarrow> nat \<Rightarrow> memory list \<times> nat \<times> bound list" where
  "budget_loop l elapsed b limit i kept [] bytes = (kept, bytes, [])"
| "budget_loop l elapsed b limit i kept (m # ms) bytes =
     (if length kept \<ge> limit then (kept, bytes, if bg_maxItems b \<noteq> None then [MaxItems] else [])
      else
        (let size = la_bytes l (mm_content m)
         in if kept \<noteq> [] \<and> (case bg_maxLatencyMs b of None \<Rightarrow> False | Some x \<Rightarrow> elapsed i \<ge> x) then (kept, bytes, [MaxLatency])
            else if kept \<noteq> [] \<and> (case bg_maxBytes b of None \<Rightarrow> False | Some x \<Rightarrow> of_nat (bytes + size) > x)
              then (kept, bytes, [MaxBytes])
            else budget_loop l elapsed b limit (Suc i) (kept @ [m]) ms (bytes + size)))"

record budget_report =
  br_requested :: budget
  br_items :: nat
  br_bytes :: nat
  br_truncated :: bool
  br_truncatedBy :: "bound list"

definition apply_budget ::
  "lang \<Rightarrow> (nat \<Rightarrow> rat) \<Rightarrow> budget \<Rightarrow> nat \<Rightarrow> memory list \<Rightarrow> memory list \<times> budget_report" where
  "apply_budget l elapsed b limit ms =
     (let (kept, bytes, by0) = budget_loop l elapsed b limit 0 [] ms 0;
          by = (if length ms > length kept \<and> by0 = [] \<and> bg_maxItems b \<noteq> None then [MaxItems] else by0)
      in (kept, \<lparr>br_requested = b, br_items = length kept, br_bytes = bytes, br_truncated = (by \<noteq> []), br_truncatedBy = by\<rparr>))"

record explanation =
  xp_id :: string
  xp_scope :: rat
  xp_fusion :: rat
  xp_modifiers :: rat
  xp_keyword :: "rat option"
  xp_semantic :: "rat option"
  xp_gate :: "rat option"
  xp_total :: rat
  xp_reasons :: "string list"

definition round_hundredth :: "rat \<Rightarrow> rat" where
  "round_hundredth q = of_int \<lfloor>q * 100 + 1 / 2\<rfloor> / 100"

definition explain_entry :: "search_query \<Rightarrow> fusion_weights \<Rightarrow> bool \<Rightarrow> gated \<Rightarrow> explanation" where
  "explain_entry q w requireRoleTrust g =
     (let e = gt_entry g; m = gt_memory g;
          fusion = round_hundredth (gt_fuse g * fw_scale w);
          kw = (if sc_keyword e > 0 then Some (sc_keyword e) else None);
          sem = (if sc_vector e > 0 then Some (sc_vector e) else None);
          gate = (if is_standing_instruction m requireRoleTrust then Some 1000 else None)
      in \<lparr>xp_id = mm_id m, xp_scope = of_nat (sc_scope e), xp_fusion = fusion, xp_modifiers = gt_mod g,
          xp_keyword = kw, xp_semantic = sem, xp_gate = gate,
          xp_total = of_nat (sc_scope e) + fusion + gt_mod g + or_value 0 kw + or_value 0 sem + or_value 0 gate,
          xp_reasons = [''scope_match''] @ (if mm_scope m = ''global'' then [''global''] else []) @
            (if truthy (sq_scope q) \<and> Some (mm_scope m) = sq_scope q then [''scope_exact''] else []) @
            (if sc_keyword e > 0 then [''keyword_hit''] else []) @ (if sc_vector e > 0 then [''semantic_hit''] else []) @
            (if is_standing_instruction m requireRoleTrust then [''role_gate''] else [])\<rparr>)"

record search_results =
  sr_results :: "memory list"
  sr_explanations :: "explanation list option"
  sr_budget :: "budget_report option"

text \<open>Steps 2 to 8 and the sort.\<close>

definition gated_list ::
  "lang \<Rightarrow> rat \<Rightarrow> fusion_weights \<Rightarrow> bool \<Rightarrow> memory list \<Rightarrow> search_query \<Rightarrow> rat list option \<Rightarrow> gated list" where
  "gated_list l now w requireRoleTrust memories q v =
     (let (terms, t) = extract_query l (sq_query q);
          stats = build_term_statistics l memories terms (or_value (length memories) (sq_totalDocs q));
          es = seeded q (List.map_filter (score_entry l q terms stats v requireRoleTrust) memories)
      in sort_by (gated_le l) (map (gate_entry l w t now requireRoleTrust (fuse_scores l w es)) es))"

text \<open>Steps 9 and 10a.\<close>

definition suppress :: "lang \<Rightarrow> memory list \<Rightarrow> search_query \<Rightarrow> nat \<Rightarrow> memory list \<Rightarrow> memory list" where
  "suppress l memories q limit ranked =
     fst (dedupe_results l
       (if sq_includeSuperseded q = Some True then ranked else filter (\<lambda>m. \<not> superseded_in memories m) ranked)
       \<lparr>do_exact = Some (or_value True (sq_dedupeExact q)), do_sameSource = Some (or_value False (sq_dedupeSameSource q)),
        do_window = Some (max (limit * 10) 100)\<rparr>)"

definition effective_limit :: "search_query \<Rightarrow> nat" where
  "effective_limit q = (case Option.bind (sq_budget q) bg_maxItems of
     Some n \<Rightarrow> nat \<lfloor>n\<rfloor> | None \<Rightarrow> or_value 10 (sq_limit q))"

text \<open>Step 10b: with a budget the budget truncates, otherwise the limit does.\<close>

definition diversify :: "lang \<Rightarrow> bool \<Rightarrow> rat list option \<Rightarrow> bool \<Rightarrow> nat \<Rightarrow> memory list \<Rightarrow> memory list" where
  "diversify l diversity v budgeted limit ranked =
     (if diversity \<and> or_value [] v \<noteq> [] \<and> length ranked > 1
      then (let selectionCount = (if budgeted then length ranked else limit)
            in mmr_dedup l (take (max (max (limit * 10) 100) selectionCount) ranked) v selectionCount (1 / 2))
      else if budgeted then ranked else take limit ranked)"

definition search_q ::
  "lang \<Rightarrow> rat \<Rightarrow> (nat \<Rightarrow> rat) \<Rightarrow> memory list \<Rightarrow> search_query \<Rightarrow> rat list option \<Rightarrow> retrieval_policy \<Rightarrow> search_results result" where
  "search_q l now elapsed memories q v policy =
     (if (case sq_budget q of None \<Rightarrow> False | Some b \<Rightarrow> \<not> assert_valid_budget b) then Inl INVALID_INPUT
      else and_then (merged_weights (rp_fusionWeights policy)) (\<lambda>w.
        let requireRoleTrust = or_value True (rp_requireRoleTrust policy);
            limit = effective_limit q;
            gs = gated_list l now w requireRoleTrust memories q v;
            ranked = map gt_memory gs;
            reranked = (if rp_reranking policy = Some True \<and> or_value [] v \<noteq> []
              then rerank_with_embed l (or_value [] v) ranked else ranked);
            diverse = diversify l (or_value True (rp_diversity policy)) v (sq_budget q \<noteq> None) limit
              (suppress l memories q limit reranked);
            (results, report) = (case sq_budget q of
                None \<Rightarrow> (diverse, None)
              | Some b \<Rightarrow> (let (kept, r) = apply_budget l elapsed b limit diverse in (kept, Some r)))
        in Inr \<lparr>sr_results = results,
             sr_explanations = (if or_value False (sq_explain q)
               then Some (map (explain_entry q w requireRoleTrust)
                 (filter (\<lambda>g. mm_id (gt_memory g) \<in> mm_id ` set results) gs)) else None),
             sr_budget = report\<rparr>))"

definition search :: "lang \<Rightarrow> rat \<Rightarrow> (nat \<Rightarrow> rat) \<Rightarrow> memory list \<Rightarrow> search_query \<Rightarrow> rat list option \<Rightarrow> memory list result" where
  "search l now elapsed memories q v =
     and_then (search_q l now elapsed memories q v
       \<lparr>rp_requireRoleTrust = None, rp_diversity = None, rp_reranking = None, rp_fusionWeights = None\<rparr>)
       (\<lambda>r. Inr (sr_results r))"

section \<open>The scorer of one memory\<close>

definition is_exact_duplicate :: "lang \<Rightarrow> memory \<Rightarrow> memory \<Rightarrow> bool" where
  "is_exact_duplicate l a b \<longleftrightarrow> mm_id a \<noteq> mm_id b \<and> duplicate_key l a = duplicate_key l b"

definition includes_text :: "string \<Rightarrow> string \<Rightarrow> bool" where
  "includes_text hay t \<longleftrightarrow> list_ex (\<lambda>i. take (length t) (drop i hay) = t) [0..<Suc (length hay)]"

definition keyword_score_v1 :: "lang \<Rightarrow> memory \<Rightarrow> string list \<Rightarrow> rat" where
  "keyword_score_v1 l m terms =
     (if terms = [] then 0
      else (let hay = la_lower l (mm_content m @ '' '' @ join_with '' '' (mm_tags m))
            in of_nat (length (filter (includes_text hay) terms)) / of_nat (length terms) * 60))"

definition score :: "lang \<Rightarrow> memory \<Rightarrow> string list \<Rightarrow> string option \<Rightarrow> rat \<Rightarrow> rat list option \<Rightarrow> rat" where
  "score l m terms scope now v =
     (if truthy scope \<and> Some (mm_scope m) \<noteq> scope \<and> mm_scope m \<noteq> ''global'' then 0
      else
        (let base = (if is_standing_instruction m True then 1000 else 0) + (if mm_scope m = ''global'' then 100 else 0) +
               (if truthy scope \<and> Some (mm_scope m) = scope then 150 else 0) +
               (if pv_sourceType (mm_provenance m) = ''manual'' then 10 else 0) + trust_points (mm_trust m) +
               (if mm_retention m = Some ''pinned'' then 50 else 0);
             tail = of_int (mm_importance m) * 4
         in if or_value [] v = []
            then base + tail + recency_score l m now + (if terms = [] then 10 else keyword_score_v1 l m terms)
            else (case mm_embedding m of
                Some (x # xs) \<Rightarrow>
                  (let sim = max 0 (cosine l (or_value [] v) (x # xs))
                   in if sim < 5 / 100 \<and> \<not> is_standing_instruction m True \<and> mm_scope m \<noteq> ''global'' \<and> scope \<noteq> Some (mm_scope m)
                      then 0 else base + sim * 100 + tail + recency_score l m now / 2)
              | _ \<Rightarrow> base + keyword_score_v1 l m terms + tail + recency_score l m now / 2)))"

lemma keyword_score_v1_bounds: "0 \<le> keyword_score_v1 l m terms" "keyword_score_v1 l m terms \<le> 60"
  by (auto simp: keyword_score_v1_def Let_def divide_le_eq)

lemma foreign_scope_scores_nothing:
  "apply_scope_filter m scope = 0 \<Longrightarrow> score l m terms scope now v = 0"
  by (auto simp: apply_scope_filter_def score_def split: if_splits)

end
