(* ===== verification/RetrievalFacts.thy ===== *)
theory RetrievalFacts
  imports Retrieval "HOL-Library.Multiset" "HOL-Library.Sublist"
begin

text \<open>
  What the retrieval pipeline promises: results are admitted memories, each once and within the limit; duplicates
  are suppressed without losing a text; standing instructions come first; a budget says what it removed; the
  expansion through relations stays in the pool and within its bounds. The last section holds behaviours that
  the comments of the code describe differently.
\<close>

section \<open>Suppression of duplicates\<close>

definition dedup_ok :: "lang \<Rightarrow> memory list \<Rightarrow> dedup_state \<Rightarrow> bool" where
  "dedup_ok l seen s \<longleftrightarrow>
     subseq (ds_kept s) seen \<and> length (ds_kept s) + length (ds_removed s) = length seen \<and>
     distinct (filter (\<lambda>k. k \<noteq> '''') (map (duplicate_key l) (ds_kept s))) \<and>
     (\<forall>m \<in> set seen. \<exists>n \<in> set (ds_kept s). duplicate_key l n = duplicate_key l m) \<and>
     (\<forall>r \<in> set (ds_removed s). \<exists>m \<in> set seen. \<exists>n \<in> set (ds_kept s).
        rm_id r = mm_id m \<and> rm_keptId r = mm_id n \<and> duplicate_key l n = duplicate_key l m) \<and>
     (\<forall>k i. map_of (ds_text s) k = Some i \<longleftrightarrow> k \<noteq> '''' \<and> (\<exists>n \<in> set (ds_kept s). duplicate_key l n = k \<and> mm_id n = i))"

lemma put_absent_get [table_simps]:
  "map_of (put_absent k v m) j = (case map_of m j of Some x \<Rightarrow> Some x | None \<Rightarrow> if j = k then Some v else None)"
  by (auto simp: put_absent_def table_simps split: option.splits)

lemma subseq_snoc: "subseq xs ys \<Longrightarrow> subseq xs (ys @ [y])"
  using list_emb_append_mono [of "(=)" xs ys "[]" "[y]"] by simp

lemma dedup_kept:
  assumes "dedup_ok l seen s" "ds_kept t = ds_kept s @ [m]" "ds_removed t = ds_removed s"
    and "duplicate_key l m \<noteq> '''' \<Longrightarrow> duplicate_key l m \<notin> duplicate_key l ` set (ds_kept s)"
    and "\<And>k i. map_of (ds_text t) k = Some i \<longleftrightarrow> k \<noteq> '''' \<and> (\<exists>n \<in> set (ds_kept t). duplicate_key l n = k \<and> mm_id n = i)"
  shows "dedup_ok l (seen @ [m]) t"
proof -
  have "subseq (ds_kept t) (seen @ [m])" using assms(1,2) by (simp add: dedup_ok_def)
  moreover have "length (ds_kept t) + length (ds_removed t) = length (seen @ [m])"
    using assms(1-3) by (simp add: dedup_ok_def)
  moreover have "distinct (filter (\<lambda>k. k \<noteq> '''') (map (duplicate_key l) (ds_kept t)))"
    using assms(1,2,4) by (auto simp: dedup_ok_def)
  moreover have "\<exists>n \<in> set (ds_kept t). duplicate_key l n = duplicate_key l x" if "x \<in> set (seen @ [m])" for x
  proof (cases "x = m")
    case False
    then have "x \<in> set seen" using that by simp
    then show ?thesis using assms(1,2) unfolding dedup_ok_def by (metis UnCI set_append)
  qed (simp add: assms(2))
  moreover have "\<exists>x \<in> set (seen @ [m]). \<exists>n \<in> set (ds_kept t). rm_id r = mm_id x \<and> rm_keptId r = mm_id n \<and>
      duplicate_key l n = duplicate_key l x" if "r \<in> set (ds_removed t)" for r
  proof -
    have "r \<in> set (ds_removed s)" using that assms(3) by simp
    then obtain x n where "x \<in> set seen" "n \<in> set (ds_kept s)" "rm_id r = mm_id x \<and> rm_keptId r = mm_id n \<and>
        duplicate_key l n = duplicate_key l x"
      using assms(1) unfolding dedup_ok_def by blast
    then show ?thesis using assms(2) by (intro bexI [of _ x] bexI [of _ n]) simp_all
  qed
  ultimately show ?thesis using assms(5) unfolding dedup_ok_def by blast
qed

lemma dedup_dropped:
  assumes "dedup_ok l seen s" "t = s\<lparr>ds_removed := ds_removed s @ [\<lparr>rm_id = mm_id m, rm_keptId = mm_id n, rm_reason = x\<rparr>]\<rparr>"
    and "n \<in> set (ds_kept s)" "duplicate_key l n = duplicate_key l m"
  shows "dedup_ok l (seen @ [m]) t"
proof -
  have "subseq (ds_kept t) (seen @ [m])" using assms(1,2) by (simp add: dedup_ok_def subseq_snoc)
  moreover have "\<exists>n \<in> set (ds_kept t). duplicate_key l n = duplicate_key l y" if "y \<in> set (seen @ [m])" for y
  proof (cases "y = m")
    case False
    then have "y \<in> set seen" using that by simp
    then show ?thesis using assms(1,2) unfolding dedup_ok_def by simp
  qed (use assms(2-4) in auto)
  moreover have "\<exists>y \<in> set (seen @ [m]). \<exists>n \<in> set (ds_kept t). rm_id r = mm_id y \<and> rm_keptId r = mm_id n \<and>
      duplicate_key l n = duplicate_key l y" if "r \<in> set (ds_removed t)" for r
  proof (cases "r \<in> set (ds_removed s)")
    case True
    then obtain y n where "y \<in> set seen" "n \<in> set (ds_kept s)" "rm_id r = mm_id y \<and> rm_keptId r = mm_id n \<and>
        duplicate_key l n = duplicate_key l y"
      using assms(1) unfolding dedup_ok_def by blast
    then show ?thesis using assms(2) by (intro bexI [of _ y] bexI [of _ n]) simp_all
  next
    case False
    then have "rm_id r = mm_id m" "rm_keptId r = mm_id n" using that assms(2) by auto
    then show ?thesis using assms(2-4) by (intro bexI [of _ m] bexI [of _ n]) simp_all
  qed
  ultimately show ?thesis using assms(1,2) unfolding dedup_ok_def by simp
qed

lemma dedup_step_ok:
  assumes "dedup_ok l seen s"
  shows "dedup_ok l (seen @ [m]) (dedup_step l False m s)"
proof -
  have keyed: "map_of (ds_text s) k = Some i \<longleftrightarrow> k \<noteq> '''' \<and> (\<exists>n \<in> set (ds_kept s). duplicate_key l n = k \<and> mm_id n = i)" for k i
    using assms by (simp add: dedup_ok_def)
  show ?thesis
  proof (cases "duplicate_key l m = ''''")
    case True
    show ?thesis
      by (rule dedup_kept [OF assms]) (use True keyed in \<open>auto simp: dedup_step_def Let_def\<close>)
  next
    case key: False
    show ?thesis
    proof (cases "map_of (ds_text s) (duplicate_key l m)")
      case (Some i)
      then obtain n where n: "n \<in> set (ds_kept s)" "duplicate_key l n = duplicate_key l m" "mm_id n = i"
        using keyed by blast
      show ?thesis
        by (rule dedup_dropped [OF assms _ n(1,2), where x = ExactCopy])
          (use n(3) key Some in \<open>simp add: dedup_step_def Let_def\<close>)
    next
      case None
      have new: "duplicate_key l n \<noteq> duplicate_key l m" if "n \<in> set (ds_kept s)" for n
        using None keyed [of "duplicate_key l m" "mm_id n"] key that by auto
      let ?s = "dedup_step l False m s"
      have s: "ds_kept ?s = ds_kept s @ [m]" "ds_removed ?s = ds_removed s"
          "ds_text ?s = put_absent (duplicate_key l m) (mm_id m) (ds_text s)"
        using key None by (simp_all add: dedup_step_def Let_def)
      have "map_of (ds_text ?s) k = Some i \<longleftrightarrow> k \<noteq> '''' \<and> (\<exists>n \<in> set (ds_kept ?s). duplicate_key l n = k \<and> mm_id n = i)" for k i
      proof (cases "k = duplicate_key l m")
        case True
        then show ?thesis using key None new by (auto simp: s table_simps)
      next
        case False
        then have "map_of (ds_text ?s) k = map_of (ds_text s) k" by (simp add: s table_simps split: option.split)
        then show ?thesis using keyed [of k i] False by (auto simp: s)
      qed
      moreover have "duplicate_key l m \<notin> duplicate_key l ` set (ds_kept s)" using new by (metis imageE)
      ultimately show ?thesis using dedup_kept [OF assms s(1,2)] by blast
    qed
  qed
qed

lemma dedup_fold_ok:
  "dedup_ok l seen s \<Longrightarrow> dedup_ok l (seen @ ms) (fold (dedup_step l False) ms s)"
proof (induction ms arbitrary: seen s)
  case (Cons m ms)
  then show ?case using Cons.IH [OF dedup_step_ok [OF Cons.prems, of m]] by simp
qed simp

lemma dedup_step_subseq:
  "subseq (ds_kept s) seen \<Longrightarrow> subseq (ds_kept (dedup_step l b m s)) (seen @ [m])"
  by (auto simp: dedup_step_def Let_def subseq_snoc split: option.split)

lemma dedup_fold_subseq:
  "subseq (ds_kept s) seen \<Longrightarrow> subseq (ds_kept (fold (dedup_step l b) ms s)) (seen @ ms)"
proof (induction ms arbitrary: seen s)
  case (Cons m ms)
  then show ?case using Cons.IH [OF dedup_step_subseq [OF Cons.prems, of l b m]] by simp
qed simp

lemma dedupe_subseq: "subseq (fst (dedupe_results l ranked opts)) ranked"
proof -
  have "subseq (ds_kept (fold (dedup_step l b) (take w ranked) \<lparr>ds_text = [], ds_pair = [], ds_kept = [], ds_removed = []\<rparr>)
      @ drop w ranked) (take w ranked @ drop w ranked)" for b w
    using dedup_fold_subseq [of "\<lparr>ds_text = [], ds_pair = [], ds_kept = [], ds_removed = []\<rparr>" "[]" l b "take w ranked"]
    by (intro list_emb_append_mono) simp_all
  then show ?thesis by (simp add: dedupe_results_def Let_def)
qed


section \<open>The results\<close>

lemma score_entry_some: "score_entry l q terms stats v b m = Some e \<Longrightarrow> sc_memory e = m \<and> apply_scope_filter m (sq_scope q) \<noteq> 0 \<and>
    sc_scope e = apply_scope_filter m (sq_scope q)"
  by (auto simp: score_entry_def Let_def split: if_splits)

lemma scored_subseq: "subseq (map sc_memory (List.map_filter (score_entry l q terms stats v b) ms)) ms"
proof (induction ms)
  case (Cons m ms)
  show ?case
  proof (cases "score_entry l q terms stats v b m")
    case None
    then show ?thesis using Cons.IH by (simp add: List.map_filter_simps list_emb_Cons)
  next
    case (Some e)
    then have "sc_memory e = m" using score_entry_some by blast
    then show ?thesis using Some Cons.IH by (simp add: List.map_filter_simps)
  qed
qed (simp add: List.map_filter_simps)

lemma subseq_map_filter: "subseq (map f (filter P xs)) (map f xs)"
  by (rule subseq_map) simp

lemma seeded_subseq: "subseq (map sc_memory (seeded q es)) (map sc_memory es)"
  by (auto simp: seeded_def Let_def subseq_map_filter split: option.split)

lemma subseq_mset: "subseq xs ys \<Longrightarrow> mset xs \<subseteq># mset ys"
  by (induction rule: list_emb.induct) (auto intro: subset_mset.order_trans)

lemma gate_entry_memory [simp]: "gt_memory (gate_entry l w t now b fuses e) = sc_memory e"
  by (simp add: gate_entry_def Let_def)

definition scored_list :: "lang \<Rightarrow> bool \<Rightarrow> memory list \<Rightarrow> search_query \<Rightarrow> rat list option \<Rightarrow> scored list" where
  "scored_list l requireRoleTrust memories q v =
     seeded q (List.map_filter (score_entry l q (fst (extract_query l (sq_query q)))
       (build_term_statistics l memories (fst (extract_query l (sq_query q))) (or_value (length memories) (sq_totalDocs q))) v
       requireRoleTrust) memories)"

lemma gated_list_unfold:
  "gated_list l now w b memories q v =
     sort_by (gated_le l) (map (gate_entry l w (snd (extract_query l (sq_query q))) now b
       (fuse_scores l w (scored_list l b memories q v))) (scored_list l b memories q v))"
  by (simp add: gated_list_def scored_list_def split_beta Let_def)

lemma scored_list_subseq: "subseq (map sc_memory (scored_list l b memories q v)) memories"
  unfolding scored_list_def by (rule subseq_order.trans [OF seeded_subseq scored_subseq])

lemma gated_list_mset: "mset (map gt_memory (gated_list l now w b memories q v)) \<subseteq># mset memories"
proof -
  have "mset (map gt_memory (gated_list l now w b memories q v)) = mset (map sc_memory (scored_list l b memories q v))"
    by (simp only: gated_list_unfold mset_map mset_sort_by) (simp add: image_mset.compositionality comp_def)
  then show ?thesis using subseq_mset [OF scored_list_subseq, of l b memories q v] by simp
qed

lemma seeded_subset: "set (seeded q es) \<subseteq> set es"
  by (auto simp: seeded_def Let_def split: option.split)

lemma scored_in_scope: "e \<in> set (scored_list l b memories q v) \<Longrightarrow>
    apply_scope_filter (sc_memory e) (sq_scope q) \<noteq> 0 \<and> sc_scope e = apply_scope_filter (sc_memory e) (sq_scope q)"
  using seeded_subset score_entry_some unfolding scored_list_def by (fastforce simp: List.map_filter_def)

lemma gated_in_scope: "m \<in> gt_memory ` set (gated_list l now w b memories q v) \<Longrightarrow> apply_scope_filter m (sq_scope q) \<noteq> 0"
  using scored_in_scope by (force simp: gated_list_unfold)

lemma suppress_subseq: "subseq (suppress l memories q limit ranked) ranked"
  unfolding suppress_def by (rule subseq_order.trans [OF dedupe_subseq]) simp

lemma dedupe_set: "m \<in> set (fst (dedupe_results l ranked opts)) \<Longrightarrow> m \<in> set ranked"
  using list_emb_set [OF dedupe_subseq] by metis

lemma suppress_set: "m \<in> set (suppress l memories q limit ranked) \<Longrightarrow> m \<in> set ranked"
  using list_emb_set [OF suppress_subseq] by metis

lemma suppress_current:
  assumes "m \<in> set (suppress l memories q limit ranked)" "sq_includeSuperseded q \<noteq> Some True"
  shows "\<not> superseded_in memories m"
  using dedupe_set [OF assms(1) [unfolded suppress_def]] assms(2) by simp

lemma best_from_bound: "b < n \<Longrightarrow> i + length xs \<le> n \<Longrightarrow> best_from best b i xs < n"
  by (induction best b i xs rule: best_from.induct) auto

lemma best_index_bound: "xs \<noteq> [] \<Longrightarrow> best_index xs < length xs"
  using best_from_bound [of 0 "length xs"] by (auto simp: best_index_def split: list.split)

lemma mset_take_out: "b < length q \<Longrightarrow> mset q = add_mset (q ! b) (mset (take b q @ drop (Suc b) q))"
  by (metis append_take_drop_id Cons_nth_drop_Suc mset.simps(2) mset_append union_mset_add_mset_right)

lemma mmr_pick_mset: "mset (mmr_pick l v lambda n selected queue) \<subseteq># mset selected + mset queue \<and>
    length (mmr_pick l v lambda n selected queue) \<le> length selected + n"
proof (induction l v lambda n selected queue rule: mmr_pick.induct)
  case (2 l v lambda n selected queue)
  show ?case
  proof (cases "queue = []")
    case False
    let ?b = "best_index (map (mmr_value l v lambda selected) queue)"
    have "?b < length queue" using best_index_bound [of "map (mmr_value l v lambda selected) queue"] False by simp
    then have "mset selected + mset queue = mset (selected @ [queue ! ?b]) + mset (take ?b queue @ drop (Suc ?b) queue)"
      using mset_take_out by simp
    then show ?thesis using 2 [OF False refl] False by (simp add: Let_def)
  qed simp
qed simp

lemma mset_take: "mset (take n xs) \<subseteq># mset xs"
  by (metis append_take_drop_id mset_append mset_subset_eq_add_left)

section \<open>The budget\<close>

definition content_bytes :: "lang \<Rightarrow> memory list \<Rightarrow> nat" where
  "content_bytes l ms = sum_list (map (\<lambda>m. la_bytes l (mm_content m)) ms)"

definition fits :: "rat option \<Rightarrow> nat \<Rightarrow> bool" where
  "fits x n \<longleftrightarrow> (case x of None \<Rightarrow> True | Some y \<Rightarrow> of_nat n \<le> y)"

definition budget_outcome_ok :: "lang \<Rightarrow> budget \<Rightarrow> nat \<Rightarrow> memory list \<Rightarrow> memory list \<times> nat \<times> bound list \<Rightarrow> bool" where
  "budget_outcome_ok l b limit ms out \<longleftrightarrow>
     (case out of (kept, bytes, by0) \<Rightarrow>
       (\<exists>k. kept = take k ms) \<and> length kept \<le> limit \<and> bytes = content_bytes l kept \<and>
       (ms \<noteq> [] \<and> limit \<ge> 1 \<longrightarrow> kept \<noteq> []) \<and>
       (length kept > 1 \<longrightarrow> fits (bg_maxBytes b) bytes) \<and>
       (by0 \<noteq> [] \<longrightarrow> kept \<noteq> ms) \<and> (by0 = [] \<and> kept \<noteq> ms \<longrightarrow> length kept = limit \<and> bg_maxItems b = None))"

lemma budget_loop_ok:
  assumes "length kept \<le> limit" "bytes = content_bytes l kept"
    and "length kept > 1 \<longrightarrow> fits (bg_maxBytes b) bytes"
    and "kept @ ms = all"
  shows "budget_outcome_ok l b limit all (budget_loop l elapsed b limit i kept ms bytes)"
  using assms
proof (induction l elapsed b limit i kept ms bytes rule: budget_loop.induct)
  case (1 l elapsed b limit i kept bytes)
  moreover have "\<exists>k. all = take k all" by (rule exI [of _ "length all"]) simp
  ultimately show ?case unfolding budget_outcome_ok_def by auto
next
  case (2 l elapsed b limit i kept m ms bytes)
  let ?size = "la_bytes l (mm_content m)"
  have pre: "kept = take (length kept) all" "kept \<noteq> all" "all \<noteq> []" using 2(5) by auto
  show ?case
  proof (cases "length kept \<ge> limit")
    case True
    then have "budget_loop l elapsed b limit i kept (m # ms) bytes = (kept, bytes, if bg_maxItems b \<noteq> None then [MaxItems] else [])"
      by simp
    moreover have "kept \<noteq> []" if "limit \<ge> 1" using True that by auto
    moreover have "\<exists>k. kept = take k all" using pre(1) by blast
    ultimately show ?thesis using 2(2-4) pre(2,3) True unfolding budget_outcome_ok_def by auto
  next
    case room: False
    show ?thesis
    proof (cases "kept \<noteq> [] \<and> ((case bg_maxLatencyMs b of None \<Rightarrow> False | Some x \<Rightarrow> elapsed i \<ge> x) \<or>
        (case bg_maxBytes b of None \<Rightarrow> False | Some x \<Rightarrow> of_nat (bytes + ?size) > x))")
      case True
      then have "\<exists>x. budget_loop l elapsed b limit i kept (m # ms) bytes = (kept, bytes, [x])"
        using room by (cases "case bg_maxLatencyMs b of None \<Rightarrow> False | Some x \<Rightarrow> elapsed i \<ge> x") (auto simp: Let_def)
      then obtain x where "budget_loop l elapsed b limit i kept (m # ms) bytes = (kept, bytes, [x])" by blast
      moreover have "\<exists>k. kept = take k all" using pre(1) by blast
      ultimately show ?thesis using 2(2-4) pre(2) True unfolding budget_outcome_ok_def by simp
    next
      case False
      then have on: "budget_loop l elapsed b limit i kept (m # ms) bytes =
          budget_loop l elapsed b limit (Suc i) (kept @ [m]) ms (bytes + ?size)"
        using room by (auto simp: Let_def)
      have "length (kept @ [m]) > 1 \<longrightarrow> fits (bg_maxBytes b) (bytes + ?size)"
        using False by (auto simp: fits_def split: option.splits)
      then have "budget_outcome_ok l b limit all (budget_loop l elapsed b limit (Suc i) (kept @ [m]) ms (bytes + ?size))"
        using 2(1) [OF room refl] False 2(2-5) room by (auto simp: content_bytes_def)
      then show ?thesis by (simp only: on)
    qed
  qed
qed


section \<open>Admission\<close>

lemma rerank_mset: "mset (rerank_with_embed l v ms) = mset ms"
  by (simp add: rerank_with_embed_def mset_sort_by)

lemma rerank_set: "set (rerank_with_embed l v ms) = set ms"
  by (simp add: rerank_with_embed_def)

lemma mmr_mset: "mset (mmr_dedup l c v n lambda) \<subseteq># mset c" and mmr_length: "length (mmr_dedup l c v n lambda) \<le> n"
  using mmr_pick_mset [of l "or_value [] v" lambda n "[]" c] mset_take [of n c] by (auto simp: mmr_dedup_def)

lemma diversify_mset: "mset (diversify l d v budgeted limit ranked) \<subseteq># mset ranked"
  unfolding diversify_def Let_def
  by (auto intro: subset_mset.order_trans [OF mmr_mset mset_take] mset_take mmr_mset)

lemma diversify_length: "length (diversify l d v False limit ranked) \<le> limit"
  unfolding diversify_def Let_def using mmr_length by auto

lemma budget_prefix: "fst (apply_budget l elapsed b limit ms) = kept \<Longrightarrow> mset kept \<subseteq># mset ms \<and> length kept \<le> limit"
proof -
  assume "fst (apply_budget l elapsed b limit ms) = kept"
  then obtain r where r: "apply_budget l elapsed b limit ms = (kept, r)" by (metis prod.collapse)
  obtain k0 bytes by0 where out: "budget_loop l elapsed b limit 0 [] ms 0 = (k0, bytes, by0)" by (metis prod_cases3)
  have "budget_outcome_ok l b limit ms (k0, bytes, by0)"
    using budget_loop_ok [of "[]" limit 0 l b ms ms elapsed 0] out by (simp add: content_bytes_def)
  moreover have "kept = k0" using r by (simp add: apply_budget_def out Let_def)
  ultimately show ?thesis using mset_take by (auto simp: budget_outcome_ok_def)
qed

text \<open>The ranking before diversity and budget.\<close>

definition ranking ::
  "lang \<Rightarrow> rat \<Rightarrow> fusion_weights \<Rightarrow> memory list \<Rightarrow> search_query \<Rightarrow> rat list option \<Rightarrow> retrieval_policy \<Rightarrow> memory list" where
  "ranking l now w memories q v policy =
     (let ranked = map gt_memory (gated_list l now w (or_value True (rp_requireRoleTrust policy)) memories q v)
      in suppress l memories q (effective_limit q)
           (if rp_reranking policy = Some True \<and> or_value [] v \<noteq> [] then rerank_with_embed l (or_value [] v) ranked else ranked))"

lemma ranking_mset: "mset (ranking l now w memories q v policy) \<subseteq># mset memories"
  unfolding ranking_def Let_def
  by (rule subset_mset.order_trans [OF subseq_mset [OF suppress_subseq]])
    (use gated_list_mset [of l now w _ memories q v] in \<open>simp add: rerank_mset\<close>)

lemma ranking_admits:
  assumes "m \<in> set (ranking l now w memories q v policy)"
  shows "apply_scope_filter m (sq_scope q) \<noteq> 0" "sq_includeSuperseded q \<noteq> Some True \<Longrightarrow> \<not> superseded_in memories m"
proof -
  let ?gs = "gated_list l now w (or_value True (rp_requireRoleTrust policy)) memories q v"
  have "m \<in> gt_memory ` set ?gs"
    using suppress_set [OF assms [unfolded ranking_def Let_def]] by (simp add: rerank_set split: if_splits)
  then show "apply_scope_filter m (sq_scope q) \<noteq> 0" by (rule gated_in_scope)
  show "\<not> superseded_in memories m" if "sq_includeSuperseded q \<noteq> Some True"
    using assms suppress_current [OF _ that] unfolding ranking_def Let_def by blast
qed

lemma search_shape:
  assumes "search_q l now elapsed memories q v policy = Inr r"
  shows "\<exists>w. merged_weights (rp_fusionWeights policy) = Inr w \<and>
    (let diverse = diversify l (or_value True (rp_diversity policy)) v (sq_budget q \<noteq> None) (effective_limit q)
           (ranking l now w memories q v policy)
     in sr_results r = (case sq_budget q of None \<Rightarrow> diverse
          | Some b \<Rightarrow> fst (apply_budget l elapsed b (effective_limit q) diverse)))"
  using assms
  by (auto simp: search_q_def ranking_def and_then_Inr_iff Let_def split_beta split: if_splits option.splits)

lemma search_result_ok:
  assumes "search_q l now elapsed memories q v policy = Inr r"
  shows "mset (sr_results r) \<subseteq># mset memories \<and> length (sr_results r) \<le> effective_limit q \<and>
    (\<forall>m \<in> set (sr_results r). (truthy (sq_scope q) \<longrightarrow> mm_scope m = ''global'' \<or> Some (mm_scope m) = sq_scope q) \<and>
       (sq_includeSuperseded q \<noteq> Some True \<longrightarrow> \<not> superseded_in memories m))"
proof -
  obtain w where w: "(let diverse = diversify l (or_value True (rp_diversity policy)) v (sq_budget q \<noteq> None) (effective_limit q)
           (ranking l now w memories q v policy)
     in sr_results r = (case sq_budget q of None \<Rightarrow> diverse
          | Some b \<Rightarrow> fst (apply_budget l elapsed b (effective_limit q) diverse)))"
    using search_shape [OF assms] by blast
  let ?ranked = "ranking l now w memories q v policy"
  have sub: "mset (sr_results r) \<subseteq># mset ?ranked \<and> length (sr_results r) \<le> effective_limit q"
  proof (cases "sq_budget q")
    case None
    then show ?thesis using w diversify_mset diversify_length by (simp add: Let_def)
  next
    case (Some b)
    then show ?thesis using w diversify_mset budget_prefix [OF refl]
      by (simp add: Let_def) (blast intro: subset_mset.order_trans)
  qed
  have "m \<in> set ?ranked" if "m \<in> set (sr_results r)" for m using sub that by (metis mset_subset_eqD set_mset_mset)
  then have m: "apply_scope_filter m (sq_scope q) \<noteq> 0" "sq_includeSuperseded q \<noteq> Some True \<Longrightarrow> \<not> superseded_in memories m"
    if "m \<in> set (sr_results r)" for m
    using that ranking_admits by blast+
  have "mm_scope m = ''global'' \<or> Some (mm_scope m) = sq_scope q" if "m \<in> set (sr_results r)" "truthy (sq_scope q)" for m
    using m(1) [OF that(1)] that(2) by (auto simp: apply_scope_filter_def split: if_splits)
  moreover have "mset (sr_results r) \<subseteq># mset memories" using sub ranking_mset by (meson subset_mset.order_trans)
  ultimately show ?thesis using sub m(2) by blast
qed


section \<open>Standing instructions first\<close>

text \<open>What is assumed of the language: collation is a total preorder, and a power of two with an exponent that is
  not positive lies between zero and one.\<close>

definition collates :: "lang \<Rightarrow> bool" where
  "collates l \<longleftrightarrow> (\<forall>a b. la_compare l a b < 0 \<longleftrightarrow> la_compare l b a > 0) \<and>
     (\<forall>a b c. la_compare l a b \<le> 0 \<longrightarrow> la_compare l b c \<le> 0 \<longrightarrow> la_compare l a c \<le> 0)"

definition decays :: "lang \<Rightarrow> bool" where
  "decays l \<longleftrightarrow> (\<forall>x \<le> 0. 0 \<le> la_pow2 l x \<and> la_pow2 l x \<le> 1)"

definition in_range_memory :: "memory \<Rightarrow> bool" where
  "in_range_memory m \<longleftrightarrow> 1 \<le> mm_importance m \<and> mm_importance m \<le> 5 \<and> 0 \<le> mm_confidence m \<and> mm_confidence m \<le> 1"

definition lex :: "('a \<Rightarrow> 'a \<Rightarrow> bool) \<Rightarrow> ('a \<Rightarrow> 'a \<Rightarrow> bool) \<Rightarrow> 'a \<Rightarrow> 'a \<Rightarrow> bool" where
  "lex r s a b \<longleftrightarrow> r a b \<and> (r b a \<longrightarrow> s a b)"

lemma lex_total: "total_order_by r \<Longrightarrow> total_order_by s \<Longrightarrow> total_order_by (lex r s)"
  unfolding total_order_by_def lex_def by blast

lemma compare_total: "collates l \<Longrightarrow> total_order_by (\<lambda>a b. la_compare l (f a) (f b) \<le> 0)"
  unfolding total_order_by_def collates_def by (metis linorder_le_less_linear less_imp_le)

lemma converse_total: "total_order_by r \<Longrightarrow> total_order_by (\<lambda>a b. r b a)"
  unfolding total_order_by_def by blast

lemma gated_le_lex:
  assumes "collates l"
  shows "gated_le l = lex (\<lambda>a b. gt_final b \<le> gt_final a)
    (lex (\<lambda>a b. la_compare l (mm_updatedAt (gt_memory b)) (mm_updatedAt (gt_memory a)) \<le> 0)
      (\<lambda>a b. la_compare l (mm_id (gt_memory a)) (mm_id (gt_memory b)) \<le> 0))"
proof -
  have anti: "la_compare l x y < 0 \<longleftrightarrow> 0 < la_compare l y x" for x y using assms by (simp add: collates_def)
  have sign: "la_compare l x y < 0 \<longleftrightarrow> la_compare l x y \<le> 0 \<and> \<not> la_compare l y x \<le> 0"
    "la_compare l x y = 0 \<longleftrightarrow> la_compare l x y \<le> 0 \<and> la_compare l y x \<le> 0" for x y
    using anti [of x y] anti [of y x] by (cases "la_compare l x y < 0"; cases "la_compare l y x < 0"; simp)+
  show ?thesis
  proof (intro ext)
    fix a b
    show "gated_le l a b = lex (\<lambda>a b. gt_final b \<le> gt_final a)
      (lex (\<lambda>a b. la_compare l (mm_updatedAt (gt_memory b)) (mm_updatedAt (gt_memory a)) \<le> 0)
        (\<lambda>a b. la_compare l (mm_id (gt_memory a)) (mm_id (gt_memory b)) \<le> 0)) a b"
      unfolding gated_le_def lex_def Let_def sign by auto
  qed
qed

lemma gated_le_total: "collates l \<Longrightarrow> total_order_by (gated_le l)"
  unfolding gated_le_lex
  by (intro lex_total compare_total converse_total [of "\<lambda>a b. la_compare l (mm_updatedAt (gt_memory a)) (mm_updatedAt (gt_memory b)) \<le> 0"])
    (auto simp: total_order_by_def)

subsection \<open>Bounds of the score\<close>

lemma rank_credits_keys: "map fst (rank_credits k w i xs) = map fst xs"
proof (induction k w i xs rule: rank_credits.induct)
  case (2 k w i x s xs)
  have "map fst (takeWhile (\<lambda>(y, t). t = s) xs) @ map fst (dropWhile (\<lambda>(y, t). t = s) xs) = map fst xs"
    by (metis map_append takeWhile_dropWhile_id)
  then show ?case using 2 by (simp add: Let_def comp_def split_beta)
qed simp

lemma rank_credits_bound:
  assumes "w \<ge> 0" "k > 0"
  shows "\<forall>(x, c) \<in> set (rank_credits k w i xs). 0 \<le> c \<and> c \<le> w / (k + 1)"
  using assms
proof (induction k w i xs rule: rank_credits.induct)
  case (2 k w i x s xs)
  let ?n = "i + 1 + (i + 1 + length (takeWhile (\<lambda>(y, t). t = s) xs))"
  have pos: "0 < k + of_nat n / 2" for n using 2(3) by (simp add: add_pos_nonneg)
  have "1 \<le> (of_nat ?n :: rat) / 2" by simp
  then have "w / (k + of_nat ?n / 2) \<le> w / (k + 1)"
    using 2(2,3) pos [of ?n] by (intro divide_left_mono mult_pos_pos) simp_all
  moreover have "0 \<le> w / (k + of_nat ?n / 2)" using 2(2) pos [of ?n] by (intro divide_nonneg_pos)
  ultimately show ?case using 2(1) [OF refl refl refl 2(2,3)] by (auto simp: Let_def)
qed simp

lemma add_credits_get:
  assumes "distinct (map fst cs)"
  shows "map_of (add_credits cs f) x =
    (case map_of cs x of None \<Rightarrow> map_of f x | Some c \<Rightarrow> Some (or_value 0 (map_of f x) + c))"
  using assms
proof (induction cs arbitrary: f)
  case (Cons yc cs)
  obtain y c where yc: "yc = (y, c)" by (cases yc)
  have "map_of cs x = None" if "x = y" using Cons.prems yc that by (simp add: map_of_eq_None_iff)
  then show ?case using Cons yc
    by (cases "x = y") (auto simp: add_credits_def or_value_def table_simps split: option.split)
qed (simp add: add_credits_def)

lemma single_ranks_get:
  assumes "map_of (fold (\<lambda>(x, c) f. AList.update x c f) cs f) x = Some v"
  shows "(x, v) \<in> set cs \<or> map_of f x = Some v"
  using assms
proof (induction cs arbitrary: f)
  case (Cons yc cs)
  obtain y c where yc: "yc = (y, c)" by (cases yc)
  then show ?case using Cons.IH [of "AList.update y c f"] Cons.prems by (auto simp: table_simps split: if_splits)
qed simp

lemma ranked_list_distinct:
  assumes "distinct (map (\<lambda>e. mm_id (sc_memory e)) es)"
  shows "distinct (map fst (ranked_list l f es))"
proof -
  have "mset (map fst (ranked_list l f es)) = mset (map (\<lambda>e. mm_id (sc_memory e)) (filter (\<lambda>e. f e > 0) es))"
    by (simp only: ranked_list_def mset_map mset_sort_by) (simp add: image_mset.compositionality comp_def)
  moreover have "distinct (map (\<lambda>e. mm_id (sc_memory e)) (filter (\<lambda>e. f e > 0) es))"
    using assms by (simp add: distinct_map_filter)
  ultimately show ?thesis by (metis mset_eq_imp_distinct_iff)
qed

lemma fuse_bounds:
  assumes "distinct (map (\<lambda>e. mm_id (sc_memory e)) es)"
  shows "0 \<le> or_value 0 (map_of (fuse_scores l default_fusion_weights es) x)"
    "or_value 0 (map_of (fuse_scores l default_fusion_weights es) x) \<le> 10 / 13"
proof -
  let ?w = default_fusion_weights
  have credit: "0 \<le> c \<and> c \<le> 5 / 13" if "(x, c) \<in> set (rank_credits (fw_rrfK ?w) 1 0 ys)" for ys c
    using rank_credits_bound [of 1 "fw_rrfK ?w" 0 ys] that by (auto simp: default_fusion_weights_def)
  have keys: "distinct (map fst (rank_credits (fw_rrfK ?w) 1 0 (ranked_list l f es)))" for f
    by (simp add: rank_credits_keys ranked_list_distinct [OF assms])
  have single: "0 \<le> or_value 0 (map_of (single_list_ranks ys 1 ?w) x) \<and> or_value 0 (map_of (single_list_ranks ys 1 ?w) x) \<le> 10 / 13" for ys
  proof (cases "map_of (single_list_ranks ys 1 ?w) x")
    case (Some v)
    then have "(x, v) \<in> set (rank_credits (fw_rrfK ?w) 1 0 ys)"
      using single_ranks_get [of "rank_credits (fw_rrfK ?w) 1 0 ys" "[]"] by (auto simp: single_list_ranks_def)
    then show ?thesis using credit Some by (fastforce simp: or_value_def)
  qed (simp add: or_value_def)
  have each: "0 \<le> or_value 0 (map_of (rank_credits (fw_rrfK ?w) 1 0 ys) x) \<and>
      or_value 0 (map_of (rank_credits (fw_rrfK ?w) 1 0 ys) x) \<le> 5 / 13" for ys
    using credit [OF map_of_SomeD, of ys] by (cases "map_of (rank_credits (fw_rrfK ?w) 1 0 ys) x") (auto simp: or_value_def)
  have fused: "or_value 0 (map_of (rrf_fuse (ranked_list l f es) (ranked_list l g es) ?w) x) =
      or_value 0 (map_of (rank_credits (fw_rrfK ?w) 1 0 (ranked_list l f es)) x) +
      or_value 0 (map_of (rank_credits (fw_rrfK ?w) 1 0 (ranked_list l g es)) x)" for f g
    using keys [of f] keys [of g]
    by (simp add: rrf_fuse_def add_credits_get default_fusion_weights_def or_value_def split: option.split)
  have sums: "0 \<le> or_value 0 (map_of (rrf_fuse (ranked_list l f es) (ranked_list l g es) ?w) x)"
    "or_value 0 (map_of (rrf_fuse (ranked_list l f es) (ranked_list l g es) ?w) x) \<le> 10 / 13" for f g
    using each [of "ranked_list l f es"] each [of "ranked_list l g es"] unfolding fused by linarith+
  have w: "fw_semantic ?w = 1" "fw_keyword ?w = 1" by (simp_all add: default_fusion_weights_def)
  show "0 \<le> or_value 0 (map_of (fuse_scores l ?w es) x)" "or_value 0 (map_of (fuse_scores l ?w es) x) \<le> 10 / 13"
    using single sums by (simp_all add: fuse_scores_def w Let_def)
qed

lemma modifier_bounds:
  assumes "in_range_memory m" "decays l"
  shows "- 4 \<le> modifier_score l m t now default_fusion_weights"
    "modifier_score l m t now default_fusion_weights \<le> 148"
proof -
  have rec: "0 \<le> recency_score l m now \<and> recency_score l m now \<le> 20"
    using assms(2) by (auto simp: recency_score_def decays_def split: option.split)
  have imp: "4 \<le> of_int (mm_importance m) * (4 :: rat)" "of_int (mm_importance m) * (4 :: rat) \<le> 20"
    using assms(1) unfolding in_range_memory_def by (simp_all flip: of_int_mult)
  have conf: "0 \<le> mm_confidence m * 20" "mm_confidence m * 20 \<le> 20" using assms(1) by (simp_all add: in_range_memory_def)
  have tr: "- 8 \<le> trust_points x" "trust_points x \<le> 8" for x by (simp_all add: trust_points_def)
  show "- 4 \<le> modifier_score l m t now default_fusion_weights" "modifier_score l m t now default_fusion_weights \<le> 148"
    using rec imp conf tr [of "mm_trust m"] by (simp_all add: modifier_score_def default_fusion_weights_def Let_def)
qed

subsection \<open>The order\<close>

lemma sorted_wrt_subseq: "subseq xs ys \<Longrightarrow> sorted_wrt P ys \<Longrightarrow> sorted_wrt P xs"
proof (induction rule: list_emb.induct)
  case (list_emb_Cons2 x y xs ys)
  then show ?case using list_emb_set [OF list_emb_Cons2(2)] by fastforce
qed simp_all

lemma subseq_distinct: "subseq xs ys \<Longrightarrow> distinct ys \<Longrightarrow> distinct xs"
  by (auto simp: subseq_conv_nths intro: distinct_nthsI)

definition standing_le :: "bool \<Rightarrow> memory \<Rightarrow> memory \<Rightarrow> bool" where
  "standing_le requireTrust a b \<longleftrightarrow> (is_standing_instruction b requireTrust \<longrightarrow> is_standing_instruction a requireTrust)"

lemma gated_final_bounds:
  assumes "e \<in> set (scored_list l b memories q v)" "distinct (map mm_id memories)" "list_all in_range_memory memories" "decays l"
  shows "let g = gate_entry l default_fusion_weights t now b (fuse_scores l default_fusion_weights (scored_list l b memories q v)) e
    in (is_standing_instruction (gt_memory g) b \<longrightarrow> gt_final g \<ge> 996) \<and>
       (\<not> is_standing_instruction (gt_memory g) b \<longrightarrow> gt_final g < 996)"
proof -
  let ?es = "scored_list l b memories q v" and ?w = default_fusion_weights
  have "distinct (map mm_id (map sc_memory ?es))"
    using subseq_distinct [OF subseq_map [OF scored_list_subseq]] assms(2) by blast
  then have d: "distinct (map (\<lambda>e. mm_id (sc_memory e)) ?es)" by (simp add: comp_def)
  have "sc_memory e \<in> set memories" using list_emb_set [OF scored_list_subseq] assms(1) by (metis image_eqI list.set_map)
  then have r: "in_range_memory (sc_memory e)" using assms(3) by (simp add: list_all_iff)
  have scope: "sc_scope e \<le> 150" using scored_in_scope [OF assms(1)] by (simp add: apply_scope_filter_def)
  then have "(of_nat (sc_scope e) :: rat) \<le> of_nat 150" by (simp only: of_nat_le_iff)
  then show ?thesis
    using fuse_bounds [OF d, of l "mm_id (sc_memory e)"] modifier_bounds [OF r assms(4), of t now]
    by (auto simp: gate_entry_def apply_standing_gate_def default_fusion_weights_def Let_def)
qed

lemma gated_standing_sorted:
  assumes "collates l" "decays l" "distinct (map mm_id memories)" "list_all in_range_memory memories"
  shows "sorted_wrt (standing_le b) (map gt_memory (gated_list l now default_fusion_weights b memories q v))"
proof -
  let ?gs = "gated_list l now default_fusion_weights b memories q v"
  have s: "sorted_wrt (gated_le l) ?gs"
    unfolding gated_list_unfold by (rule sorted_sort_by [OF gated_le_total [OF assms(1)]])
  have m: "standing_le b (gt_memory x) (gt_memory y)" if "x \<in> set ?gs" "y \<in> set ?gs" "gated_le l x y" for x y
  proof -
    have f: "(is_standing_instruction (gt_memory g) b \<longrightarrow> gt_final g \<ge> 996) \<and>
        (\<not> is_standing_instruction (gt_memory g) b \<longrightarrow> gt_final g < 996)" if g: "g \<in> set ?gs" for g
    proof -
      obtain e where e: "e \<in> set (scored_list l b memories q v)"
          "g = gate_entry l default_fusion_weights (snd (extract_query l (sq_query q))) now b
             (fuse_scores l default_fusion_weights (scored_list l b memories q v)) e"
        using g unfolding gated_list_unfold set_sort_by set_map by blast
      show ?thesis
        unfolding e(2) by (rule gated_final_bounds [OF e(1) assms(3,4,2), unfolded Let_def])
    qed
    have "gt_final y \<le> gt_final x" using that(3) by (auto simp: gated_le_def)
    then show ?thesis using f [OF that(1)] f [OF that(2)] by (auto simp: standing_le_def)
  qed
  have "sorted_wrt (\<lambda>x y. standing_le b (gt_memory x) (gt_memory y)) ?gs"
    by (rule sorted_wrt_mono_rel [OF m s])
  then show ?thesis by (simp add: sorted_wrt_map)
qed

lemma budget_subseq: "subseq (fst (apply_budget l elapsed b limit ms)) ms"
proof -
  obtain kept r where r: "apply_budget l elapsed b limit ms = (kept, r)" by (metis prod.collapse)
  obtain k0 bytes by0 where out: "budget_loop l elapsed b limit 0 [] ms 0 = (k0, bytes, by0)" by (metis prod_cases3)
  have "budget_outcome_ok l b limit ms (k0, bytes, by0)"
    using budget_loop_ok [of "[]" limit 0 l b ms ms elapsed 0] out by (simp add: content_bytes_def)
  moreover have "kept = k0" using r by (simp add: apply_budget_def out Let_def)
  ultimately show ?thesis using r by (auto simp: budget_outcome_ok_def)
qed

text \<open>C36. Without a query vector and with the default weights, every standing instruction in the results comes before
  every other memory: no combination of relevance, recency, trust, importance and scope outweighs the gate.\<close>

theorem standing_instructions_first:
  assumes "collates l" "decays l" "distinct (map mm_id memories)" "list_all in_range_memory memories"
    and "rp_fusionWeights policy = None" "search_q l now elapsed memories q None policy = Inr r"
    and "i < j" "j < length (sr_results r)"
    and "is_standing_instruction (sr_results r ! j) (or_value True (rp_requireRoleTrust policy))"
  shows "is_standing_instruction (sr_results r ! i) (or_value True (rp_requireRoleTrust policy))"
proof -
  let ?b = "or_value True (rp_requireRoleTrust policy)"
  let ?ranked = "ranking l now default_fusion_weights memories q None policy"
  let ?diverse = "diversify l (or_value True (rp_diversity policy)) None (sq_budget q \<noteq> None) (effective_limit q) ?ranked"
  have "sorted_wrt (standing_le ?b) ?ranked"
    unfolding ranking_def Let_def
    by (rule sorted_wrt_subseq [OF suppress_subseq])
      (use gated_standing_sorted [OF assms(1-4), of ?b now q None] in \<open>simp add: or_value_def\<close>)
  moreover have "subseq ?diverse ?ranked" by (auto simp: diversify_def or_value_def Let_def)
  moreover have "merged_weights (rp_fusionWeights policy) = Inr default_fusion_weights" by (simp add: assms(5) merged_weights_def)
  then have "sr_results r = (case sq_budget q of None \<Rightarrow> ?diverse
      | Some b \<Rightarrow> fst (apply_budget l elapsed b (effective_limit q) ?diverse))"
    using search_shape [OF assms(6)] by (auto simp: Let_def simp del: not_None_eq)
  then have "subseq (sr_results r) ?diverse" using budget_subseq by (auto split: option.split)
  ultimately have "sorted_wrt (standing_le ?b) (sr_results r)" by (metis sorted_wrt_subseq)
  then have "standing_le ?b (sr_results r ! i) (sr_results r ! j)"
    using assms(7,8) by (simp add: sorted_wrt_iff_nth_less)
  then show ?thesis using assms(9) by (simp add: standing_le_def)
qed

section \<open>Relations\<close>

lemma find_member: "find P xs = Some x \<Longrightarrow> x \<in> set xs \<and> P x"
  by (induction xs) (auto split: if_splits)

lemma pool_get_some: "pool_get pool i = Some n \<Longrightarrow> n \<in> set pool \<and> mm_id n = i"
proof -
  assume "pool_get pool i = Some n"
  then have "find (\<lambda>m. mm_id m = i) (rev pool) = Some n" by (simp add: pool_get_def)
  then have "n \<in> set (rev pool) \<and> mm_id n = i" by (rule find_member)
  then show ?thesis by simp
qed

definition expansion_ok :: "memory list \<Rightarrow> memory list \<Rightarrow> nat \<Rightarrow> expansion \<Rightarrow> bool" where
  "expansion_ok pool seeds maxEdges s \<longleftrightarrow>
     (\<exists>more. ex_selected s = seeds @ more \<and> set more \<subseteq> set pool \<and> length more \<le> ex_edges s) \<and>
     distinct (map mm_id (ex_selected s)) \<and> ex_edges s \<le> maxEdges"

lemma expand_edge_ok: "expansion_ok pool seeds maxEdges s \<Longrightarrow> expansion_ok pool seeds maxEdges (expand_edge pool maxEdges i s)"
  using pool_get_some [of pool i]
  by (auto simp: expansion_ok_def expand_edge_def Let_def split: option.split)

lemma expand_memory_ok: "expansion_ok pool seeds maxEdges s \<Longrightarrow> expansion_ok pool seeds maxEdges (expand_memory pool maxEdges m s)"
proof -
  have "expansion_ok pool seeds maxEdges (fold (expand_edge pool maxEdges) is s)" if "expansion_ok pool seeds maxEdges s" for "is" s
    using that by (induction "is" arbitrary: s) (simp_all add: expand_edge_ok)
  then show "expansion_ok pool seeds maxEdges s \<Longrightarrow> ?thesis" by (simp add: expand_memory_def)
qed


lemma expand_fold_ok:
  "expansion_ok pool seeds maxEdges s \<Longrightarrow> expansion_ok pool seeds maxEdges (fold (expand_memory pool maxEdges) ms s)"
  by (induction ms arbitrary: s) (simp_all add: expand_memory_ok)

lemma expand_levels_ok:
  "expansion_ok pool seeds maxEdges s \<Longrightarrow> expansion_ok pool seeds maxEdges (expand_levels pool maxEdges depth frontier s)"
proof (induction pool maxEdges depth frontier s rule: expand_levels.induct)
  case (2 pool maxEdges depth frontier s)
  have "expansion_ok pool seeds maxEdges (s\<lparr>ex_next := []\<rparr>)" using 2(2) by (simp add: expansion_ok_def)
  then show ?case using 2 expand_fold_ok by (simp add: Let_def)
qed simp

lemma dedupe_memories_distinct: "distinct (map mm_id (dedupe_memories ms))"
proof -
  have "set (dedupe_memories ms) \<subseteq> set ms" for ms
    by (induction ms rule: dedupe_memories.induct) auto
  then show ?thesis by (induction ms rule: dedupe_memories.induct) fastforce+
qed

text \<open>C39. The expansion through relations keeps the seeds in front and adds only memories of the pool, none twice, and no
  more of them than the edges it may look at, which are 128 at most.\<close>

theorem expansion_stays_in_pool:
  "\<exists>more. expand_relation_candidates pool seeds depth edges = dedupe_memories seeds @ more \<and> set more \<subseteq> set pool \<and>
     distinct (map mm_id (dedupe_memories seeds @ more)) \<and> length more \<le> clamp 128 (or_value 32 edges) \<and>
     clamp 128 (or_value 32 edges) \<le> 128"
proof -
  let ?sel = "dedupe_memories seeds" and ?max = "clamp 128 (or_value 32 edges)"
  have "expansion_ok pool ?sel ?max \<lparr>ex_selected = ?sel, ex_next = [], ex_edges = 0\<rparr>"
    by (simp add: expansion_ok_def dedupe_memories_distinct)
  then have "expansion_ok pool ?sel ?max (expand_levels pool ?max d ?sel \<lparr>ex_selected = ?sel, ex_next = [], ex_edges = 0\<rparr>)" for d
    by (rule expand_levels_ok)
  then have ok: "\<exists>more. ex_selected (expand_levels pool ?max d ?sel \<lparr>ex_selected = ?sel, ex_next = [], ex_edges = 0\<rparr>)
      = ?sel @ more \<and> set more \<subseteq> set pool \<and> distinct (map mm_id (?sel @ more)) \<and> length more \<le> ?max" for d
    unfolding expansion_ok_def by (metis order_trans)
  have cap: "?max \<le> 128" by (simp add: clamp_def)
  show ?thesis
  proof (cases "clamp 2 (or_value 1 depth) = 0 \<or> ?max = 0")
    case True
    then have "expand_relation_candidates pool seeds depth edges = ?sel @ []" by (auto simp: expand_relation_candidates_def Let_def)
    then show ?thesis using cap dedupe_memories_distinct [of seeds] by (intro exI [of _ "[]"]) simp
  next
    case False
    then have "expand_relation_candidates pool seeds depth edges = ex_selected (expand_levels pool ?max
        (clamp 2 (or_value 1 depth)) ?sel \<lparr>ex_selected = ?sel, ex_next = [], ex_edges = 0\<rparr>)"
      by (simp add: expand_relation_candidates_def Let_def)
    then show ?thesis using ok [of "clamp 2 (or_value 1 depth)"] cap by metis
  qed
qed

section \<open>Samples\<close>

definition sample_lang :: lang where
  "sample_lang = \<lparr>la_lower = (\<lambda>s. s), la_word = is_alnum, la_cjk = (\<lambda>_. False), la_log = (\<lambda>q. q), la_sqrt = (\<lambda>_. 1),
     la_pow2 = (\<lambda>x. if x \<le> 0 then 1 else 2), la_date = (\<lambda>_. None),
     la_compare = (\<lambda>a b. if a = b then 0 else if bytes_le a b then - 1 else 1), la_bytes = length\<rparr>"

definition sample_memory :: "string \<Rightarrow> string \<Rightarrow> string \<Rightarrow> memory" where
  "sample_memory i ty content =
     \<lparr>mm_id = i, mm_type = ty, mm_content = content, mm_scope = ''p'', mm_tags = [], mm_importance = 3, mm_confidence = 1,
      mm_trust = ''trusted'', mm_provenance = \<lparr>pv_sourceType = ''manual'', pv_labels = []\<rparr>, mm_owner = None, mm_access = None,
      mm_tenantId = None, mm_projectId = None, mm_userId = None, mm_agentId = None, mm_sensitivity = None,
      mm_legalHold = None, mm_meta = None, mm_validFrom = None, mm_validUntil = None, mm_observedAt = None,
      mm_supersededBy = None, mm_createdAt = ''t'', mm_updatedAt = ''t'', mm_lastSeen = None, mm_lastValidated = None,
      mm_archivedAt = None, mm_version = 1, mm_source = None, mm_retention = None, mm_relations = None, mm_embedding = None\<rparr>"

definition plain_query :: "string option \<Rightarrow> search_query" where
  "plain_query text = \<lparr>sq_query = text, sq_scope = Some ''p'', sq_limit = None, sq_explain = None, sq_candidates = None,
     sq_totalDocs = None, sq_dedupeExact = None, sq_dedupeSameSource = None, sq_includeSuperseded = None, sq_budget = None\<rparr>"

definition plain_policy :: retrieval_policy where
  "plain_policy = \<lparr>rp_requireRoleTrust = None, rp_diversity = None, rp_reranking = None, rp_fusionWeights = None\<rparr>"

definition sample_pool :: "memory list" where
  "sample_pool = [sample_memory ''a'' ''fact'' ''the red car'', sample_memory ''b'' ''role'' ''be kind'',
     sample_memory ''c'' ''instruction'' ''red ink'']"

lemma sample_collates: "collates sample_lang"
  using bytes_le_total bytes_le_trans bytes_le_antisym
  by (auto simp: collates_def sample_lang_def split: if_splits)

lemma sample_decays: "decays sample_lang"
  by (simp add: decays_def sample_lang_def)

lemma sample_search:
  "map_sum id (\<lambda>r. map mm_id (sr_results r))
     (search_q sample_lang 0 (\<lambda>_. 0) sample_pool (plain_query (Some ''red car'')) None plain_policy) = Inr [''c'', ''b'', ''a'']"
  by code_simp


theorem standing_instructions_first_witness:
  "\<exists>r. search_q sample_lang 0 (\<lambda>_. 0) sample_pool (plain_query (Some ''red car'')) None plain_policy = Inr r \<and>
     is_standing_instruction (sr_results r ! 0) True"
proof -
  obtain r where r: "search_q sample_lang 0 (\<lambda>_. 0) sample_pool (plain_query (Some ''red car'')) None plain_policy = Inr r"
      "map mm_id (sr_results r) = [''c'', ''b'', ''a'']"
    using sample_search by (auto simp: map_sum_def split: sum.splits)
  have len: "length (sr_results r) = 3" using arg_cong [OF r(2), of length] by simp
  then have "mm_id (sr_results r ! 1) = ''b''" using arg_cong [OF r(2), of "\<lambda>xs. xs ! 1"] by simp
  moreover have "sr_results r ! 1 \<in> set sample_pool"
    using search_result_ok [OF r(1)] len by (metis mset_subset_eqD nth_mem set_mset_mset numeral_3_eq_3 One_nat_def lessI less_Suc_eq)
  ultimately have b: "sr_results r ! 1 = sample_memory ''b'' ''role'' ''be kind''"
    by (auto simp: sample_pool_def sample_memory_def)
  have "is_standing_instruction (sample_memory ''b'' ''role'' ''be kind'') (or_value True (rp_requireRoleTrust plain_policy))"
    by code_simp
  then have "is_standing_instruction (sr_results r ! 1) (or_value True (rp_requireRoleTrust plain_policy))" by (simp only: b)
  moreover have "distinct (map mm_id sample_pool)" "list_all in_range_memory sample_pool" "rp_fusionWeights plain_policy = None"
    by code_simp+
  ultimately have "is_standing_instruction (sr_results r ! 0) (or_value True (rp_requireRoleTrust plain_policy))"
    using standing_instructions_first [OF sample_collates sample_decays _ _ _ r(1), of 0 1] len by simp
  then show ?thesis using r(1) by (auto simp: plain_policy_def or_value_def)
qed



section \<open>Where comments and code part\<close>

text \<open>A memory is suppressed in favour of a replacement that the search itself filters out.\<close>

lemma superseded_without_replacement:
  assumes "search_q l now elapsed memories q v policy = Inr r" "sq_includeSuperseded q \<noteq> Some True"
    and "old \<in> set memories" "new \<in> set memories" "mm_supersededBy old = Some (mm_id new)" "mm_id new \<noteq> ''''"
    and "truthy (sq_scope q)" "mm_scope new \<noteq> ''global''" "Some (mm_scope new) \<noteq> sq_scope q"
  shows "old \<notin> set (sr_results r) \<and> new \<notin> set (sr_results r)"
proof -
  have "superseded_in memories old" using assms(4-6) by (auto simp: superseded_in_def)
  then show ?thesis using search_result_ok [OF assms(1)] assms(2,7-9) by blast
qed

text \<open>A qualifier \<open>before\<close> or \<open>after\<close> changes nothing but that the words of the query are lost.\<close>

lemma before_after_ignored:
  assumes "sq_query q = Some text" "trim text = text" "qualifier text = Some (t, '''')" "tm_latest t = None" "tm_recent t = None"
    and "la_lower l '''' = ''''"
  shows "search_q l now elapsed memories q v policy = search_q l now elapsed memories (q\<lparr>sq_query := None\<rparr>) v policy"
proof -
  have "text \<noteq> ''''" using assms(3) by (auto simp: qualifier_def after_word_def)
  moreover have "query_terms l '''' = []" using assms(6) by (simp add: query_terms_def tokenize_def)
  moreover have "trim '''' = ''''" by (simp add: trim_def)
  ultimately have x: "extract_query l (Some text) = ([], t)" "extract_query l None = ([], no_temporal)"
    using assms(2,3) by (simp_all add: extract_query_def)
  have "gate_entry l w t now b f e = gate_entry l w no_temporal now b f e" for w b f e
    using assms(4,5) by (simp add: gate_entry_def modifier_score_def no_temporal_def Let_def)
  then have "gate_entry l w t now b f = gate_entry l w no_temporal now b f" for w b f by blast
  moreover have "score_entry l (q\<lparr>sq_query := None\<rparr>) = score_entry l q" "seeded (q\<lparr>sq_query := None\<rparr>) = seeded q"
    by (simp_all add: fun_eq_iff score_entry_def seeded_def Let_def)
  ultimately have "gated_list l now w b memories q v = gated_list l now w b memories (q\<lparr>sq_query := None\<rparr>) v" for w b
    using assms(1) x by (simp add: gated_list_def)
  moreover have "suppress l memories (q\<lparr>sq_query := None\<rparr>) = suppress l memories q"
    "explain_entry (q\<lparr>sq_query := None\<rparr>) = explain_entry q" "effective_limit (q\<lparr>sq_query := None\<rparr>) = effective_limit q"
    by (simp_all add: fun_eq_iff suppress_def explain_entry_def effective_limit_def Let_def split: option.split)
  ultimately show ?thesis by (cases "sq_budget q") (simp_all add: search_q_def Let_def cong: option.case_cong prod.case_cong if_cong)
qed

lemma before_after_sample:
  "qualifier ''before last week'' = Some (no_temporal\<lparr>tm_before := Some ''last week''\<rparr>, '''')"
  "qualifier ''After 2024'' = Some (no_temporal\<lparr>tm_after := Some ''2024''\<rparr>, '''')"
  "qualifier ''latest 3 errors'' = Some (no_temporal\<lparr>tm_latest := Some 3\<rparr>, ''errors'')"
  by code_simp+

text \<open>Collapsing by source \<open>additionally\<close> to exact duplicates keeps exact duplicates of different sources.\<close>

lemma same_source_collapses_less:
  "map mm_id (fst (dedupe_results sample_lang
     [sample_memory ''a'' ''fact'' ''x'', (sample_memory ''b'' ''fact'' ''x'')\<lparr>mm_provenance := \<lparr>pv_sourceType = ''agent'', pv_labels = []\<rparr>\<rparr>]
     \<lparr>do_exact = Some True, do_sameSource = Some True, do_window = None\<rparr>)) = [''a'', ''b'']"
  "map mm_id (fst (dedupe_results sample_lang
     [sample_memory ''a'' ''fact'' ''x'', (sample_memory ''b'' ''fact'' ''x'')\<lparr>mm_provenance := \<lparr>pv_sourceType = ''agent'', pv_labels = []\<rparr>\<rparr>]
     \<lparr>do_exact = Some True, do_sameSource = Some False, do_window = None\<rparr>)) = [''a'']"
  by code_simp+

text \<open>The total of an explanation is not the score the memory was ranked by: lexical and semantic scores are added to
  the fused score that already stands for them.\<close>

lemma explanation_overcounts:
  "xp_total (explain_entry q w b (gate_entry l w t now b fuses e)) =
   gt_final (gate_entry l w t now b fuses e) + max 0 (sc_keyword e) + max 0 (sc_vector e) +
   (round_hundredth (gt_fuse (gate_entry l w t now b fuses e) * fw_scale w) - gt_fuse (gate_entry l w t now b fuses e) * fw_scale w)"
  by (auto simp: explain_entry_def gate_entry_def apply_standing_gate_def or_value_def Let_def max_def)

end
