(* ===== verification/FrontMatter.thy ===== *)
theory FrontMatter
  imports MemoryRecord "HOL-Library.Sublist"
begin

text \<open>
  The text of a stored memory: \<open>render\<close> and \<open>parse\<close> of \<open>src/store.ts\<close>. The front matter is a list of
  entries; YAML (the package \<open>yaml\<close>), the conversions between numbers and strings and the dates of the
  language are parameters of type \<open>text_env\<close>. Warnings are not modelled: a file that is skipped is
  \<open>None\<close>, a value that is normalised is only seen in the result. A number that is not finite is \<open>None\<close>.
\<close>

section \<open>Parameters\<close>

text \<open>\<open>te_date\<close> is \<open>validDate\<close>: the ISO text of a date that \<open>Date.parse\<close> reads. \<open>te_yaml_parse\<close> is \<open>None\<close>
  where the parser throws.\<close>

record text_env =
  te_num :: "rat \<Rightarrow> string"
  te_number :: "string \<Rightarrow> rat option"
  te_date :: "string \<Rightarrow> string option"
  te_epoch :: string
  te_yaml :: "(string \<times> json) list \<Rightarrow> string"
  te_yaml_parse :: "string \<Rightarrow> json option"

section \<open>Rendering\<close>

definition opt_entry :: "string \<Rightarrow> string option \<Rightarrow> (string \<times> json) list" where
  "opt_entry k v = (case v of None \<Rightarrow> [] | Some s \<Rightarrow> if s \<noteq> '''' then [(k, JStr s)] else [])"

definition provenance_json :: "provenance \<Rightarrow> json" where
  "provenance_json p = JObj ((''sourceType'', JStr (pv_sourceType p)) # map (\<lambda>(k, v). (k, JStr v)) (pv_labels p))"

definition relation_json :: "relation \<Rightarrow> json" where
  "relation_json r = JObj [(''id'', JStr (rl_id r)), (''kind'', JStr (rl_kind r))]"

definition embedding_text :: "text_env \<Rightarrow> rat list \<Rightarrow> string" where
  "embedding_text e xs = join_with '','' (map (te_num e) xs)"

definition front_matter :: "text_env \<Rightarrow> memory \<Rightarrow> (string \<times> json) list" where
  "front_matter e m =
     [(''id'', JStr (mm_id m)),
      (''version'', JNum (Some (of_nat (if truthy (mm_tenantId m) then tenant_schema_version else schema_version)))),
      (''revision'', JNum (Some (of_nat (mm_version m)))),
      (''type'', JStr (mm_type m)),
      (''scope'', JStr (mm_scope m)),
      (''tags'', JArr (map JStr (mm_tags m))),
      (''importance'', JNum (Some (of_int (mm_importance m)))),
      (''confidence'', JNum (Some (mm_confidence m))),
      (''trust'', JStr (mm_trust m)),
      (''created'', JStr (mm_createdAt m)),
      (''updated'', JStr (mm_updatedAt m))] @
     opt_entry ''tenantId'' (mm_tenantId m) @
     opt_entry ''projectId'' (mm_projectId m) @
     opt_entry ''userId'' (mm_userId m) @
     opt_entry ''agentId'' (mm_agentId m) @
     opt_entry ''lastSeen'' (mm_lastSeen m) @
     opt_entry ''lastValidated'' (mm_lastValidated m) @
     opt_entry ''archivedAt'' (mm_archivedAt m) @
     opt_entry ''source'' (mm_source m) @
     [(''provenance'', provenance_json (mm_provenance m))] @
     opt_entry ''owner'' (mm_owner m) @
     opt_entry ''access'' (mm_access m) @
     (case mm_meta m of None \<Rightarrow> [] | Some f \<Rightarrow> [(''meta'', JObj f)]) @
     opt_entry ''validFrom'' (mm_validFrom m) @
     opt_entry ''validUntil'' (mm_validUntil m) @
     opt_entry ''observedAt'' (mm_observedAt m) @
     opt_entry ''supersededBy'' (mm_supersededBy m) @
     opt_entry ''retention'' (mm_retention m) @
     (case mm_relations m of None \<Rightarrow> [] | Some rs \<Rightarrow>
        if rs \<noteq> [] then [(''relations'', JArr (map relation_json rs))] else []) @
     (case mm_embedding m of None \<Rightarrow> [] | Some xs \<Rightarrow>
        if xs \<noteq> [] then [(''embedding'', JStr (embedding_text e xs))] else [])"

definition nl :: string where "nl = [CHR 0x0A]"

definition trim_end :: "string \<Rightarrow> string" where
  "trim_end s = rev (dropWhile is_js_space (rev s))"

definition yaml_text :: "text_env \<Rightarrow> memory \<Rightarrow> string" where
  "yaml_text e m = trim_end (te_yaml e (front_matter e m))"

definition render :: "text_env \<Rightarrow> memory \<Rightarrow> string" where
  "render e m = ''---'' @ nl @ yaml_text e m @ nl @ ''---'' @ nl @ nl @ mm_content m @ nl"

section \<open>Splitting a file\<close>

definition marker :: string where "marker = nl @ ''---'' @ nl"

text \<open>The shortest text before a marker, and what follows the marker and one more newline.\<close>

fun to_marker :: "string \<Rightarrow> (string \<times> string) option" where
  "to_marker s =
     (if take (length marker) s = marker then Some ('''', drop (length marker) s)
      else (case s of [] \<Rightarrow> None | c # cs \<Rightarrow> map_option (\<lambda>(a, b). (c # a, b)) (to_marker cs)))"

definition split_front :: "string \<Rightarrow> (string \<times> string) option" where
  "split_front s =
     (if take 4 s = ''---'' @ nl
      then map_option (\<lambda>(a, b). (a, if take 1 b = nl then drop 1 b else b)) (to_marker (drop 4 s))
      else None)"

section \<open>Values of the front matter\<close>

text \<open>\<open>asStr\<close>, \<open>String\<close> of an array and \<open>Number\<close>.\<close>

definition as_str :: "text_env \<Rightarrow> json \<Rightarrow> string option" where
  "as_str e v = (case v of
     JStr s \<Rightarrow> Some s
   | JNum (Some q) \<Rightarrow> Some (te_num e q)
   | JNum None \<Rightarrow> Some ''NaN''
   | JBool b \<Rightarrow> Some (if b then ''true'' else ''false'')
   | _ \<Rightarrow> None)"

fun array_item :: "text_env \<Rightarrow> json \<Rightarrow> string" where
  "array_item e JNull = ''''"
| "array_item e (JBool b) = (if b then ''true'' else ''false'')"
| "array_item e (JNum n) = (case n of None \<Rightarrow> ''NaN'' | Some q \<Rightarrow> te_num e q)"
| "array_item e (JStr s) = s"
| "array_item e (JArr vs) = join_with '','' (map (array_item e) vs)"
| "array_item e (JObj es) = ''[object Object]''"

definition js_number :: "text_env \<Rightarrow> json \<Rightarrow> rat option" where
  "js_number e v = (case v of
     JNull \<Rightarrow> Some 0
   | JBool b \<Rightarrow> Some (if b then 1 else 0)
   | JNum n \<Rightarrow> n
   | JStr s \<Rightarrow> te_number e s
   | JArr vs \<Rightarrow> te_number e (array_item e v)
   | JObj es \<Rightarrow> None)"

definition str_of :: "text_env \<Rightarrow> (string \<times> json) list \<Rightarrow> string \<Rightarrow> string option" where
  "str_of e meta k = Option.bind (map_of meta k) (as_str e)"

definition date_of :: "text_env \<Rightarrow> (string \<times> json) list \<Rightarrow> string \<Rightarrow> string option" where
  "date_of e meta k = Option.bind (str_of e meta k) (te_date e)"

definition is_integer :: "rat \<Rightarrow> bool" where
  "is_integer q \<longleftrightarrow> of_int \<lfloor>q\<rfloor> = q"

text \<open>\<open>replace(/^\[|\]$/g, "")\<close>.\<close>

definition strip_brackets :: "string \<Rightarrow> string" where
  "strip_brackets s =
     (let s = (if take 1 s = ''['' then drop 1 s else s)
      in if s \<noteq> '''' \<and> last s = CHR '']'' then butlast s else s)"

definition comma_items :: "string \<Rightarrow> string list" where
  "comma_items s = filter (\<lambda>t. t \<noteq> '''') (map trim (split_on (CHR '','') s))"

section \<open>Parsing\<close>

text \<open>The line reader of versions before 4.1, for front matters that YAML refuses.\<close>

fun cut_colon :: "string \<Rightarrow> (string \<times> string) option" where
  "cut_colon [] = None"
| "cut_colon (c # cs) = (if c = CHR '':'' then Some ('''', cs) else map_option (\<lambda>(a, b). (c # a, b)) (cut_colon cs))"

definition legacy_front_matter :: "string \<Rightarrow> (string \<times> json) list" where
  "legacy_front_matter text =
     fold (\<lambda>line meta. case cut_colon line of
         None \<Rightarrow> meta
       | Some (a, b) \<Rightarrow> AList.update (trim a) (JStr (trim b)) meta) (split_on (CHR 0x0A) text) []"

definition read_meta :: "text_env \<Rightarrow> string \<Rightarrow> (string \<times> json) list option" where
  "read_meta e text = (case te_yaml_parse e text of
     None \<Rightarrow> (let meta = legacy_front_matter text in if meta = [] then None else Some meta)
   | Some (JObj meta) \<Rightarrow> Some meta
   | Some v \<Rightarrow> if trim text = '''' then Some [] else None)"

definition parse_version :: "text_env \<Rightarrow> (string \<times> json) list \<Rightarrow> int option" where
  "parse_version e meta =
     (let v = (case map_of meta ''version'' of
           None \<Rightarrow> Some (of_nat schema_version)
         | Some x \<Rightarrow> Option.bind (as_str e x) (te_number e))
      in case v of
           None \<Rightarrow> None
         | Some q \<Rightarrow> if \<not> is_integer q then None else if \<lfloor>q\<rfloor> > int tenant_schema_version then None else Some \<lfloor>q\<rfloor>)"

definition tenant_field_ok :: "text_env \<Rightarrow> (string \<times> json) list \<Rightarrow> string \<Rightarrow> bool" where
  "tenant_field_ok e meta k \<longleftrightarrow>
     (map_of meta k \<noteq> None \<longrightarrow> (case str_of e meta k of None \<Rightarrow> False | Some s \<Rightarrow> is_valid_tenant_id s))"

definition parse_tenant_ok :: "text_env \<Rightarrow> int \<Rightarrow> (string \<times> json) list \<Rightarrow> bool" where
  "parse_tenant_ok e version meta \<longleftrightarrow>
     tenant_field_ok e meta ''tenantId'' \<and> tenant_field_ok e meta ''projectId'' \<and>
     tenant_field_ok e meta ''userId'' \<and> tenant_field_ok e meta ''agentId'' \<and>
     (version \<ge> int tenant_schema_version \<longrightarrow>
       (case str_of e meta ''tenantId'' of None \<Rightarrow> False | Some s \<Rightarrow> is_valid_tenant_id s))"

definition parse_revision :: "text_env \<Rightarrow> (string \<times> json) list \<Rightarrow> nat" where
  "parse_revision e meta = (case map_of meta ''revision'' of
     None \<Rightarrow> 1
   | Some v \<Rightarrow> (case js_number e v of None \<Rightarrow> 1 | Some r \<Rightarrow> if is_integer r \<and> r \<ge> 1 then nat \<lfloor>r\<rfloor> else 1))"

definition parse_id_ok :: "text_env \<Rightarrow> (string \<times> json) list \<Rightarrow> bool" where
  "parse_id_ok e meta \<longleftrightarrow>
     (map_of meta ''id'' \<noteq> None \<longrightarrow> (case str_of e meta ''id'' of None \<Rightarrow> False | Some s \<Rightarrow> is_record_id s))"

definition or_default :: "'a \<Rightarrow> 'a option \<Rightarrow> 'a" where
  "or_default d v = (case v of None \<Rightarrow> d | Some x \<Rightarrow> x)"

lemma or_default_simps: "or_default d None = d" "or_default d (Some x) = x"
  by (simp_all add: or_default_def)

definition text_or :: "text_env \<Rightarrow> (string \<times> json) list \<Rightarrow> string \<Rightarrow> string \<Rightarrow> string" where
  "text_or e meta k d = (if map_of meta k = None then d else or_default '''' (str_of e meta k))"

definition scope_readable :: "string \<Rightarrow> bool" where
  "scope_readable s \<longleftrightarrow> s \<noteq> '''' \<and> ''..'' \<notin> set (split_on (CHR ''/'') s) \<and> CHR 0x5C \<notin> set s"

definition parse_tags :: "text_env \<Rightarrow> (string \<times> json) list \<Rightarrow> string list" where
  "parse_tags e meta = (case map_of meta ''tags'' of
     Some (JArr vs) \<Rightarrow> filter (\<lambda>t. t \<noteq> '''') (map (\<lambda>v. or_default '''' (as_str e v)) vs)
   | Some (JStr s) \<Rightarrow> (let inner = trim (strip_brackets s) in if inner \<noteq> '''' then comma_items inner else [])
   | _ \<Rightarrow> [])"

definition js_round :: "rat \<Rightarrow> int" where
  "js_round q = \<lfloor>q + 1 / 2\<rfloor>"

definition parse_importance :: "text_env \<Rightarrow> (string \<times> json) list \<Rightarrow> int" where
  "parse_importance e meta =
     (let v = (case map_of meta ''importance'' of None \<Rightarrow> JNum (Some 3) | Some JNull \<Rightarrow> JNum (Some 3) | Some x \<Rightarrow> x)
      in case js_number e v of None \<Rightarrow> 3 | Some q \<Rightarrow> min 5 (max 1 (js_round q)))"

definition parse_labels :: "(string \<times> json) list \<Rightarrow> (string \<times> string) list option" where
  "parse_labels es =
     (if list_all (\<lambda>k. case map_of es k of None \<Rightarrow> True | Some (JStr s) \<Rightarrow> True | _ \<Rightarrow> False) provenance_labels
      then Some (List.map_filter (\<lambda>k. case map_of es k of Some (JStr s) \<Rightarrow> Some (k, s) | _ \<Rightarrow> None) provenance_labels)
      else None)"

definition manual_provenance :: provenance where
  "manual_provenance = \<lparr>pv_sourceType = ''manual'', pv_labels = []\<rparr>"

definition parse_provenance :: "text_env \<Rightarrow> (string \<times> json) list \<Rightarrow> provenance" where
  "parse_provenance e meta = (case map_of meta ''provenance'' of
     None \<Rightarrow> manual_provenance
   | Some JNull \<Rightarrow> manual_provenance
   | Some (JObj es) \<Rightarrow>
       (case (map_of es ''sourceType'', parse_labels es) of
          (Some (JStr s), Some ls) \<Rightarrow>
            if s \<in> set source_types then \<lparr>pv_sourceType = s, pv_labels = ls\<rparr> else manual_provenance
        | _ \<Rightarrow> manual_provenance)
   | Some v \<Rightarrow>
       (case as_str e v of
          None \<Rightarrow> manual_provenance
        | Some s \<Rightarrow>
            if s = ''auto'' \<or> s = ''conversation'' then \<lparr>pv_sourceType = ''conversation'', pv_labels = []\<rparr>
            else if s = ''agent'' \<or> s = ''import'' \<or> s = ''system'' then \<lparr>pv_sourceType = s, pv_labels = []\<rparr>
            else manual_provenance))"

definition parse_confidence :: "text_env \<Rightarrow> (string \<times> json) list \<Rightarrow> provenance \<Rightarrow> rat" where
  "parse_confidence e meta p =
     (let fallback = (if pv_sourceType p = ''conversation'' then 7 / 10 else 1)
      in case map_of meta ''confidence'' of
           None \<Rightarrow> fallback
         | Some v \<Rightarrow> (case js_number e v of None \<Rightarrow> fallback | Some c \<Rightarrow> min 1 (max 0 c)))"

definition parse_trust :: "text_env \<Rightarrow> (string \<times> json) list \<Rightarrow> provenance \<Rightarrow> string" where
  "parse_trust e meta p = (case str_of e meta ''trust'' of
     None \<Rightarrow> default_trust p
   | Some s \<Rightarrow> if s \<in> set trust_levels then s else default_trust p)"

definition parse_option :: "text_env \<Rightarrow> (string \<times> json) list \<Rightarrow> string \<Rightarrow> string list \<Rightarrow> string option" where
  "parse_option e meta k options = (case str_of e meta k of
     None \<Rightarrow> None | Some s \<Rightarrow> if s \<in> set options then Some s else None)"

definition parse_relation :: "text_env \<Rightarrow> json \<Rightarrow> relation option" where
  "parse_relation e v = (case v of
     JObj es \<Rightarrow>
       (case (map_of es ''id'', str_of e es ''kind'') of
          (Some (JStr i), Some k) \<Rightarrow>
            if is_record_id i \<and> k \<in> set relation_kinds then Some \<lparr>rl_id = i, rl_kind = k\<rparr> else None
        | _ \<Rightarrow> None)
   | _ \<Rightarrow> None)"

definition some_if_any :: "'a list \<Rightarrow> 'a list option" where
  "some_if_any xs = (if xs = [] then None else Some xs)"

definition parse_list :: "string \<Rightarrow> string list option" where
  "parse_list raw =
     (if raw = '''' then None
      else let inner = trim (strip_brackets raw) in if inner = '''' then None else some_if_any (comma_items inner))"

definition parse_relations :: "text_env \<Rightarrow> (string \<times> json) list \<Rightarrow> relation list option" where
  "parse_relations e meta =
     (let typed = (case map_of meta ''relations'' of
           Some (JArr vs) \<Rightarrow> some_if_any (List.map_filter (parse_relation e) vs)
         | _ \<Rightarrow> None)
      in case typed of
           Some rs \<Rightarrow> Some rs
         | None \<Rightarrow>
             (let ids = (case map_of meta ''related'' of
                  Some (JStr s) \<Rightarrow> or_default [] (parse_list s)
                | Some (JArr vs) \<Rightarrow> map (\<lambda>v. or_default '''' (as_str e v)) vs
                | _ \<Rightarrow> [])
              in some_if_any (map (\<lambda>i. \<lparr>rl_id = i, rl_kind = ''related''\<rparr>) (filter is_record_id ids))))"

fun all_some :: "'a option list \<Rightarrow> 'a list option" where
  "all_some [] = Some []"
| "all_some (x # xs) = (case x of None \<Rightarrow> None | Some y \<Rightarrow> map_option (Cons y) (all_some xs))"

definition parse_embedding :: "text_env \<Rightarrow> (string \<times> json) list \<Rightarrow> rat list option" where
  "parse_embedding e meta = (case map_of meta ''embedding'' of
     Some (JArr vs) \<Rightarrow> if vs = [] then None else all_some (map (js_number e) vs)
   | Some (JStr s) \<Rightarrow> all_some (map (\<lambda>t. te_number e (trim t)) (split_on (CHR '','') (strip_brackets s)))
   | _ \<Rightarrow> None)"

definition keep_text :: "string option \<Rightarrow> string option" where
  "keep_text v = (if truthy v then v else None)"

text \<open>The memory of a readable file; the id is the name of the file.\<close>

definition memory_of :: "text_env \<Rightarrow> string \<Rightarrow> (string \<times> json) list \<Rightarrow> string \<Rightarrow> memory" where
  "memory_of e base meta content =
     (let p = parse_provenance e meta;
          createdOk = date_of e meta ''created'';
          createdAt = or_default (te_epoch e) createdOk
      in \<lparr>mm_id = base, mm_type = text_or e meta ''type'' ''fact'', mm_content = content,
          mm_scope = text_or e meta ''scope'' ''global'', mm_tags = parse_tags e meta,
          mm_importance = parse_importance e meta, mm_confidence = parse_confidence e meta p,
          mm_trust = parse_trust e meta p, mm_provenance = p,
          mm_owner = Some (or_default ''global'' (parse_option e meta ''owner'' memory_owners)),
          mm_access = Some (or_default ''global'' (parse_option e meta ''access'' memory_accesses)),
          mm_tenantId = keep_text (str_of e meta ''tenantId''), mm_projectId = keep_text (str_of e meta ''projectId''),
          mm_userId = keep_text (str_of e meta ''userId''), mm_agentId = keep_text (str_of e meta ''agentId''),
          mm_sensitivity = None, mm_legalHold = None,
          mm_meta = (case map_of meta ''meta'' of Some (JObj f) \<Rightarrow> Some f | _ \<Rightarrow> None),
          mm_validFrom = keep_text (date_of e meta ''validFrom''), mm_validUntil = keep_text (date_of e meta ''validUntil''),
          mm_observedAt = keep_text (date_of e meta ''observedAt''),
          mm_supersededBy = keep_text (str_of e meta ''supersededBy''),
          mm_createdAt = createdAt,
          mm_updatedAt = (case date_of e meta ''updated'' of Some d \<Rightarrow> d | None \<Rightarrow> createdAt),
          mm_lastSeen = date_of e meta ''lastSeen'', mm_lastValidated = date_of e meta ''lastValidated'',
          mm_archivedAt = date_of e meta ''archivedAt'', mm_version = parse_revision e meta,
          mm_source = str_of e meta ''source'', mm_retention = parse_option e meta ''retention'' retention_modes,
          mm_relations = parse_relations e meta, mm_embedding = parse_embedding e meta\<rparr>)"

definition parse_meta :: "text_env \<Rightarrow> string \<Rightarrow> (string \<times> json) list \<Rightarrow> string \<Rightarrow> memory option" where
  "parse_meta e base meta body =
     (case parse_version e meta of
        None \<Rightarrow> None
      | Some version \<Rightarrow>
          if \<not> parse_tenant_ok e version meta then None
          else if \<not> parse_id_ok e meta then None
          else if text_or e meta ''type'' ''fact'' \<notin> set memory_types then None
          else if \<not> scope_readable (text_or e meta ''scope'' ''global'') then None
          else if trim body = '''' then None
          else Some (memory_of e base meta (trim body)))"

definition parse :: "text_env \<Rightarrow> string \<Rightarrow> string \<Rightarrow> memory option" where
  "parse e base raw =
     (case split_front raw of
        None \<Rightarrow> None
      | Some (front, body) \<Rightarrow>
          (case read_meta e front of
             None \<Rightarrow> None
           | Some meta \<Rightarrow> parse_meta e base meta body))"

section \<open>Reading back what was written\<close>

definition date_ok :: "text_env \<Rightarrow> string \<Rightarrow> bool" where
  "date_ok e d \<longleftrightarrow> te_date e d = Some d \<and> d \<noteq> ''''"

definition some_in :: "string list \<Rightarrow> string option \<Rightarrow> bool" where
  "some_in options v \<longleftrightarrow> (case v of None \<Rightarrow> False | Some s \<Rightarrow> s \<in> set options)"

definition provenance_ok :: "provenance \<Rightarrow> bool" where
  "provenance_ok p \<longleftrightarrow> pv_sourceType p \<in> set source_types \<and> subseq (map fst (pv_labels p)) provenance_labels"

definition relation_ok :: "relation \<Rightarrow> bool" where
  "relation_ok r \<longleftrightarrow> is_record_id (rl_id r) \<and> rl_kind r \<in> set relation_kinds"

text \<open>A memory that \<open>parse\<close> serves unchanged.\<close>

definition memory_core_ok :: "text_env \<Rightarrow> memory \<Rightarrow> bool" where
  "memory_core_ok e m \<longleftrightarrow>
     is_record_id (mm_id m) \<and> mm_type m \<in> set memory_types \<and> scope_readable (mm_scope m) \<and>
     trim (mm_content m) = mm_content m \<and> mm_content m \<noteq> '''' \<and> '''' \<notin> set (mm_tags m) \<and>
     1 \<le> mm_importance m \<and> mm_importance m \<le> 5 \<and> 0 \<le> mm_confidence m \<and> mm_confidence m \<le> 1 \<and>
     mm_trust m \<in> set trust_levels \<and> provenance_ok (mm_provenance m) \<and>
     date_ok e (mm_createdAt m) \<and> date_ok e (mm_updatedAt m) \<and> 1 \<le> mm_version m"

definition memory_options_ok :: "text_env \<Rightarrow> memory \<Rightarrow> bool" where
  "memory_options_ok e m \<longleftrightarrow>
     some_in memory_owners (mm_owner m) \<and> some_in memory_accesses (mm_access m) \<and>
     opt_valid is_valid_tenant_id (mm_tenantId m) \<and> opt_valid is_valid_tenant_id (mm_projectId m) \<and>
     opt_valid is_valid_tenant_id (mm_userId m) \<and> opt_valid is_valid_tenant_id (mm_agentId m) \<and>
     opt_valid (date_ok e) (mm_validFrom m) \<and> opt_valid (date_ok e) (mm_validUntil m) \<and>
     opt_valid (date_ok e) (mm_observedAt m) \<and> opt_valid (date_ok e) (mm_lastSeen m) \<and>
     opt_valid (date_ok e) (mm_lastValidated m) \<and> opt_valid (date_ok e) (mm_archivedAt m) \<and>
     mm_supersededBy m \<noteq> Some '''' \<and> mm_source m \<noteq> Some '''' \<and>
     opt_valid (\<lambda>r. r \<in> set retention_modes) (mm_retention m) \<and>
     opt_valid (\<lambda>rs. rs \<noteq> [] \<and> list_all relation_ok rs) (mm_relations m) \<and> mm_embedding m \<noteq> Some []"

definition memory_ok :: "text_env \<Rightarrow> memory \<Rightarrow> bool" where
  "memory_ok e m \<longleftrightarrow> memory_core_ok e m \<and> memory_options_ok e m"

text \<open>What is assumed of the parameters: \<open>Number\<close> reads the texts \<open>String\<close> gives to the numbers involved, which
  are not empty and have no comma, bracket or space; and YAML reads the front matter it wrote, which has no
  line \<open>---\<close>.\<close>

definition number_text_ok :: "text_env \<Rightarrow> rat \<Rightarrow> bool" where
  "number_text_ok e q \<longleftrightarrow> te_number e (te_num e q) = Some q \<and> te_num e q \<noteq> '''' \<and>
     (\<forall>c \<in> set (te_num e q). c \<noteq> CHR '','' \<and> c \<noteq> CHR ''['' \<and> c \<noteq> CHR '']'' \<and> \<not> is_js_space c)"

definition reads_back :: "text_env \<Rightarrow> memory \<Rightarrow> bool" where
  "reads_back e m \<longleftrightarrow>
     number_text_ok e 3 \<and> number_text_ok e 4 \<and> (\<forall>q \<in> set (or_default [] (mm_embedding m)). number_text_ok e q) \<and>
     te_yaml_parse e (yaml_text e m) = Some (JObj (front_matter e m)) \<and>
     (\<forall>i < length (yaml_text e m). take 5 (drop i (yaml_text e m @ marker)) \<noteq> marker)"

subsection \<open>The text\<close>

lemma length_marker: "length marker = 5"
  by (simp add: marker_def nl_def)

declare to_marker.simps [simp del]

lemma to_marker_here: "to_marker (marker @ t) = Some ('''', t)"
  by (subst to_marker.simps) simp

lemma to_marker_skip:
  "take 5 (c # s) \<noteq> marker \<Longrightarrow> to_marker (c # s) = map_option (\<lambda>(a, b). (c # a, b)) (to_marker s)"
  by (subst to_marker.simps) (simp add: length_marker)

lemma to_marker_first:
  assumes "\<forall>i < length y. take 5 (drop i (y @ marker)) \<noteq> marker"
  shows "to_marker (y @ marker @ t) = Some (y, t)"
  using assms
proof (induction y)
  case Nil
  then show ?case by (simp add: to_marker_here)
next
  case (Cons c y)
  have "take 5 (c # y @ marker) \<noteq> marker" using Cons.prems by fastforce
  moreover have "take 5 (c # y @ marker @ t) = take 5 (c # y @ marker)"
    using length_marker by (simp add: numeral_eq_Suc)
  moreover have "\<forall>i < length y. take 5 (drop i (y @ marker)) \<noteq> marker"
    using Cons.prems by fastforce
  ultimately have ne: "take 5 (c # y @ marker @ t) \<noteq> marker" and "to_marker (y @ marker @ t) = Some (y, t)"
    using Cons.IH by (metis, blast)
  then show ?case using to_marker_skip [OF ne] by (simp del: take_Suc_Cons)
qed

lemma split_render:
  assumes "reads_back e m"
  shows "split_front (render e m) = Some (yaml_text e m, mm_content m @ nl)"
proof -
  have "render e m = (''---'' @ nl) @ yaml_text e m @ marker @ nl @ mm_content m @ nl"
    by (simp add: render_def marker_def)
  moreover have "to_marker (yaml_text e m @ marker @ nl @ mm_content m @ nl) = Some (yaml_text e m, nl @ mm_content m @ nl)"
    using assms by (intro to_marker_first) (simp add: reads_back_def)
  ultimately show ?thesis by (simp add: split_front_def nl_def)
qed

lemma trim_newline: "trim (s @ nl) = trim s"
proof -
  have sp: "is_js_space (CHR 0x0A)" by (simp add: is_js_space_def in_range_def code_of_def)
  show ?thesis
  proof (cases "dropWhile is_js_space s = []")
    case True
    then have "\<forall>c \<in> set s. is_js_space c" by (simp add: dropWhile_eq_Nil_conv)
    then have "dropWhile is_js_space s = []" "dropWhile is_js_space (s @ nl) = []"
      using sp by (simp_all add: dropWhile_eq_Nil_conv nl_def)
    then show ?thesis by (simp only: trim_def)
  next
    case False
    then have "dropWhile is_js_space (s @ nl) = dropWhile is_js_space s @ nl"
      by (auto simp: dropWhile_append)
    then show ?thesis using sp by (simp add: trim_def nl_def)
  qed
qed

subsection \<open>The entries\<close>

lemma map_of_opt_entry [simp]:
  "map_of (opt_entry k v) k' = (if k' = k \<and> truthy v then map_option JStr v else None)"
  by (auto simp: opt_entry_def split: option.splits)

lemma lookup_opt_entry:
  "map_of (opt_entry k' v @ ys) k = (if k = k' \<and> truthy v then map_option JStr v else map_of ys k)"
  by (auto simp: opt_entry_def split: option.splits)

lemma lookup_option:
  "map_of ((case v of None \<Rightarrow> [] | Some x \<Rightarrow> [(k', f x)]) @ ys) k =
     (case v of None \<Rightarrow> map_of ys k | Some x \<Rightarrow> if k = k' then Some (f x) else map_of ys k)"
  by (simp split: option.split)

lemma lookup_list:
  "map_of ((case v of None \<Rightarrow> [] | Some xs \<Rightarrow> if xs \<noteq> [] then [(k', f xs)] else []) @ ys) k =
     (case v of None \<Rightarrow> map_of ys k | Some xs \<Rightarrow> if k = k' \<and> xs \<noteq> [] then Some (f xs) else map_of ys k)"
  by (simp split: option.split)

lemmas lookup_simps = lookup_opt_entry lookup_option lookup_list

lemma front_matter_fixed:
  "map_of (front_matter e m) ''id'' = Some (JStr (mm_id m))"
  "map_of (front_matter e m) ''version'' =
     Some (JNum (Some (of_nat (if truthy (mm_tenantId m) then tenant_schema_version else schema_version))))"
  "map_of (front_matter e m) ''revision'' = Some (JNum (Some (of_nat (mm_version m))))"
  "map_of (front_matter e m) ''type'' = Some (JStr (mm_type m))"
  "map_of (front_matter e m) ''scope'' = Some (JStr (mm_scope m))"
  "map_of (front_matter e m) ''tags'' = Some (JArr (map JStr (mm_tags m)))"
  "map_of (front_matter e m) ''importance'' = Some (JNum (Some (of_int (mm_importance m))))"
  "map_of (front_matter e m) ''confidence'' = Some (JNum (Some (mm_confidence m)))"
  "map_of (front_matter e m) ''trust'' = Some (JStr (mm_trust m))"
  "map_of (front_matter e m) ''created'' = Some (JStr (mm_createdAt m))"
  "map_of (front_matter e m) ''updated'' = Some (JStr (mm_updatedAt m))"
  by (simp_all add: front_matter_def)

lemma front_matter_optional:
  "map_of (front_matter e m) ''tenantId'' = (if truthy (mm_tenantId m) then map_option JStr (mm_tenantId m) else None)"
  "map_of (front_matter e m) ''projectId'' = (if truthy (mm_projectId m) then map_option JStr (mm_projectId m) else None)"
  "map_of (front_matter e m) ''userId'' = (if truthy (mm_userId m) then map_option JStr (mm_userId m) else None)"
  "map_of (front_matter e m) ''agentId'' = (if truthy (mm_agentId m) then map_option JStr (mm_agentId m) else None)"
  "map_of (front_matter e m) ''lastSeen'' = (if truthy (mm_lastSeen m) then map_option JStr (mm_lastSeen m) else None)"
  "map_of (front_matter e m) ''lastValidated'' = (if truthy (mm_lastValidated m) then map_option JStr (mm_lastValidated m) else None)"
  "map_of (front_matter e m) ''archivedAt'' = (if truthy (mm_archivedAt m) then map_option JStr (mm_archivedAt m) else None)"
  "map_of (front_matter e m) ''source'' = (if truthy (mm_source m) then map_option JStr (mm_source m) else None)"
  "map_of (front_matter e m) ''provenance'' = Some (provenance_json (mm_provenance m))"
  "map_of (front_matter e m) ''owner'' = (if truthy (mm_owner m) then map_option JStr (mm_owner m) else None)"
  "map_of (front_matter e m) ''access'' = (if truthy (mm_access m) then map_option JStr (mm_access m) else None)"
  "map_of (front_matter e m) ''meta'' = map_option JObj (mm_meta m)"
  by (simp_all add: front_matter_def lookup_simps del: map_of_append split: option.split)

lemma front_matter_rest:
  "map_of (front_matter e m) ''validFrom'' = (if truthy (mm_validFrom m) then map_option JStr (mm_validFrom m) else None)"
  "map_of (front_matter e m) ''validUntil'' = (if truthy (mm_validUntil m) then map_option JStr (mm_validUntil m) else None)"
  "map_of (front_matter e m) ''observedAt'' = (if truthy (mm_observedAt m) then map_option JStr (mm_observedAt m) else None)"
  "map_of (front_matter e m) ''supersededBy'' = (if truthy (mm_supersededBy m) then map_option JStr (mm_supersededBy m) else None)"
  "map_of (front_matter e m) ''retention'' = (if truthy (mm_retention m) then map_option JStr (mm_retention m) else None)"
  "map_of (front_matter e m) ''relations'' = (case mm_relations m of None \<Rightarrow> None | Some rs \<Rightarrow>
     if rs = [] then None else Some (JArr (map relation_json rs)))"
  "map_of (front_matter e m) ''related'' = None"
  "map_of (front_matter e m) ''embedding'' = (case mm_embedding m of None \<Rightarrow> None | Some xs \<Rightarrow>
     if xs = [] then None else Some (JStr (embedding_text e xs)))"
  by (simp_all add: front_matter_def lookup_simps del: map_of_append split: option.split)

lemmas front_matter_entries = front_matter_fixed front_matter_optional front_matter_rest

subsection \<open>The fields\<close>

lemma str_of_entry: "map_of meta k = Some (JStr s) \<Longrightarrow> str_of e meta k = Some s"
  by (simp add: str_of_def as_str_def)

lemma str_of_none: "map_of meta k = None \<Longrightarrow> str_of e meta k = None"
  by (simp add: str_of_def)

lemma str_of_optional:
  "map_of meta k = (if truthy v then map_option JStr v else None) \<Longrightarrow> str_of e meta k = keep_text v"
  by (cases v) (auto simp: str_of_def as_str_def keep_text_def truthy_def split: if_splits)

lemma keep_text_same: "v \<noteq> Some '''' \<Longrightarrow> keep_text v = v"
  by (cases v) (auto simp: keep_text_def truthy_def)

lemma keep_text_twice [simp]: "keep_text (keep_text v) = keep_text v"
  by (simp add: keep_text_def)

lemma date_of_optional:
  assumes "map_of meta k = (if truthy v then map_option JStr v else None)" "opt_valid (date_ok e) v"
  shows "date_of e meta k = v"
  using assms by (cases v) (auto simp: date_of_def str_of_def as_str_def date_ok_def opt_valid_def truthy_def)

lemma option_of_optional:
  assumes "map_of meta k = (if truthy v then map_option JStr v else None)" "some_in options v" "'''' \<notin> set options"
  shows "parse_option e meta k options = v"
  using assms by (cases v) (auto simp: parse_option_def str_of_def as_str_def some_in_def)

lemma labels_kept:
  assumes "subseq (map fst ls) ks" "distinct ks"
  shows "List.map_filter (\<lambda>k. map_option (Pair k) (map_of ls k)) ks = ls"
  using assms
proof (induction ks arbitrary: ls rule: list.induct)
  case Nil
  then have "ls = []" by (cases ls) (auto elim: list_emb.cases)
  then show ?case by (simp add: List.map_filter_def)
next
  case (Cons k ks)
  show ?case
  proof (cases "\<exists>v ls'. ls = (k, v) # ls'")
    case True
    then obtain v ls' where ls: "ls = (k, v) # ls'" by blast
    have sub: "subseq (map fst ls') ks" using Cons.prems(1) ls by (simp add: subseq_Cons2_iff)
    have "List.map_filter (\<lambda>i. map_option (Pair i) (map_of ls i)) ks
        = List.map_filter (\<lambda>i. map_option (Pair i) (map_of ls' i)) ks"
      unfolding List.map_filter_def using Cons.prems(2) ls by (auto intro!: map_cong filter_cong)
    then show ?thesis using Cons.IH [OF sub] Cons.prems(2) ls by (simp add: List.map_filter_def)
  next
    case False
    have "subseq (map fst ls) ks"
      using Cons.prems(1) False by (cases ls) (auto elim: list_emb.cases)
    moreover have "k \<notin> fst ` set ls"
      using calculation Cons.prems(2) by (auto elim!: list_emb_set)
    ultimately show ?thesis using Cons.IH Cons.prems(2)
      by (simp add: List.map_filter_def map_of_eq_None_iff)
  qed
qed

lemma map_of_labels: "map_of (map (\<lambda>(k, v). (k, JStr v)) ls) k = map_option JStr (map_of ls k)"
  by (induction ls) auto

lemma sourceType_not_label: "''sourceType'' \<notin> set provenance_labels"
  by (simp add: provenance_labels_def)

lemma distinct_labels: "distinct provenance_labels"
  by (simp add: provenance_labels_def)

lemma parse_labels_back:
  assumes "subseq (map fst ls) provenance_labels"
  shows "parse_labels ((''sourceType'', v) # map (\<lambda>(k, v). (k, JStr v)) ls) = Some ls"
proof -
  let ?es = "(''sourceType'', v) # map (\<lambda>(k, v). (k, JStr v)) ls"
  have look: "map_of ?es k = map_option JStr (map_of ls k)" if "k \<in> set provenance_labels" for k
    using that sourceType_not_label by (auto simp: map_of_labels)
  have "List.map_filter (\<lambda>k. case map_of ?es k of Some (JStr s) \<Rightarrow> Some (k, s) | _ \<Rightarrow> None) provenance_labels
      = List.map_filter (\<lambda>k. map_option (Pair k) (map_of ls k)) provenance_labels"
    unfolding List.map_filter_def
    by (rule map_cong [OF filter_cong]) (auto simp: look simp del: map_of.simps split: option.split)
  then show ?thesis using labels_kept [OF assms distinct_labels] look
    by (auto simp: parse_labels_def list_all_iff simp del: map_of.simps split: option.split)
qed

lemma parse_provenance_back:
  assumes "provenance_ok p" "map_of meta ''provenance'' = Some (provenance_json p)"
  shows "parse_provenance e meta = p"
  using assms parse_labels_back [of "pv_labels p"]
  by (simp add: parse_provenance_def provenance_json_def provenance_ok_def)

lemma map_filter_same: "(\<And>x. x \<in> set xs \<Longrightarrow> f (g x) = Some x) \<Longrightarrow> List.map_filter f (map g xs) = xs"
  by (induction xs) (auto simp: List.map_filter_def)

lemma parse_relation_back: "relation_ok r \<Longrightarrow> parse_relation e (relation_json r) = Some r"
  by (simp add: parse_relation_def relation_json_def relation_ok_def str_of_def as_str_def)

lemma split_on_join:
  assumes "xs \<noteq> []" "\<And>x. x \<in> set xs \<Longrightarrow> c \<notin> set x"
  shows "split_on c (join_with [c] xs) = xs"
proof -
  have app: "c \<notin> set x \<Longrightarrow> split_on c (x @ c # y) = x # split_on c y" for x y
    by (induction x) auto
  have one: "c \<notin> set x \<Longrightarrow> split_on c x = [x]" for x
    by (induction x) auto
  show ?thesis using assms
    by (induction xs rule: induct_list012) (auto simp: app one)
qed

lemma all_some_map: "(\<And>x. x \<in> set xs \<Longrightarrow> f x = Some (g x)) \<Longrightarrow> all_some (map f xs) = Some (map g xs)"
  by (induction xs) auto

lemma trim_no_space: "\<forall>c \<in> set s. \<not> is_js_space c \<Longrightarrow> trim s = s"
proof -
  have none: "\<forall>c \<in> set t. \<not> is_js_space c \<Longrightarrow> dropWhile is_js_space t = t" for t by (cases t) auto
  assume "\<forall>c \<in> set s. \<not> is_js_space c"
  then show ?thesis using none [of s] none [of "rev s"] by (simp add: trim_def)
qed

lemma strip_no_brackets:
  assumes "s \<noteq> ''''" "hd s \<noteq> CHR ''[''" "last s \<noteq> CHR '']''"
  shows "strip_brackets s = s"
  using assms by (cases s) (auto simp: strip_brackets_def Let_def)

lemma join_with_ends:
  assumes "xs \<noteq> []" "\<And>x. x \<in> set xs \<Longrightarrow> x \<noteq> ''''"
  shows "join_with sep xs \<noteq> '''' \<and> hd (join_with sep xs) = hd (hd xs) \<and> last (join_with sep xs) = last (last xs)"
  using assms by (induction xs rule: induct_list012) auto

lemma parse_embedding_back:
  assumes entry: "map_of meta ''embedding'' = (case v of None \<Rightarrow> None | Some xs \<Rightarrow>
      if xs = [] then None else Some (JStr (embedding_text e xs)))"
    and ok: "v \<noteq> Some []" "\<forall>q \<in> set (or_default [] v). number_text_ok e q"
  shows "parse_embedding e meta = v"
proof (cases v)
  case None
  then show ?thesis using entry by (simp add: parse_embedding_def)
next
  case (Some xs)
  let ?ts = "map (te_num e) xs"
  have xs: "xs \<noteq> []" using Some ok(1) by simp
  have num: "number_text_ok e q" if "q \<in> set xs" for q using that ok(2) Some by (simp add: or_default_def)
  have ends: "embedding_text e xs \<noteq> ''''" "hd (embedding_text e xs) = hd (hd ?ts)"
      "last (embedding_text e xs) = last (last ?ts)"
  proof -
    have "?ts \<noteq> []" "\<And>x. x \<in> set ?ts \<Longrightarrow> x \<noteq> ''''" using xs num by (auto simp: number_text_ok_def)
    from join_with_ends [OF this, of "'',''"] show "embedding_text e xs \<noteq> ''''"
      "hd (embedding_text e xs) = hd (hd ?ts)" "last (embedding_text e xs) = last (last ?ts)"
      unfolding embedding_text_def by blast+
  qed
  have "hd (hd ?ts) \<noteq> CHR ''[''" "last (last ?ts) \<noteq> CHR '']''"
    using num [of "hd xs"] num [of "last xs"] xs by (auto simp: hd_map last_map number_text_ok_def)
  then have strip: "strip_brackets (embedding_text e xs) = embedding_text e xs"
    using ends strip_no_brackets by metis
  have "split_on (CHR '','') (embedding_text e xs) = ?ts"
    unfolding embedding_text_def using xs num by (intro split_on_join) (auto simp: number_text_ok_def)
  moreover have "all_some (map (\<lambda>t. te_number e (trim t)) ?ts) = Some xs"
    using all_some_map [of xs "\<lambda>q. te_number e (trim (te_num e q))" "\<lambda>q. q"] num trim_no_space
    by (auto simp: number_text_ok_def comp_def)
  ultimately show ?thesis using entry Some xs strip by (simp add: parse_embedding_def)
qed

lemma parse_relations_back:
  assumes "map_of meta ''relations'' = (case v of None \<Rightarrow> None | Some rs \<Rightarrow>
      if rs = [] then None else Some (JArr (map relation_json rs)))"
    and "map_of meta ''related'' = None" "opt_valid (\<lambda>rs. rs \<noteq> [] \<and> list_all relation_ok rs) v"
  shows "parse_relations e meta = v"
proof (cases v)
  case None
  then show ?thesis using assms(1,2) by (simp add: parse_relations_def some_if_any_def Let_def)
next
  case (Some rs)
  then have "List.map_filter (parse_relation e) (map relation_json rs) = rs" "rs \<noteq> []"
    using assms(3) by (auto intro!: map_filter_same parse_relation_back simp: opt_valid_def list_all_iff)
  then show ?thesis using assms(1) Some by (simp add: parse_relations_def some_if_any_def)
qed

lemma parse_tags_back:
  "map_of meta ''tags'' = Some (JArr (map JStr ts)) \<Longrightarrow> '''' \<notin> set ts \<Longrightarrow> parse_tags e meta = ts"
  by (auto simp: parse_tags_def as_str_def or_default_def comp_def filter_id_conv)

lemma js_round_int [simp]: "js_round (of_int n) = n"
  unfolding js_round_def by (rule floor_unique) simp_all

lemma is_integer_simps [simp]: "is_integer (of_int n)" "is_integer (of_nat k)" "is_integer (numeral w)"
  by (simp_all add: is_integer_def floor_of_nat)

lemma tenant_field_back:
  "map_of meta k = (if truthy v then map_option JStr v else None) \<Longrightarrow> opt_valid is_valid_tenant_id v \<Longrightarrow>
   tenant_field_ok e meta k"
  by (cases v) (auto simp: tenant_field_ok_def str_of_def as_str_def opt_valid_def truthy_def split: if_splits)

lemma valid_id_not_empty: "opt_valid is_valid_tenant_id v \<Longrightarrow> v \<noteq> Some ''''"
  by (auto simp: opt_valid_def is_valid_tenant_id_def)

lemma version_back:
  assumes "reads_back e m"
  shows "parse_version e (front_matter e m) =
    Some (int (if truthy (mm_tenantId m) then tenant_schema_version else schema_version))"
  using assms
  by (simp add: parse_version_def front_matter_entries as_str_def reads_back_def number_text_ok_def
      tenant_schema_version_def schema_version_def is_integer_def)

lemma tenant_back:
  assumes "memory_options_ok e m"
  shows "parse_tenant_ok e (int (if truthy (mm_tenantId m) then tenant_schema_version else schema_version))
    (front_matter e m)"
proof -
  have "case str_of e (front_matter e m) ''tenantId'' of None \<Rightarrow> False | Some s \<Rightarrow> is_valid_tenant_id s"
    if "truthy (mm_tenantId m)"
    using assms that
    by (auto simp: str_of_optional [OF front_matter_optional(1)] keep_text_def memory_options_ok_def opt_valid_def
        truthy_def split: option.splits)
  then show ?thesis using assms
    by (simp add: parse_tenant_ok_def memory_options_ok_def tenant_field_back front_matter_entries
        tenant_schema_version_def schema_version_def)
qed

lemma head_back:
  assumes "memory_core_ok e m"
  shows "parse_id_ok e (front_matter e m)"
    "text_or e (front_matter e m) ''type'' ''fact'' = mm_type m"
    "text_or e (front_matter e m) ''scope'' ''global'' = mm_scope m"
  using assms
  by (simp_all add: parse_id_ok_def text_or_def str_of_def as_str_def front_matter_entries memory_core_ok_def
      or_default_def)

lemma core_back:
  assumes "memory_core_ok e m"
  shows "parse_tags e (front_matter e m) = mm_tags m"
    "parse_importance e (front_matter e m) = mm_importance m"
    "parse_provenance e (front_matter e m) = mm_provenance m"
    "parse_confidence e (front_matter e m) p = mm_confidence m"
    "parse_trust e (front_matter e m) p = mm_trust m"
    "date_of e (front_matter e m) ''created'' = Some (mm_createdAt m)"
    "date_of e (front_matter e m) ''updated'' = Some (mm_updatedAt m)"
    "parse_revision e (front_matter e m) = mm_version m"
proof -
  note ok = assms [unfolded memory_core_ok_def]
  show "parse_tags e (front_matter e m) = mm_tags m" using ok by (simp add: parse_tags_back front_matter_entries)
  show "parse_importance e (front_matter e m) = mm_importance m"
    using ok by (simp add: parse_importance_def front_matter_entries js_number_def)
  show "parse_provenance e (front_matter e m) = mm_provenance m"
    using ok by (simp add: parse_provenance_back front_matter_entries)
  show "parse_confidence e (front_matter e m) p = mm_confidence m"
    using ok by (simp add: parse_confidence_def front_matter_entries js_number_def)
  show "parse_trust e (front_matter e m) p = mm_trust m"
    using ok by (simp add: parse_trust_def str_of_def as_str_def front_matter_entries)
  show "date_of e (front_matter e m) ''created'' = Some (mm_createdAt m)"
    "date_of e (front_matter e m) ''updated'' = Some (mm_updatedAt m)"
    using ok by (simp_all add: date_of_def str_of_def as_str_def front_matter_entries date_ok_def)
  show "parse_revision e (front_matter e m) = mm_version m"
    using ok by (simp add: parse_revision_def front_matter_entries js_number_def)
qed

lemma options_back:
  assumes "memory_options_ok e m"
  shows "parse_option e (front_matter e m) ''owner'' memory_owners = mm_owner m"
    "parse_option e (front_matter e m) ''access'' memory_accesses = mm_access m"
    "parse_option e (front_matter e m) ''retention'' retention_modes = mm_retention m"
    "keep_text (str_of e (front_matter e m) ''tenantId'') = mm_tenantId m"
    "keep_text (str_of e (front_matter e m) ''projectId'') = mm_projectId m"
    "keep_text (str_of e (front_matter e m) ''userId'') = mm_userId m"
    "keep_text (str_of e (front_matter e m) ''agentId'') = mm_agentId m"
    "keep_text (str_of e (front_matter e m) ''supersededBy'') = mm_supersededBy m"
    "str_of e (front_matter e m) ''source'' = mm_source m"
    "parse_relations e (front_matter e m) = mm_relations m"
proof -
  note ok = assms [unfolded memory_options_ok_def]
  show "parse_option e (front_matter e m) ''owner'' memory_owners = mm_owner m"
    by (rule option_of_optional [OF front_matter_optional(10)]) (use ok in \<open>auto simp: memory_owners_def\<close>)
  show "parse_option e (front_matter e m) ''access'' memory_accesses = mm_access m"
    by (rule option_of_optional [OF front_matter_optional(11)]) (use ok in \<open>auto simp: memory_accesses_def\<close>)
  show "parse_option e (front_matter e m) ''retention'' retention_modes = mm_retention m"
  proof (cases "mm_retention m")
    case None
    then show ?thesis by (simp add: parse_option_def str_of_def front_matter_entries)
  next
    case (Some r)
    show ?thesis
      by (rule option_of_optional [OF front_matter_rest(5)])
        (use ok Some in \<open>auto simp: some_in_def retention_modes_def opt_valid_def\<close>)
  qed
  note opt = str_of_optional [of "front_matter e m", OF front_matter_optional(1)]
    str_of_optional [OF front_matter_optional(2)] str_of_optional [OF front_matter_optional(3)]
    str_of_optional [OF front_matter_optional(4)] str_of_optional [OF front_matter_rest(4)]
    str_of_optional [OF front_matter_optional(8)]
  show "keep_text (str_of e (front_matter e m) ''tenantId'') = mm_tenantId m"
    "keep_text (str_of e (front_matter e m) ''projectId'') = mm_projectId m"
    "keep_text (str_of e (front_matter e m) ''userId'') = mm_userId m"
    "keep_text (str_of e (front_matter e m) ''agentId'') = mm_agentId m"
    "keep_text (str_of e (front_matter e m) ''supersededBy'') = mm_supersededBy m"
    "str_of e (front_matter e m) ''source'' = mm_source m"
    using ok by (simp_all add: opt keep_text_same valid_id_not_empty)
  show "parse_relations e (front_matter e m) = mm_relations m"
    by (rule parse_relations_back [OF front_matter_rest(6,7)]) (use ok in blast)
qed

lemma dates_back:
  assumes "memory_options_ok e m"
  shows "date_of e (front_matter e m) ''validFrom'' = mm_validFrom m"
    "date_of e (front_matter e m) ''validUntil'' = mm_validUntil m"
    "date_of e (front_matter e m) ''observedAt'' = mm_observedAt m"
    "date_of e (front_matter e m) ''lastSeen'' = mm_lastSeen m"
    "date_of e (front_matter e m) ''lastValidated'' = mm_lastValidated m"
    "date_of e (front_matter e m) ''archivedAt'' = mm_archivedAt m"
  using assms
  by (simp_all add: memory_options_ok_def date_of_optional [OF front_matter_rest(1)]
      date_of_optional [OF front_matter_rest(2)] date_of_optional [OF front_matter_rest(3)]
      date_of_optional [OF front_matter_optional(5)] date_of_optional [OF front_matter_optional(6)]
      date_of_optional [OF front_matter_optional(7)])

lemma date_not_empty: "opt_valid (date_ok e) v \<Longrightarrow> v \<noteq> Some ''''"
  by (auto simp: opt_valid_def date_ok_def)

lemma memory_back:
  assumes "memory_ok e m" "reads_back e m"
  shows "memory_of e (mm_id m) (front_matter e m) (mm_content m) = m\<lparr>mm_sensitivity := None, mm_legalHold := None\<rparr>"
proof -
  have core: "memory_core_ok e m" and opts: "memory_options_ok e m" using assms(1) by (simp_all add: memory_ok_def)
  have emb: "parse_embedding e (front_matter e m) = mm_embedding m"
    by (rule parse_embedding_back [OF front_matter_rest(8)])
      (use opts assms(2) in \<open>simp_all add: memory_options_ok_def reads_back_def\<close>)
  have own: "Some (or_default ''global'' (mm_owner m)) = mm_owner m"
    "Some (or_default ''global'' (mm_access m)) = mm_access m"
    using opts by (auto simp: memory_options_ok_def some_in_def or_default_def split: option.splits)
  have dates: "keep_text (mm_validFrom m) = mm_validFrom m" "keep_text (mm_validUntil m) = mm_validUntil m"
    "keep_text (mm_observedAt m) = mm_observedAt m"
    using opts date_not_empty by (auto simp: memory_options_ok_def intro!: keep_text_same)
  have meta: "(case map_of (front_matter e m) ''meta'' of Some (JObj f) \<Rightarrow> Some f | _ \<Rightarrow> None) = mm_meta m"
    by (cases "mm_meta m") (simp_all add: front_matter_entries)
  show ?thesis
    by (rule memory.equality)
      (simp_all add: memory_of_def core_back [OF core] head_back [OF core] options_back [OF opts] dates_back [OF opts]
        emb own dates meta or_default_simps)
qed

lemma parse_render:
  assumes "memory_ok e m" "reads_back e m"
  shows "parse e (mm_id m) (render e m) = Some (m\<lparr>mm_sensitivity := None, mm_legalHold := None\<rparr>)"
proof -
  have core: "memory_core_ok e m" and opts: "memory_options_ok e m" using assms(1) by (simp_all add: memory_ok_def)
  have "read_meta e (yaml_text e m) = Some (front_matter e m)"
    using assms(2) by (simp add: read_meta_def reads_back_def)
  moreover have "trim (mm_content m @ nl) = mm_content m" "mm_content m \<noteq> ''''"
    using core trim_newline [of "mm_content m"] by (simp_all add: memory_core_ok_def)
  moreover have "mm_type m \<in> set memory_types" "scope_readable (mm_scope m)"
    using core by (simp_all add: memory_core_ok_def)
  ultimately show ?thesis
    by (simp add: parse_def parse_meta_def split_render [OF assms(2)] version_back [OF assms(2)] tenant_back [OF opts]
        head_back [OF core] memory_back [OF assms])
qed

text \<open>C30. What \<open>render\<close> writes, \<open>parse\<close> reads back: a well-formed memory returns from its file unchanged,
  except that its sensitivity band and its legal hold are gone, which the file never had.\<close>

theorem file_round_trip:
  assumes "memory_ok e m" "reads_back e m"
  shows "parse e (mm_id m) (render e m) = Some (m\<lparr>mm_sensitivity := None, mm_legalHold := None\<rparr>)"
  using assms by (rule parse_render)

definition sample_stored :: memory where
  "sample_stored = \<lparr>mm_id = ''0a1b2c3d'', mm_type = ''fact'', mm_content = ''The sky is blue'', mm_scope = ''project/x'',
     mm_tags = [''sky''], mm_importance = 3, mm_confidence = 1, mm_trust = ''trusted'',
     mm_provenance = \<lparr>pv_sourceType = ''agent'', pv_labels = [(''agentId'', ''a1''), (''runId'', ''r'')]\<rparr>,
     mm_owner = Some ''agent'', mm_access = Some ''shared'', mm_tenantId = Some ''acme'', mm_projectId = None,
     mm_userId = Some ''u1'', mm_agentId = None, mm_sensitivity = Some ''secret'', mm_legalHold = Some True,
     mm_meta = None, mm_validFrom = None, mm_validUntil = Some ''2026'', mm_observedAt = None, mm_supersededBy = None,
     mm_createdAt = ''2025'', mm_updatedAt = ''2025'', mm_lastSeen = None, mm_lastValidated = None,
     mm_archivedAt = None, mm_version = 1, mm_source = None, mm_retention = Some ''pinned'',
     mm_relations = Some [\<lparr>rl_id = ''x1'', rl_kind = ''supports''\<rparr>], mm_embedding = Some [3, 4]\<rparr>"

definition sample_text_env :: "memory \<Rightarrow> text_env" where
  "sample_text_env m = (let e = \<lparr>te_num = (\<lambda>q. dec (nat \<lfloor>q\<rfloor>)), te_number = (\<lambda>s. Some (of_nat (undec_from 0 s))),
     te_date = Some, te_epoch = ''1970'', te_yaml = (\<lambda>es. ''yaml''), te_yaml_parse = (\<lambda>s. None)\<rparr>
     in e\<lparr>te_yaml_parse := (\<lambda>s. Some (JObj (front_matter e m)))\<rparr>)"

lemma front_matter_env: "te_num e = te_num e' \<Longrightarrow> front_matter e m = front_matter e' m"
  by (cases "mm_embedding m") (simp_all add: front_matter_def embedding_text_def)

lemma sample_reads_back:
  assumes "set (or_default [] (mm_embedding m)) \<subseteq> {3, 4}"
  shows "reads_back (sample_text_env m) m"
proof -
  let ?e = "sample_text_env m"
  have "te_yaml_parse ?e s = Some (JObj (front_matter ?e m))" for s
    by (simp add: sample_text_env_def Let_def) (rule front_matter_env, simp)
  moreover have "number_text_ok ?e q = number_text_ok (sample_text_env sample_stored) q" for q
    by (simp add: number_text_ok_def sample_text_env_def Let_def)
  moreover have "number_text_ok (sample_text_env sample_stored) 3" "number_text_ok (sample_text_env sample_stored) 4"
    by code_simp+
  moreover have "yaml_text ?e m = ''yaml''"
    by (simp add: yaml_text_def sample_text_env_def trim_end_def is_js_space_def in_range_def code_of_def Let_def)
  moreover have "\<forall>i < 4. take 5 (drop i (''yaml'' @ marker)) \<noteq> marker"
    by (simp add: marker_def nl_def less_Suc_eq numeral_eq_Suc all_conj_distrib)
  ultimately show ?thesis using assms by (auto simp: reads_back_def)
qed

theorem file_round_trip_witness:
  "parse (sample_text_env sample_stored) ''0a1b2c3d'' (render (sample_text_env sample_stored) sample_stored)
   = Some (sample_stored\<lparr>mm_sensitivity := None, mm_legalHold := None\<rparr>)"
proof -
  have "memory_ok (sample_text_env sample_stored) sample_stored" by code_simp
  moreover have "reads_back (sample_text_env sample_stored) sample_stored"
    by (rule sample_reads_back) (simp add: sample_stored_def or_default_def)
  ultimately show ?thesis using file_round_trip [of "sample_text_env sample_stored" sample_stored]
    by (simp add: sample_stored_def)
qed

text \<open>A memory the input schema lets through can be lost: with content of white space only, an empty scope
  or a scope with a backslash, the file that is written is skipped by every later read.\<close>

theorem accepted_memory_unreadable:
  assumes "reads_back e m" "mm_content m \<noteq> ''''" "is_safe_scope (mm_scope m)"
    and "list_all is_js_space (mm_content m) \<or> mm_scope m = '''' \<or> CHR 0x5C \<in> set (mm_scope m)"
  shows "parse e base (render e m) = None"
proof -
  have "read_meta e (yaml_text e m) = Some (front_matter e m)"
    using assms(1) by (simp add: read_meta_def reads_back_def)
  moreover have "text_or e (front_matter e m) ''scope'' ''global'' = mm_scope m"
    by (simp add: text_or_def str_of_def as_str_def front_matter_entries or_default_def)
  moreover have "trim (mm_content m) = ''''" if "list_all is_js_space (mm_content m)"
  proof -
    have "dropWhile is_js_space (mm_content m) = []" using that by (simp add: list_all_iff dropWhile_eq_Nil_conv)
    then show ?thesis by (simp only: trim_def rev.simps dropWhile.simps)
  qed
  then have "trim (mm_content m @ nl) = '''' \<or> \<not> scope_readable (mm_scope m)"
    using assms(4) trim_newline [of "mm_content m"] by (auto simp: scope_readable_def)
  with calculation show ?thesis
    by (auto simp: parse_def parse_meta_def split_render [OF assms(1)] split: option.split)
qed

definition sample_lost :: memory where
  "sample_lost = sample_stored\<lparr>mm_scope := ''C:'' @ [CHR 0x5C] @ ''work''\<rparr>"

theorem accepted_memory_unreadable_witness:
  "parse (sample_text_env sample_lost) ''0a1b2c3d'' (render (sample_text_env sample_lost) sample_lost) = None"
proof (rule accepted_memory_unreadable)
  show "reads_back (sample_text_env sample_lost) sample_lost"
    by (rule sample_reads_back) (simp add: sample_lost_def sample_stored_def or_default_def)
qed (simp_all add: sample_lost_def sample_stored_def is_safe_scope_def safe_scope_text_def is_path_char_def is_id_char_def
    char_class_defs in_range_def code_of_def)

end
