(* ===== verification/FileStore.thy ===== *)
theory FileStore
  imports FrontMatter
begin

text \<open>
  \<open>src/store.ts\<close>: the file-backed memory store. A path is the list of its segments from the root of the
  file system, the disk a listing of paths with their texts in the order directories are read. Every
  operation is the body the code runs under its lock; it returns its answer, or the error it throws, and
  the disk it leaves, also when it throws. The parse cache is a theory of its own (\<open>ParseCache\<close>), as are
  the texts (\<open>FrontMatter\<close>). Encryption at rest, symbolic links, failing system calls and the lock file are
  not modelled, nor the limit of 16 MB on the text of the import journal.
\<close>

section \<open>Paths\<close>

type_synonym path = "string list"

text \<open>\<open>path.resolve\<close> of the segments below the root of the file system.\<close>

fun resolve_onto :: "path \<Rightarrow> string list \<Rightarrow> path" where
  "resolve_onto acc [] = acc"
| "resolve_onto acc (s # ss) =
     (if s = '''' \<or> s = ''.'' then resolve_onto acc ss
      else if s = ''..'' then resolve_onto (butlast acc) ss
      else resolve_onto (acc @ [s]) ss)"

definition resolve :: "string list \<Rightarrow> path" where
  "resolve ss = resolve_onto [] ss"

definition split_path :: "string \<Rightarrow> string list" where
  "split_path s = split_on (CHR ''/'') s"

definition below :: "path \<Rightarrow> path \<Rightarrow> bool" where
  "below d p \<longleftrightarrow> take (length d) p = d \<and> length d < length p"

definition md :: string where "md = ''.md''"

text \<open>\<open>path.basename(f, ".md")\<close>.\<close>

definition base_name :: "path \<Rightarrow> string" where
  "base_name p =
     (let n = (if p = [] then '''' else last p)
      in if length n > 3 \<and> drop (length n - 3) n = md then take (length n - 3) n else n)"

definition is_md :: "path \<Rightarrow> bool" where
  "is_md p \<longleftrightarrow> p \<noteq> [] \<and> length (last p) \<ge> 3 \<and> drop (length (last p) - 3) (last p) = md"

definition tenant_root :: "path \<Rightarrow> string \<Rightarrow> path result" where
  "tenant_root home org = and_then (tenant_directory_key org) (\<lambda>k. Inr (home @ [''tenants'', k]))"

definition base_of :: "path \<Rightarrow> tenant_filter option \<Rightarrow> path result" where
  "base_of home tenant = (case tenant of None \<Rightarrow> Inr home | Some f \<Rightarrow> tenant_root home (tf_organizationId f))"

definition memory_dir :: "memory \<Rightarrow> string list" where
  "memory_dir m = (if truthy (mm_archivedAt m) then [''archived''] else []) @
     (if mm_scope m = ''global'' then [''global''] else ''scopes'' # split_path (safe_scope_text (mm_scope m)))"

definition file_for :: "path \<Rightarrow> memory \<Rightarrow> path result" where
  "file_for home m =
     and_then (if truthy (mm_tenantId m) then tenant_root home (or_default '''' (mm_tenantId m)) else Inr home) (\<lambda>base.
       let p = resolve (base @ memory_dir m @ split_path (mm_id m @ md))
       in if below home p then Inr p else Inl SCOPE_ESCAPES_ROOT)"

section \<open>The disk\<close>

type_synonym disk = "(path, string) js_map"

text \<open>A snapshot in \<open>.history/<id>/\<close>: its name, its text and the reason recorded beside it.\<close>

record snapshot =
  sn_name :: string
  sn_text :: string
  sn_reason :: "string option"

record file_store =
  fs_disk :: disk
  fs_history :: "(path, snapshot list) js_map"
  fs_journal :: "path list option"

definition walk :: "path list \<Rightarrow> disk \<Rightarrow> path list" where
  "walk dirs d = concat (map (\<lambda>dir. filter (\<lambda>p. below dir p \<and> is_md p) (map fst d)) dirs)"

definition active_dirs :: "path \<Rightarrow> path list" where
  "active_dirs base = [base @ [''global''], base @ [''scopes'']]"

definition find_file :: "path \<Rightarrow> string \<Rightarrow> disk \<Rightarrow> path option" where
  "find_file base i d = find (\<lambda>p. base_name p = i) (walk (active_dirs base @ [base @ [''archived'']]) d)"

definition read_memory :: "text_env \<Rightarrow> path \<Rightarrow> disk \<Rightarrow> memory option" where
  "read_memory e p d = Option.bind (map_of d p) (parse e (base_name p))"

definition write_memory :: "text_env \<Rightarrow> path \<Rightarrow> memory \<Rightarrow> file_store \<Rightarrow> file_store" where
  "write_memory e p m s = s\<lparr>fs_disk := AList.update p (render e m) (fs_disk s)\<rparr>"

definition unlink_path :: "path \<Rightarrow> file_store \<Rightarrow> file_store" where
  "unlink_path p s = s\<lparr>fs_disk := AList.delete p (fs_disk s)\<rparr>"

definition visible :: "tenant_filter option \<Rightarrow> memory \<Rightarrow> bool" where
  "visible tenant m \<longleftrightarrow> (case tenant of None \<Rightarrow> True | Some f \<Rightarrow> in_tenant m f)"

section \<open>Operations\<close>

text \<open>An operation's answer and the store it leaves. A step whose error leaves the store as it is: \<open>or_fail\<close>.\<close>

type_synonym 'a outcome = "'a result \<times> file_store"

definition or_fail :: "'a result \<Rightarrow> file_store \<Rightarrow> ('a \<Rightarrow> 'b outcome) \<Rightarrow> 'b outcome" where
  "or_fail r s k = (case r of Inl x \<Rightarrow> (Inl x, s) | Inr v \<Rightarrow> k v)"

definition store_get :: "text_env \<Rightarrow> path \<Rightarrow> string \<Rightarrow> tenant_filter option \<Rightarrow> file_store \<Rightarrow> memory option result" where
  "store_get e home i tenant s =
     and_then (base_of home tenant) (\<lambda>base.
       case find_file base i (fs_disk s) of
         None \<Rightarrow> Inr None
       | Some p \<Rightarrow>
           (case read_memory e p (fs_disk s) of
              None \<Rightarrow> Inr None
            | Some m \<Rightarrow> Inr (if visible tenant m then Some m else None)))"

definition store_all :: "text_env \<Rightarrow> path \<Rightarrow> bool \<Rightarrow> tenant_filter option \<Rightarrow> file_store \<Rightarrow> memory list result" where
  "store_all e home includeArchived tenant s =
     and_then (base_of home tenant) (\<lambda>base.
       let dirs = active_dirs base @
             (if includeArchived then [base @ [''archived'', ''global''], base @ [''archived'', ''scopes'']] else [])
       in Inr (filter (visible tenant) (List.map_filter (\<lambda>p. read_memory e p (fs_disk s)) (walk dirs (fs_disk s)))))"

definition input_provenance :: "store_input \<Rightarrow> provenance" where
  "input_provenance i = \<lparr>pv_sourceType = or_default ''manual'' (si_sourceType i),
     pv_labels = filter (\<lambda>(k, v). v \<noteq> '''') (si_labels i)\<rparr>"

text \<open>The memory a store writes; \<open>now\<close> and \<open>i\<close> are the clock and the id generator.\<close>

definition new_memory ::
  "string option \<Rightarrow> string \<Rightarrow> string \<Rightarrow> store_input \<Rightarrow> rat list option \<Rightarrow> tenant_filter option \<Rightarrow> memory" where
  "new_memory configured now i inp emb tenant =
     (let p = input_provenance inp in
      \<lparr>mm_id = i, mm_type = si_type inp, mm_content = si_content inp, mm_scope = si_scope inp, mm_tags = si_tags inp,
       mm_importance = si_importance inp,
       mm_confidence = or_default (if pv_sourceType p = ''conversation'' then 7 / 10 else 1) (si_confidence inp),
       mm_trust = or_default (default_trust p) (si_trust inp), mm_provenance = p,
       mm_owner = Some (or_default (default_owner p) (si_owner inp)),
       mm_access = Some (or_default (default_access configured) (si_access inp)),
       mm_tenantId = map_option tf_organizationId tenant,
       mm_projectId = keep_text (Option.bind tenant tf_projectId),
       mm_userId = keep_text (Option.bind tenant tf_userId),
       mm_agentId = keep_text (Option.bind tenant tf_agentId),
       mm_sensitivity = None, mm_legalHold = None, mm_meta = si_meta inp,
       mm_validFrom = keep_text (si_validFrom inp), mm_validUntil = keep_text (si_validUntil inp),
       mm_observedAt = keep_text (si_observedAt inp), mm_supersededBy = keep_text (si_supersededBy inp),
       mm_createdAt = now, mm_updatedAt = now, mm_lastSeen = None, mm_lastValidated = None, mm_archivedAt = None,
       mm_version = 1, mm_source = si_source inp, mm_retention = si_retention inp, mm_relations = None,
       mm_embedding = emb\<rparr>)"

definition store_locked ::
  "text_env \<Rightarrow> path \<Rightarrow> string option \<Rightarrow> string \<Rightarrow> string \<Rightarrow> store_input \<Rightarrow> rat list option \<Rightarrow> tenant_filter option \<Rightarrow>
    file_store \<Rightarrow> memory outcome" where
  "store_locked e home configured now i inp emb tenant s =
     (let m = new_memory configured now i inp emb tenant
      in or_fail (file_for home m) s (\<lambda>p. (Inr m, write_memory e p m s)))"

definition store_forget :: "text_env \<Rightarrow> path \<Rightarrow> string \<Rightarrow> tenant_filter option \<Rightarrow> file_store \<Rightarrow> bool outcome" where
  "store_forget e home i tenant s =
     or_fail (base_of home tenant) s (\<lambda>base.
       case find_file base i (fs_disk s) of
         None \<Rightarrow> (Inr False, s)
       | Some p \<Rightarrow>
           (case read_memory e p (fs_disk s) of
              None \<Rightarrow> (Inr False, s)
            | Some m \<Rightarrow> if \<not> visible tenant m then (Inr False, s) else (Inr True, unlink_path p s)))"

text \<open>Writing at the new place and unlinking the old one; a missing old file is a filesystem error.\<close>

definition move_memory :: "text_env \<Rightarrow> path \<Rightarrow> path \<Rightarrow> memory \<Rightarrow> file_store \<Rightarrow> memory option outcome" where
  "move_memory e old new m s =
     (let s = write_memory e new m s
      in if map_of (fs_disk s) old = None then (Inl IO_ERROR, s) else (Inr (Some m), unlink_path old s))"

definition store_archive ::
  "text_env \<Rightarrow> path \<Rightarrow> string \<Rightarrow> string \<Rightarrow> tenant_filter option \<Rightarrow> file_store \<Rightarrow> memory option outcome" where
  "store_archive e home now i tenant s =
     or_fail (store_get e home i tenant s) s (\<lambda>found.
       case found of
         None \<Rightarrow> (Inr None, s)
       | Some m \<Rightarrow>
           if truthy (mm_archivedAt m) then (Inr None, s)
           else
             (let updated = m\<lparr>mm_archivedAt := Some now, mm_updatedAt := now\<rparr>
              in or_fail (file_for home m) s (\<lambda>old. or_fail (file_for home updated) s (\<lambda>new.
                   if old = new then (Inr None, s) else move_memory e old new updated s))))"

definition store_revive ::
  "text_env \<Rightarrow> path \<Rightarrow> string \<Rightarrow> string \<Rightarrow> tenant_filter option \<Rightarrow> file_store \<Rightarrow> memory option outcome" where
  "store_revive e home now i tenant s =
     or_fail (store_get e home i tenant s) s (\<lambda>found.
       case found of
         None \<Rightarrow> (Inr None, s)
       | Some m \<Rightarrow>
           if \<not> truthy (mm_archivedAt m) then (Inr None, s)
           else
             (let updated = m\<lparr>mm_archivedAt := None, mm_lastSeen := Some now, mm_updatedAt := now\<rparr>
              in or_fail (file_for home m) s (\<lambda>old. or_fail (file_for home updated) s (\<lambda>new.
                   move_memory e old new updated s))))"

subsection \<open>Update\<close>

definition pad4 :: "nat \<Rightarrow> string" where
  "pad4 n = replicate (4 - length (dec n)) (CHR ''0'') @ dec n"

text \<open>The number at the end of a name \<open>...-<seq>.md\<close>.\<close>

definition sequence_of :: "string \<Rightarrow> nat option" where
  "sequence_of name =
     (let stem = (if length name \<ge> 3 \<and> drop (length name - 3) name = md then take (length name - 3) name else '''');
          digits = rev (takeWhile is_digit (rev stem));
          before = take (length stem - length digits) stem
      in if digits \<noteq> '''' \<and> before \<noteq> '''' \<and> last before = CHR ''-'' then Some (undec_from 0 digits) else None)"

definition next_sequence :: "string list \<Rightarrow> nat" where
  "next_sequence names = foldr (\<lambda>n acc. max acc (Suc n)) (List.map_filter sequence_of names) 0"

definition name_le :: "snapshot \<Rightarrow> snapshot \<Rightarrow> bool" where
  "name_le a b = bytes_le (sn_name a) (sn_name b)"

text \<open>\<open>snapshotHistory\<close> with the configured limit and the clock in milliseconds.\<close>

definition snapshot_history :: "int \<Rightarrow> nat \<Rightarrow> path \<Rightarrow> string \<Rightarrow> string option \<Rightarrow> file_store \<Rightarrow> file_store" where
  "snapshot_history limit ms dir text reason s =
     (if limit \<le> 0 then s
      else
        (let existing = or_default [] (map_of (fs_history s) dir);
             name = dec ms @ ''-'' @ pad4 (next_sequence (map sn_name existing)) @ md;
             entry = \<lparr>sn_name = name, sn_text = text, sn_reason = keep_text reason\<rparr>;
             sorted = sort_by name_le (existing @ [entry])
         in s\<lparr>fs_history := AList.update dir (drop (length sorted - nat limit) sorted) (fs_history s)\<rparr>))"

definition history_dir :: "path \<Rightarrow> path \<Rightarrow> path" where
  "history_dir base p = base @ [''.history'', base_name p]"

definition store_update ::
  "text_env \<Rightarrow> path \<Rightarrow> int \<Rightarrow> nat \<Rightarrow> string \<Rightarrow> memory \<Rightarrow> nat option \<Rightarrow> string option \<Rightarrow> tenant_filter option \<Rightarrow>
    file_store \<Rightarrow> memory outcome" where
  "store_update e home limit ms now m expected reason tenant s =
     (if \<not> visible tenant m then (Inl NOT_FOUND, s)
      else
        or_fail (file_for home m) s (\<lambda>target.
        or_fail (base_of home tenant) s (\<lambda>base.
          let place = (if map_of (fs_disk s) target \<noteq> None then Some target else find_file base (mm_id m) (fs_disk s));
              current = Option.bind place (\<lambda>p. read_memory e p (fs_disk s))
          in case (place, current) of
               (Some p, Some c) \<Rightarrow>
                 if truthy (mm_tenantId m) \<and> tenant = None \<or> \<not> visible tenant c then (Inl NOT_FOUND, s)
                 else if expected \<noteq> None \<and> expected \<noteq> Some (mm_version c) then (Inl CONFLICT, s)
                 else
                   (let updated = m\<lparr>mm_version := mm_version c + 1, mm_updatedAt := now\<rparr>;
                        s1 = (if mm_content c \<noteq> mm_content m
                              then snapshot_history limit ms (history_dir base p)
                                     (or_default '''' (map_of (fs_disk s) p)) reason s
                              else s);
                        s2 = write_memory e target updated s1;
                        s3 = (if p \<noteq> target then unlink_path p s2 else s2)
                    in (Inr updated, s3))
             | _ \<Rightarrow> (Inl NOT_FOUND, s))))"

definition store_touch ::
  "text_env \<Rightarrow> path \<Rightarrow> (string \<Rightarrow> int option) \<Rightarrow> int \<Rightarrow> string \<Rightarrow> string \<Rightarrow> tenant_filter option \<Rightarrow> file_store \<Rightarrow>
    unit outcome" where
  "store_touch e home date_ms now_ms now i tenant s =
     or_fail (store_get e home i tenant s) s (\<lambda>found.
       case found of
         None \<Rightarrow> (Inr (), s)
       | Some m \<Rightarrow>
           (let recent = (case date_ms (or_default (mm_updatedAt m) (mm_lastSeen m)) of
                None \<Rightarrow> False | Some t \<Rightarrow> now_ms - t < 3600000)
            in if recent then (Inr (), s)
               else (let m = m\<lparr>mm_lastSeen := Some now\<rparr>
                     in or_fail (file_for home m) s (\<lambda>p. (Inr (), write_memory e p m s)))))"

subsection \<open>Import\<close>

definition foreign_to :: "tenant_filter option \<Rightarrow> memory \<Rightarrow> bool" where
  "foreign_to tenant m \<longleftrightarrow> (tenant = None \<and> truthy (mm_tenantId m)) \<or> \<not> visible tenant m"

definition import_memory_locked ::
  "text_env \<Rightarrow> path \<Rightarrow> memory \<Rightarrow> tenant_filter option \<Rightarrow> file_store \<Rightarrow> bool outcome" where
  "import_memory_locked e home m tenant s =
     (if foreign_to tenant m then (Inr False, s)
      else or_fail (base_of home tenant) s (\<lambda>base.
        if find_file base (mm_id m) (fs_disk s) \<noteq> None then (Inr False, s)
        else or_fail (file_for home m) s (\<lambda>p. (Inr True, write_memory e p m s))))"

text \<open>The planned files of a batch and the number of memories that are skipped.\<close>

definition plan_step ::
  "path \<Rightarrow> path \<Rightarrow> tenant_filter option \<Rightarrow> disk \<Rightarrow> (memory \<times> path) list \<times> nat \<Rightarrow> memory \<Rightarrow>
    error_code + (memory \<times> path) list \<times> nat" where
  "plan_step home base tenant d acc m =
     (let (planned, skipped) = acc in
      if foreign_to tenant m then Inr (planned, skipped + 1)
      else if mm_id m \<in> set (map (mm_id \<circ> fst) planned) \<or> find_file base (mm_id m) d \<noteq> None
        then Inr (planned, skipped + 1)
      else and_then (file_for home m) (\<lambda>p.
        if p \<in> set (map snd planned) then Inr (planned, skipped + 1) else Inr (planned @ [(m, p)], skipped)))"

definition plan_import ::
  "path \<Rightarrow> path \<Rightarrow> tenant_filter option \<Rightarrow> disk \<Rightarrow> memory list \<Rightarrow> error_code + (memory \<times> path) list \<times> nat" where
  "plan_import home base tenant d ms = fold_res (plan_step home base tenant d) ([], 0) ms"

text \<open>The writes: the host's hook may throw after the write of one index.\<close>

fun import_writes ::
  "text_env \<Rightarrow> path \<Rightarrow> (nat \<times> error_code) option \<Rightarrow> nat \<Rightarrow> (memory \<times> path) list \<Rightarrow> file_store \<Rightarrow> unit outcome" where
  "import_writes e base fails k [] s = (Inr (), s)"
| "import_writes e base fails k ((m, p) # rest) s =
     (if find_file base (mm_id m) (fs_disk s) \<noteq> None then (Inl CONFLICT, s)
      else (let s = write_memory e p m s
            in case fails of
            Some (n, x) \<Rightarrow> if n = k then (Inl x, s) else import_writes e base fails (Suc k) rest s
          | None \<Rightarrow> import_writes e base fails (Suc k) rest s))"

definition max_journal_paths :: int where "max_journal_paths = 100000"

text \<open>The journal that is written first names every planned file; it holds a bounded number of them.\<close>

definition begin_import :: "(memory \<times> path) list \<Rightarrow> file_store \<Rightarrow> file_store" where
  "begin_import planned s = s\<lparr>fs_journal := Some (map snd planned)\<rparr>"

definition unlink_all :: "path list \<Rightarrow> file_store \<Rightarrow> file_store" where
  "unlink_all ps s = fold unlink_path ps s"

definition import_batch ::
  "text_env \<Rightarrow> path \<Rightarrow> (nat \<times> error_code) option \<Rightarrow> memory list \<Rightarrow> tenant_filter option \<Rightarrow> file_store \<Rightarrow> (nat \<times> nat) outcome" where
  "import_batch e home fails ms tenant s =
     or_fail (base_of home tenant) s (\<lambda>base.
     or_fail (plan_import home base tenant (fs_disk s) ms) s (\<lambda>(planned, skipped).
       if planned = [] then (Inr (0, skipped), s)
       else if int (length planned) > max_journal_paths then (Inl INVALID_INPUT, s)
       else
         (case import_writes e base fails 0 planned (begin_import planned s) of
            (Inr _, s') \<Rightarrow> (Inr (length planned, skipped), s'\<lparr>fs_journal := None\<rparr>)
          | (Inl x, s') \<Rightarrow> (Inl x, (unlink_all (rev (map snd planned)) s')\<lparr>fs_journal := None\<rparr>))))"

text \<open>A crash after some of the writes of a batch.\<close>

definition import_crash ::
  "text_env \<Rightarrow> path \<Rightarrow> nat \<Rightarrow> memory list \<Rightarrow> tenant_filter option \<Rightarrow> file_store \<Rightarrow> file_store" where
  "import_crash e home k ms tenant s =
     (case base_of home tenant of
        Inl x \<Rightarrow> s
      | Inr base \<Rightarrow>
          (case plan_import home base tenant (fs_disk s) ms of
             Inl x \<Rightarrow> s
           | Inr (planned, skipped) \<Rightarrow>
               if planned = [] \<or> int (length planned) > max_journal_paths then s
               else snd (import_writes e base None 0 (take k planned) (begin_import planned s))))"

section \<open>Recovery\<close>

definition reconcile_import :: "file_store \<Rightarrow> file_store" where
  "reconcile_import s = (case fs_journal s of None \<Rightarrow> s | Some ps \<Rightarrow> (unlink_all ps s)\<lparr>fs_journal := None\<rparr>)"

text \<open>One active file with its twin in the archived tree, the last one of that name; the newer copy stays,
  the archived one when they are equally old. A date that does not parse compares as false.\<close>

definition archived_twin :: "path \<Rightarrow> path list \<Rightarrow> path option" where
  "archived_twin p archived = find (\<lambda>z. base_name z = base_name p) (rev archived)"

definition keep_archived :: "(string \<Rightarrow> int option) \<Rightarrow> memory option \<Rightarrow> memory option \<Rightarrow> bool" where
  "keep_archived date_ms am zm = (case am of
     None \<Rightarrow> True
   | Some a \<Rightarrow> (case zm of
       None \<Rightarrow> False
     | Some z \<Rightarrow> (case (date_ms (mm_updatedAt z), date_ms (mm_updatedAt a)) of
         (Some tz, Some ta) \<Rightarrow> tz \<ge> ta | _ \<Rightarrow> False)))"

definition reconcile_pair ::
  "text_env \<Rightarrow> (string \<Rightarrow> int option) \<Rightarrow> path list \<Rightarrow> path \<Rightarrow> file_store \<Rightarrow> file_store" where
  "reconcile_pair e date_ms archived p s =
     (case archived_twin p archived of
        None \<Rightarrow> s
      | Some z \<Rightarrow>
          (let am = read_memory e p (fs_disk s); zm = read_memory e z (fs_disk s)
           in if am = None \<and> zm = None then s
              else unlink_path (if keep_archived date_ms am zm then p else z) s))"

definition store_recover :: "text_env \<Rightarrow> (string \<Rightarrow> int option) \<Rightarrow> path \<Rightarrow> file_store \<Rightarrow> file_store" where
  "store_recover e date_ms home s0 =
     (let s = reconcile_import s0
      in fold (reconcile_pair e date_ms (walk [home @ [''archived'']] (fs_disk s))) (walk (active_dirs home) (fs_disk s)) s)"

end
