(* ===== verification/ParseCache.thy ===== *)
theory ParseCache
  imports FileStore
begin

text \<open>
  \<open>ParseCache\<close> of \<open>src/store.ts\<close>: the least-recently-used cache of parsed files, a map in insertion order whose
  entries are valid for one time stamp and size of their file. Its promise is stated against the history of the
  calls: a hit serves what was last remembered for the file, and the size stays within the capacity.
\<close>

section \<open>The cache\<close>

record file_stat =
  st_mtime :: int
  st_size :: nat

record cache_entry =
  ce_stat :: file_stat
  ce_memory :: "memory option"

type_synonym cache = "(path, cache_entry) js_map"

text \<open>The answer is \<open>None\<close> for a miss; a hit moves its entry to the end.\<close>

definition cache_probe :: "path \<Rightarrow> file_stat \<Rightarrow> cache \<Rightarrow> memory option option \<times> cache" where
  "cache_probe file st c = (case map_of c file of
     None \<Rightarrow> (None, c)
   | Some e \<Rightarrow>
       if st_mtime (ce_stat e) \<noteq> st_mtime st \<or> st_size (ce_stat e) \<noteq> st_size st then (None, c)
       else (Some (ce_memory e), AList.update file e (AList.delete file c)))"

fun evict :: "nat \<Rightarrow> cache \<Rightarrow> cache" where
  "evict capacity [] = []"
| "evict capacity ((f, e) # c) = (if length ((f, e) # c) > capacity then evict capacity c else (f, e) # c)"

definition cache_remember :: "nat \<Rightarrow> path \<Rightarrow> file_stat \<Rightarrow> memory option \<Rightarrow> cache \<Rightarrow> cache" where
  "cache_remember capacity file st m c =
     (if capacity = 0 then c
      else evict capacity (AList.update file \<lparr>ce_stat = st, ce_memory = m\<rparr> (AList.delete file c)))"

definition cache_forget :: "path \<Rightarrow> cache \<Rightarrow> cache" where
  "cache_forget file c = AList.delete file c"

text \<open>\<open>parseCached\<close>: the stat of the file decides, a missing file is forgotten.\<close>

definition parse_cached :: "nat \<Rightarrow> (path \<Rightarrow> file_stat option) \<Rightarrow> (path \<Rightarrow> memory option) \<Rightarrow> path \<Rightarrow> cache \<Rightarrow> memory option \<times> cache" where
  "parse_cached capacity stat read file c = (case stat file of
     None \<Rightarrow> (None, cache_forget file c)
   | Some st \<Rightarrow> (case cache_probe file st c of
       (Some m, c') \<Rightarrow> (m, c')
     | (None, c') \<Rightarrow> (read file, cache_remember capacity file st (read file) c')))"

section \<open>Runs\<close>

datatype cache_call =
    Probe path file_stat
  | Remember path file_stat "memory option"
  | Forget path

fun cache_step :: "nat \<Rightarrow> cache_call \<Rightarrow> cache \<Rightarrow> cache" where
  "cache_step capacity (Probe f st) c = snd (cache_probe f st c)"
| "cache_step capacity (Remember f st m) c = cache_remember capacity f st m c"
| "cache_step capacity (Forget f) c = cache_forget f c"

definition cache_run :: "nat \<Rightarrow> cache_call list \<Rightarrow> cache" where
  "cache_run capacity calls = fold (cache_step capacity) calls []"

text \<open>What the calls last said of a file.\<close>

fun last_said :: "path \<Rightarrow> cache_call list \<Rightarrow> cache_entry option" where
  "last_said f [] = None"
| "last_said f (Probe g st # calls) = last_said f calls"
| "last_said f (Remember g st m # calls) = (if g = f then Some \<lparr>ce_stat = st, ce_memory = m\<rparr> else last_said f calls)"
| "last_said f (Forget g # calls) = (if g = f then None else last_said f calls)"

definition cache_ok :: "nat \<Rightarrow> (path \<Rightarrow> cache_entry option) \<Rightarrow> cache \<Rightarrow> bool" where
  "cache_ok capacity said c \<longleftrightarrow> map_ok c \<and> length c \<le> capacity \<and> (\<forall>f e. map_of c f = Some e \<longrightarrow> said f = Some e)"

subsection \<open>The invariant\<close>

lemma evict_suffix: "evict capacity c = drop (length c - capacity) c"
  by (induction c) (auto simp: Suc_diff_le)

lemma map_ok_drop: "map_ok c \<Longrightarrow> map_ok (drop n c)"
  by (simp add: map_ok_def drop_map [symmetric])

lemma map_of_drop: "map_ok c \<Longrightarrow> map_of (drop n c) f = Some e \<Longrightarrow> map_of c f = Some e"
  using map_ok_drop [of c n] by (simp add: get_eq_in_set) (blast dest: in_set_dropD)

lemma evicted_ok:
  assumes "map_ok c" "\<And>f e. map_of c f = Some e \<Longrightarrow> said f = Some e"
  shows "cache_ok capacity said (evict capacity c)"
  using assms map_ok_drop [of c] map_of_drop [of c] by (auto simp: cache_ok_def evict_suffix)

lemma cache_step_ok:
  assumes "cache_ok capacity (\<lambda>f. last_said f calls) c"
  shows "cache_ok capacity (\<lambda>f. last_said f (call # calls)) (cache_step capacity call c)"
proof (cases call)
  case (Probe g st)
  have c: "map_ok c" "length c \<le> capacity" using assms by (simp_all add: cache_ok_def)
  show ?thesis
  proof (cases "map_of c g")
    case (Some e)
    have "length (AList.update g e (AList.delete g c)) = length c"
      using c(1) Some by (simp add: update_absent map_has_def table_simps length_delete_present)
    then show ?thesis using assms Probe Some by (auto simp: cache_ok_def cache_probe_def table_simps)
  qed (use assms Probe in \<open>simp add: cache_ok_def cache_probe_def\<close>)
next
  case (Remember g st m)
  have "cache_ok capacity (\<lambda>f. last_said f (call # calls)) c" if "capacity = 0"
    using assms that by (simp add: cache_ok_def)
  moreover have "cache_ok capacity (\<lambda>f. last_said f (call # calls))
      (evict capacity (AList.update g \<lparr>ce_stat = st, ce_memory = m\<rparr> (AList.delete g c)))"
    by (rule evicted_ok) (use assms Remember in \<open>auto simp: cache_ok_def table_simps split: if_splits\<close>)
  ultimately show ?thesis using Remember by (simp add: cache_remember_def)
next
  case (Forget g)
  have "length (AList.delete g c) \<le> length c" by (rule length_delete_le)
  then show ?thesis using assms Forget by (auto simp: cache_ok_def cache_forget_def table_simps split: if_splits)
qed

lemma cache_run_ok: "cache_ok capacity (\<lambda>f. last_said f (rev calls)) (cache_run capacity calls)"
proof (induction calls rule: rev_induct)
  case Nil
  then show ?case by (simp add: cache_run_def cache_ok_def map_ok_def)
next
  case (snoc call calls)
  then show ?case using cache_step_ok by (simp add: cache_run_def)
qed

text \<open>Whatever the calls, the parse cache holds at most its capacity, and a hit serves what was last remembered
  for the file, remembered for the time stamp and size it has now and not forgotten since.\<close>

theorem cache_hit_is_last_remembered:
  "length (cache_run capacity calls) \<le> capacity \<and>
   (fst (cache_probe f st (cache_run capacity calls)) = Some m \<longrightarrow>
    (\<exists>e. last_said f (rev calls) = Some e \<and> ce_memory e = m \<and> st_mtime (ce_stat e) = st_mtime st \<and>
         st_size (ce_stat e) = st_size st))"
  using cache_run_ok [of capacity calls]
  by (auto simp: cache_ok_def cache_probe_def split: option.splits if_splits)

theorem cache_hit_is_last_remembered_witness:
  "fst (cache_probe [''a''] \<lparr>st_mtime = 1, st_size = 2\<rparr>
     (cache_run 1 [Remember [''b''] \<lparr>st_mtime = 1, st_size = 2\<rparr> None, Remember [''a''] \<lparr>st_mtime = 1, st_size = 2\<rparr> None]))
   = Some None \<and>
   last_said [''a''] (rev [Remember [''b''] \<lparr>st_mtime = 1, st_size = 2\<rparr> None, Remember [''a''] \<lparr>st_mtime = 1, st_size = 2\<rparr> None])
   = Some \<lparr>ce_stat = \<lparr>st_mtime = 1, st_size = 2\<rparr>, ce_memory = None\<rparr>"
proof -
  let ?calls = "[Remember [''b''] \<lparr>st_mtime = 1, st_size = 2\<rparr> None, Remember [''a''] \<lparr>st_mtime = 1, st_size = 2\<rparr> None]"
  have "fst (cache_probe [''a''] \<lparr>st_mtime = 1, st_size = 2\<rparr> (cache_run 1 ?calls)) = Some None" by code_simp
  then show ?thesis
    using cache_hit_is_last_remembered [of 1 ?calls "[''a'']" "\<lparr>st_mtime = 1, st_size = 2\<rparr>" None] by simp
qed

text \<open>A hit of \<open>parse_cached\<close> keeps the answer of the read when the stat tells the texts of a file apart.\<close>

lemma parse_cached_reads:
  assumes "map_ok c"
    and "\<And>e st. map_of c f = Some e \<Longrightarrow> stat f = Some st \<Longrightarrow> st_mtime (ce_stat e) = st_mtime st \<Longrightarrow>
      st_size (ce_stat e) = st_size st \<Longrightarrow> ce_memory e = read f"
    and "stat f = None \<Longrightarrow> read f = None"
  shows "fst (parse_cached capacity stat read f c) = read f"
  using assms
  by (auto simp: parse_cached_def cache_probe_def split: option.splits prod.splits if_splits)

end
