(* ===== verification/FileStoreFacts.thy ===== *)
theory FileStoreFacts
  imports FileStore
begin

text \<open>
  What the paths of \<open>FileStore\<close> promise (a memory has one place, below the directories its organization's
  reads walk and no other's) and the invariant that makes the disk a table of memories keyed by
  organization and id: \<open>disk_ok\<close>, with the table as \<open>contents\<close>.
\<close>

section \<open>Places\<close>

definition plain_segment :: "string \<Rightarrow> bool" where
  "plain_segment s \<longleftrightarrow> s \<noteq> '''' \<and> s \<noteq> ''.'' \<and> s \<noteq> ''..''"

definition home_ok :: "path \<Rightarrow> bool" where
  "home_ok home \<longleftrightarrow> list_all plain_segment home"

lemma resolve_onto_plain:
  "''..'' \<notin> set ss \<Longrightarrow> resolve_onto acc ss = acc @ filter (\<lambda>s. s \<noteq> '''' \<and> s \<noteq> ''.'') ss"
  by (induction ss arbitrary: acc) auto

lemma filter_plain: "list_all plain_segment ss \<Longrightarrow> filter (\<lambda>s. s \<noteq> '''' \<and> s \<noteq> ''.'') ss = ss"
  by (induction ss) (auto simp: plain_segment_def)

lemma plain_no_dots: "list_all plain_segment ss \<Longrightarrow> ''..'' \<notin> set ss"
  by (auto simp: list_all_iff plain_segment_def)

definition base_dir :: "path \<Rightarrow> string option \<Rightarrow> path" where
  "base_dir home t = (case t of None \<Rightarrow> home | Some org \<Rightarrow> home @ [''tenants'', ''tenant_'' @ base64url org])"

definition plain_dir :: "memory \<Rightarrow> string list" where
  "plain_dir m = (if truthy (mm_archivedAt m) then [''archived''] else []) @
     (if mm_scope m = ''global'' then [''global'']
      else ''scopes'' # filter (\<lambda>s. s \<noteq> '''' \<and> s \<noteq> ''.'') (split_path (safe_scope_text (mm_scope m))))"

definition place :: "path \<Rightarrow> memory \<Rightarrow> path" where
  "place home m = base_dir home (mm_tenantId m) @ plain_dir m @ [mm_id m @ md]"

definition safe_memory :: "memory \<Rightarrow> bool" where
  "safe_memory m \<longleftrightarrow> is_record_id (mm_id m) \<and> is_safe_scope (mm_scope m) \<and> opt_valid is_valid_tenant_id (mm_tenantId m)"

lemma tenant_key_valid: "is_valid_tenant_id org \<Longrightarrow> tenant_directory_key org = Inr (''tenant_'' @ base64url org)"
  by (simp add: tenant_directory_key_def parse_tenant_filter_def filter_ok_def)

lemma id_no_slash: "is_record_id i \<Longrightarrow> CHR ''/'' \<notin> set (i @ md)"
  by (auto simp: is_record_id_def list_all_iff is_id_char_def md_def char_class_defs in_range_def code_of_def)

lemma split_on_absent: "c \<notin> set s \<Longrightarrow> split_on c s = [s]"
  by (induction s) auto

lemma id_plain: "is_record_id i \<Longrightarrow> plain_segment (i @ md)"
  by (cases i) (auto simp: plain_segment_def md_def)

lemma base_dir_plain: "home_ok home \<Longrightarrow> list_all plain_segment (base_dir home t)"
  by (auto simp: home_ok_def base_dir_def plain_segment_def split: option.splits)

lemma tenant_base:
  "opt_valid is_valid_tenant_id t \<Longrightarrow>
   (if truthy t then tenant_root home (or_default '''' t) else Inr home) = Inr (base_dir home t)"
  by (cases t) (auto simp: tenant_root_def tenant_key_valid base_dir_def or_default_def is_valid_tenant_id_def)

lemma memory_dir_no_dots:
  assumes "safe_memory m"
  shows "''..'' \<notin> set (memory_dir m)" "filter (\<lambda>s. s \<noteq> '''' \<and> s \<noteq> ''.'') (memory_dir m) = plain_dir m"
  using assms
  by (auto simp: memory_dir_def plain_dir_def safe_memory_def is_safe_scope_def split_path_def split: if_splits)

lemma file_for_place:
  assumes "home_ok home" "safe_memory m"
  shows "file_for home m = Inr (place home m)"
proof -
  let ?b = "base_dir home (mm_tenantId m)"
  have id: "split_path (mm_id m @ md) = [mm_id m @ md]" "plain_segment (mm_id m @ md)"
    using assms(2) split_on_absent [OF id_no_slash, of "mm_id m"] by (simp_all add: safe_memory_def split_path_def id_plain)
  have nodots: "''..'' \<notin> set (?b @ memory_dir m @ [mm_id m @ md])"
    using plain_no_dots [OF base_dir_plain [OF assms(1)], of "mm_tenantId m"] memory_dir_no_dots(1) [OF assms(2)] id(2)
    by (auto simp: plain_segment_def)
  have "resolve (?b @ memory_dir m @ split_path (mm_id m @ md)) = place home m"
    unfolding resolve_def id(1) resolve_onto_plain [OF nodots]
    using filter_plain [OF base_dir_plain [OF assms(1)], of "mm_tenantId m"] memory_dir_no_dots(2) [OF assms(2)] id(2)
    by (simp add: place_def plain_segment_def)
  moreover have "below home (place home m)"
    by (auto simp: below_def place_def base_dir_def split: option.split)
  ultimately show ?thesis
    using assms(2) by (simp add: file_for_def tenant_base safe_memory_def)
qed

lemma base_of_dir:
  "(\<And>f. tenant = Some f \<Longrightarrow> is_valid_tenant_id (tf_organizationId f)) \<Longrightarrow>
   base_of home tenant = Inr (base_dir home (map_option tf_organizationId tenant))"
  by (cases tenant) (simp_all add: base_of_def tenant_root_def base_dir_def tenant_key_valid)

lemma base_name_place: "is_record_id (mm_id m) \<Longrightarrow> base_name (place home m) = mm_id m"
  by (auto simp: base_name_def place_def md_def is_record_id_def Let_def)

lemma is_md_place: "is_md (place home m)"
  by (simp add: is_md_def place_def md_def)

definition memory_dirs :: "path \<Rightarrow> path list" where
  "memory_dirs base = active_dirs base @ [base @ [''archived'']]"

definition walked :: "path \<Rightarrow> path \<Rightarrow> bool" where
  "walked base p \<longleftrightarrow> (\<exists>dir \<in> set (memory_dirs base). below dir p)"

lemma below_append: "below (base @ ds) (base @ ps) \<longleftrightarrow> below ds ps"
  by (auto simp: below_def)

lemma walked_append:
  "walked base (base @ ps) \<longleftrightarrow> (\<exists>d \<in> {''global'', ''scopes'', ''archived''}. below [d] ps)"
  by (auto simp: walked_def memory_dirs_def active_dirs_def below_append)

lemma below_one: "below [d] ps \<longleftrightarrow> (\<exists>qs. ps = d # qs \<and> qs \<noteq> [])"
  by (cases ps) (auto simp: below_def)

lemma plain_dir_head: "\<exists>d qs. plain_dir m = d # qs \<and> d \<in> {''global'', ''scopes'', ''archived''}"
  by (auto simp: plain_dir_def)

lemma walked_place_own: "walked (base_dir home (mm_tenantId m)) (place home m)"
  using plain_dir_head [of m] by (auto simp: place_def walked_append below_one)

lemma walked_place:
  assumes "walked (base_dir home t) (place home m)"
  shows "mm_tenantId m = t"
proof -
  obtain d qs where d: "plain_dir m = d # qs" "d \<in> {''global'', ''scopes'', ''archived''}"
    using plain_dir_head by blast
  show ?thesis
  proof (cases t)
    case None
    then have "\<exists>d \<in> {''global'', ''scopes'', ''archived''}. below [d]
        ((case mm_tenantId m of None \<Rightarrow> [] | Some org \<Rightarrow> [''tenants'', ''tenant_'' @ base64url org]) @ plain_dir m @ [mm_id m @ md])"
      using assms walked_append [of home] by (cases "mm_tenantId m") (auto simp: base_dir_def place_def)
    then show ?thesis using None by (cases "mm_tenantId m") (auto simp: below_one)
  next
    case (Some org)
    let ?rest = "(case mm_tenantId m of None \<Rightarrow> [] | Some o' \<Rightarrow> [''tenants'', ''tenant_'' @ base64url o']) @ plain_dir m @ [mm_id m @ md]"
    have "place home m = home @ ?rest" by (simp add: place_def base_dir_def split: option.split)
    with assms obtain d' where "below (home @ [''tenants'', ''tenant_'' @ base64url org, d']) (home @ ?rest)"
      using Some by (auto simp: walked_def memory_dirs_def active_dirs_def base_dir_def)
    then have "below [''tenants'', ''tenant_'' @ base64url org, d'] ?rest" by (simp add: below_append)
    then show ?thesis using Some d
      by (cases "mm_tenantId m") (auto simp: below_def base64url_inject)
  qed
qed

definition key_of :: "memory \<Rightarrow> string option \<times> string" where
  "key_of m = (mm_tenantId m, mm_id m)"

lemma place_key:
  assumes "place home m = place home m'" "is_record_id (mm_id m)" "is_record_id (mm_id m')"
  shows "key_of m = key_of m'"
proof -
  have "mm_tenantId m = mm_tenantId m'"
    using walked_place_own [of home m'] walked_place [of home "mm_tenantId m'" m] assms(1) by simp
  moreover have "mm_id m = mm_id m'" using base_name_place assms by metis
  ultimately show ?thesis by (simp add: key_of_def)
qed

section \<open>The disk as a table\<close>

definition storable :: "text_env \<Rightarrow> memory \<Rightarrow> bool" where
  "storable e m \<longleftrightarrow> memory_ok e m \<and> reads_back e m \<and> is_safe_scope (mm_scope m)"

definition stripped :: "memory \<Rightarrow> memory" where
  "stripped m = m\<lparr>mm_sensitivity := None, mm_legalHold := None\<rparr>"

definition holds :: "text_env \<Rightarrow> path \<Rightarrow> disk \<Rightarrow> memory \<Rightarrow> bool" where
  "holds e home d m \<longleftrightarrow> storable e m \<and> stripped m = m \<and> map_of d (place home m) = Some (render e m)"

definition disk_ok :: "text_env \<Rightarrow> path \<Rightarrow> disk \<Rightarrow> bool" where
  "disk_ok e home d \<longleftrightarrow> map_ok d \<and>
     (\<forall>p t. map_of d p = Some t \<longrightarrow> (\<exists>m. holds e home d m \<and> p = place home m)) \<and>
     (\<forall>m m'. holds e home d m \<longrightarrow> holds e home d m' \<longrightarrow> key_of m = key_of m' \<longrightarrow> m = m')"

definition contents :: "text_env \<Rightarrow> disk \<Rightarrow> string option \<times> string \<Rightarrow> memory option" where
  "contents e d k = find (\<lambda>m. key_of m = k) (List.map_filter (\<lambda>(p, t). parse e (base_name p) t) d)"

lemma storable_safe: "storable e m \<Longrightarrow> safe_memory m"
  by (simp add: storable_def memory_ok_def memory_core_ok_def memory_options_ok_def safe_memory_def)

lemma storable_id: "storable e m \<Longrightarrow> is_record_id (mm_id m)"
  by (simp add: storable_def memory_ok_def memory_core_ok_def)

lemma parse_storable:
  assumes "storable e m"
  shows "parse e (mm_id m) (render e m) = Some (stripped m)"
  using assms parse_render [of e m] by (simp add: storable_def stripped_def)

lemma render_stripped: "render e (stripped m) = render e m"
  by (simp add: stripped_def render_def yaml_text_def front_matter_def)

lemma storable_stripped [simp]: "storable e (stripped m) = storable e m"
proof -
  have "front_matter e (stripped m) = front_matter e m" by (simp add: stripped_def front_matter_def)
  then have "reads_back e (stripped m) = reads_back e m"
    by (simp add: reads_back_def yaml_text_def) (simp add: stripped_def)
  moreover have "memory_ok e (stripped m) = memory_ok e m"
    by (simp add: memory_ok_def memory_core_ok_def memory_options_ok_def stripped_def)
  ultimately show ?thesis by (simp add: storable_def) (simp add: stripped_def)
qed

lemma stripped_simps [simp]:
  "stripped (stripped m) = stripped m" "key_of (stripped m) = key_of m" "place home (stripped m) = place home m"
  "mm_tenantId (stripped m) = mm_tenantId m" "mm_id (stripped m) = mm_id m" "mm_version (stripped m) = mm_version m"
  "mm_content (stripped m) = mm_content m" "mm_archivedAt (stripped m) = mm_archivedAt m"
  "in_tenant (stripped m) f = in_tenant m f" "visible tenant (stripped m) = visible tenant m"
  by (simp_all add: stripped_def key_of_def place_def plain_dir_def in_tenant_def memory_dims_def visible_def
      split: option.split)

lemma holds_parse:
  assumes "holds e home d m"
  shows "parse e (base_name (place home m)) (render e m) = Some m"
proof -
  have m: "storable e m" "stripped m = m" using assms by (simp_all add: holds_def)
  show ?thesis using parse_storable [OF m(1)] base_name_place [OF storable_id [OF m(1)]] m(2) by simp
qed

lemma read_holds: "holds e home d m \<Longrightarrow> read_memory e (place home m) d = Some m"
  using holds_parse by (simp add: read_memory_def holds_def)

lemma holds_same_place:
  assumes "holds e home d m" "holds e home d m'" "place home m = place home m'"
  shows "m = m'"
  by (rule option.inject [THEN iffD1])
    (rule trans [OF read_holds [OF assms(1), symmetric] read_holds [OF assms(2), folded assms(3)]])

lemma disk_ok_map: "disk_ok e home d \<Longrightarrow> map_ok d"
  by (simp add: disk_ok_def)

lemma disk_ok_file:
  assumes "disk_ok e home d" "map_of d p = Some t"
  shows "\<exists>m. holds e home d m \<and> p = place home m \<and> t = render e m"
proof -
  obtain m where "holds e home d m" "p = place home m" using assms unfolding disk_ok_def by blast
  moreover from this have "t = render e m" using assms(2) by (simp add: holds_def)
  ultimately show ?thesis by blast
qed

lemma disk_ok_unique:
  "disk_ok e home d \<Longrightarrow> holds e home d m \<Longrightarrow> holds e home d m' \<Longrightarrow> key_of m = key_of m' \<Longrightarrow> m = m'"
  unfolding disk_ok_def by blast

lemma disk_okI:
  assumes "map_ok d" "\<And>p t. map_of d p = Some t \<Longrightarrow> \<exists>m. holds e home d m \<and> p = place home m"
    "\<And>m m'. holds e home d m \<Longrightarrow> holds e home d m' \<Longrightarrow> key_of m = key_of m' \<Longrightarrow> m = m'"
  shows "disk_ok e home d"
  unfolding disk_ok_def using assms by blast

lemma option_eqI: "(\<And>x. a = Some x \<longleftrightarrow> b = Some x) \<Longrightarrow> a = b"
  by (metis not_None_eq)

lemma disk_ok_empty: "disk_ok e home []"
  by (simp add: disk_ok_def map_ok_def holds_def)

lemma contents_holds:
  assumes "disk_ok e home d"
  shows "contents e d k = Some m \<longleftrightarrow> holds e home d m \<and> key_of m = k"
proof -
  let ?ms = "List.map_filter (\<lambda>(p, t). parse e (base_name p) t) d"
  have mem: "x \<in> set ?ms \<longleftrightarrow> holds e home d x" for x
  proof
    assume "x \<in> set ?ms"
    then obtain p t where pt: "(p, t) \<in> set d" "parse e (base_name p) t = Some x"
      by (auto simp: List.map_filter_def)
    then have "map_of d p = Some t" using disk_ok_map [OF assms] by (simp add: get_eq_in_set)
    then obtain m where "holds e home d m" "p = place home m" "t = render e m" using disk_ok_file [OF assms] by blast
    then show "holds e home d x" using pt(2) holds_parse by simp
  next
    assume x: "holds e home d x"
    then have "(place home x, render e x) \<in> set d" by (simp add: holds_def get_in_set)
    then show "x \<in> set ?ms" using holds_parse [OF x] by (force simp: List.map_filter_def)
  qed
  have "find (\<lambda>m. key_of m = k) ?ms = Some m \<Longrightarrow> m \<in> set ?ms \<and> key_of m = k" for m
    by (auto simp: find_Some_iff)
  moreover have "\<exists>m'. find (\<lambda>m. key_of m = k) ?ms = Some m'" if "m \<in> set ?ms" "key_of m = k"
    using that by (metis (mono_tags, lifting) find_None_iff option.exhaust)
  ultimately show ?thesis unfolding contents_def using mem disk_ok_unique [OF assms] by metis
qed

lemma contents_none: "disk_ok e home d \<Longrightarrow> contents e d k = None \<longleftrightarrow> (\<forall>m. holds e home d m \<longrightarrow> key_of m \<noteq> k)"
  using contents_holds [of e home d k] by (metis not_None_eq)

subsection \<open>Finding\<close>

lemma in_walk: "p \<in> set (walk dirs d) \<longleftrightarrow> (\<exists>dir \<in> set dirs. below dir p) \<and> is_md p \<and> p \<in> fst ` set d"
  by (auto simp: walk_def)

lemma find_contents:
  assumes "disk_ok e home d"
  shows "find_file (base_dir home t) i d = map_option (place home) (contents e d (t, i))"
proof -
  let ?w = "walk (memory_dirs (base_dir home t)) d"
  have w: "p \<in> set ?w \<longleftrightarrow> (\<exists>m. holds e home d m \<and> mm_tenantId m = t \<and> p = place home m)" for p
  proof
    assume "p \<in> set ?w"
    then have p: "walked (base_dir home t) p" "p \<in> fst ` set d" by (auto simp: in_walk walked_def)
    then obtain body where "map_of d p = Some body" by (metis map_of_eq_None_iff option.exhaust)
    then obtain m where "holds e home d m" "p = place home m" using disk_ok_file [OF assms] by blast
    then show "\<exists>m. holds e home d m \<and> mm_tenantId m = t \<and> p = place home m" using p(1) walked_place by metis
  next
    assume "\<exists>m. holds e home d m \<and> mm_tenantId m = t \<and> p = place home m"
    then obtain m where m: "holds e home d m" "mm_tenantId m = t" "p = place home m" by blast
    then have "walked (base_dir home t) p" "p \<in> fst ` set d"
      using walked_place_own [of home m] by (auto simp: holds_def dest: get_in_set intro: image_eqI [rotated])
    then show "p \<in> set ?w" using m(3) by (simp add: in_walk walked_def is_md_place)
  qed
  have name: "base_name (place home m) = mm_id m" if "holds e home d m" for m
    by (rule base_name_place [OF storable_id [of e]]) (use that in \<open>simp add: holds_def\<close>)
  have ff: "find_file (base_dir home t) i d = find (\<lambda>p. base_name p = i) ?w"
    by (simp add: find_file_def memory_dirs_def)
  show ?thesis
  proof (cases "contents e d (t, i)")
    case None
    have "base_name p \<noteq> i" if "p \<in> set ?w" for p
    proof -
      obtain m where m: "holds e home d m" "mm_tenantId m = t" "p = place home m" using \<open>p \<in> set ?w\<close> w by blast
      then have "key_of m \<noteq> (t, i)" using None contents_none [OF assms] by blast
      then show ?thesis using m name by (simp add: key_of_def)
    qed
    then have "\<forall>p \<in> set ?w. base_name p \<noteq> i" by blast
    then show ?thesis using None ff by (simp add: find_None_iff)
  next
    case (Some m)
    then have m: "holds e home d m" "key_of m = (t, i)" using contents_holds [OF assms] by auto
    then have "place home m \<in> set ?w" "base_name (place home m) = i" using w name by (auto simp: key_of_def)
    then obtain p where p: "find (\<lambda>p. base_name p = i) ?w = Some p"
      by (metis (mono_tags, lifting) find_None_iff option.exhaust)
    then have "p \<in> set ?w" "base_name p = i" by (auto simp: find_Some_iff)
    then obtain m' where m': "holds e home d m'" "mm_tenantId m' = t" "p = place home m'" using w by blast
    then have "key_of m' = (t, i)" using name \<open>base_name p = i\<close> by (simp add: key_of_def)
    then have "m' = m" using disk_ok_unique [OF assms m'(1) m(1)] m(2) by simp
    then show ?thesis using p m'(3) ff Some by simp
  qed
qed

lemma read_contents:
  assumes "disk_ok e home d" "contents e d k = Some m"
  shows "read_memory e (place home m) d = Some m"
  using assms contents_holds read_holds by blast

subsection \<open>Writing and removing\<close>

definition put_memory :: "text_env \<Rightarrow> path \<Rightarrow> path option \<Rightarrow> memory \<Rightarrow> disk \<Rightarrow> disk" where
  "put_memory e home old m d =
     (let d' = AList.update (place home m) (render e m) d
      in case old of None \<Rightarrow> d' | Some p \<Rightarrow> if p \<noteq> place home m then AList.delete p d' else d')"

lemma holds_key_place:
  "holds e home d m \<Longrightarrow> storable e m' \<Longrightarrow> place home m = place home m' \<Longrightarrow> key_of m = key_of m'"
  using place_key storable_id unfolding holds_def by blast

lemma get_put_memory:
  "map_of (put_memory e home old m d) p =
     (if p = place home m then Some (render e m) else if old = Some p then None else map_of d p)"
  by (cases old) (auto simp: put_memory_def table_simps Let_def)

lemma holds_put:
  assumes ok: "disk_ok e home d" and m: "storable e m" "stripped m = m"
    and old: "old = map_option (place home) (contents e d (key_of m))"
  shows "holds e home (put_memory e home old m d) m' \<longleftrightarrow> m' = m \<or> (holds e home d m' \<and> key_of m' \<noteq> key_of m)"
proof
  assume h: "holds e home (put_memory e home old m d) m'"
  have m': "storable e m'" "stripped m' = m'" using h by (simp_all add: holds_def)
  show "m' = m \<or> (holds e home d m' \<and> key_of m' \<noteq> key_of m)"
  proof (cases "place home m' = place home m")
    case True
    have "mm_id m' = mm_id m" using place_key [OF True] storable_id m'(1) m(1) by (simp add: key_of_def)
    moreover have "render e m' = render e m" using h True by (simp add: holds_def get_put_memory)
    ultimately have "Some m' = Some m"
      using parse_storable [OF m'(1)] parse_storable [OF m(1)] m'(2) m(2) by metis
    then show ?thesis by simp
  next
    case False
    then have "old \<noteq> Some (place home m')" "map_of d (place home m') = Some (render e m')"
      using h by (simp_all add: holds_def get_put_memory split: if_splits)
    then have hd: "holds e home d m'" using m' by (simp add: holds_def)
    moreover have "key_of m' \<noteq> key_of m"
    proof
      assume "key_of m' = key_of m"
      then have "contents e d (key_of m) = Some m'" using contents_holds [OF ok] hd by simp
      then show False using old \<open>old \<noteq> Some (place home m')\<close> by simp
    qed
    ultimately show ?thesis by blast
  qed
next
  assume h: "m' = m \<or> (holds e home d m' \<and> key_of m' \<noteq> key_of m)"
  show "holds e home (put_memory e home old m d) m'"
  proof (cases "m' = m")
    case True
    then show ?thesis using m by (simp add: holds_def get_put_memory)
  next
    case False
    then have hd: "holds e home d m'" and k: "key_of m' \<noteq> key_of m" using h by auto
    have "place home m' \<noteq> place home m" using holds_key_place [OF hd m(1)] k by blast
    moreover have "old \<noteq> Some (place home m')"
    proof
      assume "old = Some (place home m')"
      then obtain c where c: "contents e d (key_of m) = Some c" "place home c = place home m'" using old by auto
      then have "holds e home d c" "key_of c = key_of m" using contents_holds [OF ok] by auto
      then show False using holds_key_place [of e home d c m'] hd c(2) k by (auto simp: holds_def)
    qed
    ultimately show ?thesis using hd by (simp add: holds_def get_put_memory)
  qed
qed

lemma map_ok_put: "map_ok d \<Longrightarrow> map_ok (put_memory e home old m d)"
  by (simp add: put_memory_def Let_def split: option.split)

lemma put_memory_ok:
  assumes "disk_ok e home d" "storable e m" "stripped m = m"
    "old = map_option (place home) (contents e d (key_of m))"
  shows "disk_ok e home (put_memory e home old m d)"
    "contents e (put_memory e home old m d) = (contents e d)(key_of m \<mapsto> m)"
proof -
  note h = holds_put [OF assms]
  have "\<exists>x. holds e home (put_memory e home old m d) x \<and> p = place home x"
    if "map_of (put_memory e home old m d) p = Some t" for p t
  proof (cases "p = place home m")
    case True
    then show ?thesis using h by blast
  next
    case False
    then have p: "map_of d p = Some t" "old \<noteq> Some p" using that by (simp_all add: get_put_memory split: if_splits)
    then obtain x where x: "holds e home d x" "p = place home x" using disk_ok_file [OF assms(1)] by blast
    have "key_of x \<noteq> key_of m"
    proof
      assume "key_of x = key_of m"
      then have "contents e d (key_of m) = Some x" using contents_holds [OF assms(1)] x(1) by simp
      then show False using assms(4) p(2) x(2) by simp
    qed
    then show ?thesis using h x by blast
  qed
  then show ok: "disk_ok e home (put_memory e home old m d)"
  proof (rule disk_okI [OF map_ok_put [OF disk_ok_map [OF assms(1)]]])
    fix x y
    assume "holds e home (put_memory e home old m d) x" "holds e home (put_memory e home old m d) y" "key_of x = key_of y"
    then show "x = y" unfolding h using disk_ok_unique [OF assms(1), of x y] by auto
  qed
  show "contents e (put_memory e home old m d) = (contents e d)(key_of m \<mapsto> m)"
  proof
    fix k
    show "contents e (put_memory e home old m d) k = ((contents e d)(key_of m \<mapsto> m)) k"
    proof (cases "k = key_of m")
      case True
      then have "contents e (put_memory e home old m d) k = Some m" using contents_holds [OF ok] h by blast
      then show ?thesis using True by simp
    next
      case False
      have "contents e (put_memory e home old m d) k = Some x \<longleftrightarrow> contents e d k = Some x" for x
        unfolding contents_holds [OF ok] contents_holds [OF assms(1)] h using False by auto
      then have "contents e (put_memory e home old m d) k = contents e d k" by (rule option_eqI)
      then show ?thesis using False by simp
    qed
  qed
qed

lemma delete_memory_ok:
  assumes "disk_ok e home d" "contents e d k = Some c"
  shows "disk_ok e home (AList.delete (place home c) d)"
    "contents e (AList.delete (place home c) d) = (contents e d)(k := None)"
proof -
  have c: "holds e home d c" "key_of c = k" using assms contents_holds by auto
  have h: "holds e home (AList.delete (place home c) d) m \<longleftrightarrow> holds e home d m \<and> key_of m \<noteq> k" for m
  proof -
    have "place home m = place home c \<longleftrightarrow> key_of m = k" if "holds e home d m"
      using that c disk_ok_unique [OF assms(1)] holds_same_place by blast
    then show ?thesis by (auto simp: holds_def table_simps)
  qed
  have "\<exists>x. holds e home (AList.delete (place home c) d) x \<and> p = place home x"
    if "map_of (AList.delete (place home c) d) p = Some t" for p t
  proof -
    have p: "map_of d p = Some t" "p \<noteq> place home c" using that by (simp_all add: table_simps split: if_splits)
    then obtain x where "holds e home d x" "p = place home x" using disk_ok_file [OF assms(1)] by blast
    then show ?thesis using h c p(2) disk_ok_unique [OF assms(1)] by metis
  qed
  then show ok: "disk_ok e home (AList.delete (place home c) d)"
  proof (rule disk_okI [OF map_ok_delete [OF disk_ok_map [OF assms(1)]]])
    fix x y
    assume "holds e home (AList.delete (place home c) d) x" "holds e home (AList.delete (place home c) d) y"
      "key_of x = key_of y"
    then show "x = y" unfolding h using disk_ok_unique [OF assms(1), of x y] by auto
  qed
  show "contents e (AList.delete (place home c) d) = (contents e d)(k := None)"
  proof
    fix j
    have "contents e (AList.delete (place home c) d) j = Some x \<longleftrightarrow> contents e d j = Some x \<and> j \<noteq> k" for x
      unfolding contents_holds [OF ok] contents_holds [OF assms(1)] h by auto
    then show "contents e (AList.delete (place home c) d) j = ((contents e d)(k := None)) j"
      by (intro option_eqI) simp
  qed
qed

end
