(* ===== verification/ParseTypes.thy ===== *)
theory ParseTypes
  imports FileStoreFacts
begin

text \<open>
  What \<open>parse\<close> of \<open>src/store.ts\<close> promises of every file it serves, whoever wrote it: the comment of the code says
  that ranking never sees a value out of its range. \<open>well_typed\<close> is the type of the served memories.
\<close>

definition well_typed :: "memory \<Rightarrow> bool" where
  "well_typed m \<longleftrightarrow>
     mm_type m \<in> set memory_types \<and> scope_readable (mm_scope m) \<and> mm_content m \<noteq> '''' \<and> '''' \<notin> set (mm_tags m) \<and>
     1 \<le> mm_importance m \<and> mm_importance m \<le> 5 \<and> 0 \<le> mm_confidence m \<and> mm_confidence m \<le> 1 \<and>
     mm_trust m \<in> set trust_levels \<and> provenance_ok (mm_provenance m) \<and> 1 \<le> mm_version m \<and>
     some_in memory_owners (mm_owner m) \<and> some_in memory_accesses (mm_access m) \<and>
     opt_valid is_valid_tenant_id (mm_tenantId m) \<and> opt_valid is_valid_tenant_id (mm_projectId m) \<and>
     opt_valid is_valid_tenant_id (mm_userId m) \<and> opt_valid is_valid_tenant_id (mm_agentId m) \<and>
     opt_valid (\<lambda>r. r \<in> set retention_modes) (mm_retention m) \<and>
     opt_valid (\<lambda>rs. rs \<noteq> [] \<and> list_all relation_ok rs) (mm_relations m) \<and> mm_embedding m \<noteq> Some []"

section \<open>The fields\<close>

lemma labels_in_order: "parse_labels es = Some ls \<Longrightarrow> subseq (map fst ls) provenance_labels"
proof -
  have "subseq (map fst (List.map_filter (\<lambda>k. case map_of es k of Some (JStr s) \<Rightarrow> Some (k, s) | _ \<Rightarrow> None) ks)) ks" for ks
    by (induction ks) (auto simp: List.map_filter_simps split: option.splits json.splits)
  then show "parse_labels es = Some ls \<Longrightarrow> subseq (map fst ls) provenance_labels"
    by (auto simp: parse_labels_def split: if_splits)
qed

lemma manual_ok: "provenance_ok manual_provenance"
  by (simp add: provenance_ok_def manual_provenance_def source_types_def)

lemma parsed_provenance: "provenance_ok (parse_provenance e meta)"
  using manual_ok labels_in_order
  by (auto simp: parse_provenance_def provenance_ok_def source_types_def split: option.split json.split)

lemma parsed_trust: "provenance_ok p \<Longrightarrow> parse_trust e meta p \<in> set trust_levels"
  by (auto simp: parse_trust_def default_trust_def trust_levels_def split: option.split)

lemma parsed_importance: "1 \<le> parse_importance e meta" "parse_importance e meta \<le> 5"
  by (auto simp: parse_importance_def Let_def split: option.split)

lemma parsed_confidence: "0 \<le> parse_confidence e meta p" "parse_confidence e meta p \<le> 1"
  by (auto simp: parse_confidence_def Let_def split: option.split)

lemma parsed_revision: "1 \<le> parse_revision e meta"
proof -
  have "1 \<le> nat \<lfloor>r\<rfloor>" if "1 \<le> r" for r :: rat using that by (simp add: le_nat_iff le_floor_iff)
  then show ?thesis by (auto simp: parse_revision_def split: option.split)
qed

lemma parsed_tags: "'''' \<notin> set (parse_tags e meta)"
  by (auto simp: parse_tags_def comma_items_def Let_def split: option.split json.split)

lemma parsed_option: "parse_option e meta k options = Some s \<Longrightarrow> s \<in> set options"
  by (auto simp: parse_option_def split: option.splits if_splits)

lemma parsed_relations: "parse_relations e meta = Some rs \<Longrightarrow> rs \<noteq> [] \<and> list_all relation_ok rs"
proof -
  have typed: "relation_ok r" if "parse_relation e v = Some r" for v r
    using that by (auto simp: parse_relation_def relation_ok_def split: json.splits option.splits if_splits)
  have "list_all relation_ok (List.map_filter (parse_relation e) vs)" for vs
    using typed by (auto simp: list_all_iff List.map_filter_def)
  moreover have "list_all relation_ok (map (\<lambda>i. \<lparr>rl_id = i, rl_kind = ''related''\<rparr>) (filter is_record_id ids))" for ids
    by (auto simp: list_all_iff relation_ok_def relation_kinds_def)
  ultimately show "parse_relations e meta = Some rs \<Longrightarrow> rs \<noteq> [] \<and> list_all relation_ok rs"
    by (auto simp: parse_relations_def some_if_any_def Let_def split: option.splits json.splits if_splits)
qed

lemma all_some_length: "all_some xs = Some ys \<Longrightarrow> length ys = length xs"
  by (induction xs arbitrary: ys) (auto split: option.splits)

lemma split_on_not_empty: "split_on c s \<noteq> []"
  by (induction s) (auto split: list.split)

lemma parsed_embedding: "parse_embedding e meta \<noteq> Some []"
  using split_on_not_empty
  by (auto simp: parse_embedding_def dest!: all_some_length split: option.splits json.splits if_splits)

lemma parsed_tenant_field: "tenant_field_ok e meta k \<Longrightarrow> opt_valid is_valid_tenant_id (keep_text (str_of e meta k))"
  by (auto simp: tenant_field_ok_def keep_text_def opt_valid_def str_of_def split: option.splits)



end
