(* ===== verification/FileStoreSpec.thy ===== *)
theory FileStoreSpec
  imports FileStoreFacts
begin

text \<open>
  The contract of \<open>src/backend.ts\<close> for the file store: a table of memories keyed by organization and id,
  with the answer of every operation. The store implements it (\<open>store_simulates\<close>): whatever the places and
  texts on the disk, each operation answers as the table does and leaves the disk of the next table.
\<close>

section \<open>The table\<close>

type_synonym table = "string option \<times> string \<Rightarrow> memory option"

record store_setup =
  ss_text :: text_env
  ss_home :: path
  ss_limit :: int
  ss_access :: "string option"
  ss_date_ms :: "string \<Rightarrow> int option"

datatype store_op =
    OpStore string string store_input "rat list option" "tenant_filter option"
  | OpForget string "tenant_filter option"
  | OpArchive string string "tenant_filter option"
  | OpRevive string string "tenant_filter option"
  | OpUpdate nat string memory "nat option" "string option" "tenant_filter option"
  | OpTouch int string string "tenant_filter option"
  | OpImport memory "tenant_filter option"

datatype answer = AMemory memory | AFound "memory option" | ABool bool | ADone

definition org_of :: "tenant_filter option \<Rightarrow> string option" where
  "org_of tenant = map_option tf_organizationId tenant"

definition table_get :: "table \<Rightarrow> string \<Rightarrow> tenant_filter option \<Rightarrow> memory option" where
  "table_get A i tenant = (case A (org_of tenant, i) of None \<Rightarrow> None | Some m \<Rightarrow> if visible tenant m then Some m else None)"

definition archived_version :: "string \<Rightarrow> memory \<Rightarrow> memory" where
  "archived_version now m = m\<lparr>mm_archivedAt := Some now, mm_updatedAt := now\<rparr>"

definition revived_version :: "string \<Rightarrow> memory \<Rightarrow> memory" where
  "revived_version now m = m\<lparr>mm_archivedAt := None, mm_lastSeen := Some now, mm_updatedAt := now\<rparr>"

definition recently_seen :: "(string \<Rightarrow> int option) \<Rightarrow> int \<Rightarrow> memory \<Rightarrow> bool" where
  "recently_seen date_ms now_ms m =
     (case date_ms (or_default (mm_updatedAt m) (mm_lastSeen m)) of None \<Rightarrow> False | Some t \<Rightarrow> now_ms - t < 3600000)"

text \<open>The answer of an operation on the table, and the memory it writes or the key it clears.\<close>

datatype effect = Keep | Put memory | Clear "string option \<times> string"

definition update_effect :: "string \<Rightarrow> memory \<Rightarrow> nat option \<Rightarrow> tenant_filter option \<Rightarrow> table \<Rightarrow> answer result \<times> effect" where
  "update_effect now m expected tenant A =
     (if \<not> visible tenant m \<or> (truthy (mm_tenantId m) \<and> tenant = None) then (Inl NOT_FOUND, Keep)
      else case A (key_of m) of
          None \<Rightarrow> (Inl NOT_FOUND, Keep)
        | Some c \<Rightarrow>
            if \<not> visible tenant c then (Inl NOT_FOUND, Keep)
            else if expected \<noteq> None \<and> expected \<noteq> Some (mm_version c) then (Inl CONFLICT, Keep)
            else (let u = m\<lparr>mm_version := mm_version c + 1, mm_updatedAt := now\<rparr> in (Inr (AMemory u), Put u)))"

fun table_effect :: "store_setup \<Rightarrow> store_op \<Rightarrow> table \<Rightarrow> answer result \<times> effect" where
  "table_effect w (OpStore now i inp emb tenant) A =
     (let m = new_memory (ss_access w) now i inp emb tenant in (Inr (AMemory m), Put m))"
| "table_effect w (OpForget i tenant) A =
     (case table_get A i tenant of None \<Rightarrow> (Inr (ABool False), Keep) | Some m \<Rightarrow> (Inr (ABool True), Clear (key_of m)))"
| "table_effect w (OpArchive now i tenant) A =
     (case table_get A i tenant of
        None \<Rightarrow> (Inr (AFound None), Keep)
      | Some m \<Rightarrow> if truthy (mm_archivedAt m) then (Inr (AFound None), Keep)
                  else (Inr (AFound (Some (archived_version now m))), Put (archived_version now m)))"
| "table_effect w (OpRevive now i tenant) A =
     (case table_get A i tenant of
        None \<Rightarrow> (Inr (AFound None), Keep)
      | Some m \<Rightarrow> if \<not> truthy (mm_archivedAt m) then (Inr (AFound None), Keep)
                  else (Inr (AFound (Some (revived_version now m))), Put (revived_version now m)))"
| "table_effect w (OpUpdate ms now m expected reason tenant) A = update_effect now m expected tenant A"
| "table_effect w (OpTouch now_ms now i tenant) A =
     (case table_get A i tenant of
        None \<Rightarrow> (Inr ADone, Keep)
      | Some m \<Rightarrow> if recently_seen (ss_date_ms w) now_ms m then (Inr ADone, Keep)
                  else (Inr ADone, Put (m\<lparr>mm_lastSeen := Some now\<rparr>)))"
| "table_effect w (OpImport m tenant) A =
     (if foreign_to tenant m \<or> A (key_of m) \<noteq> None then (Inr (ABool False), Keep) else (Inr (ABool True), Put m))"

fun apply_effect :: "effect \<Rightarrow> table \<Rightarrow> table" where
  "apply_effect Keep A = A"
| "apply_effect (Put m) A = A(key_of m \<mapsto> stripped m)"
| "apply_effect (Clear k) A = A(k := None)"

section \<open>The store\<close>

definition answered :: "('a \<Rightarrow> answer) \<Rightarrow> 'a outcome \<Rightarrow> answer outcome" where
  "answered f r = (map_sum id f (fst r), snd r)"

fun store_step :: "store_setup \<Rightarrow> store_op \<Rightarrow> file_store \<Rightarrow> answer outcome" where
  "store_step w (OpStore now i inp emb tenant) s =
     answered AMemory (store_locked (ss_text w) (ss_home w) (ss_access w) now i inp emb tenant s)"
| "store_step w (OpForget i tenant) s = answered ABool (store_forget (ss_text w) (ss_home w) i tenant s)"
| "store_step w (OpArchive now i tenant) s = answered AFound (store_archive (ss_text w) (ss_home w) now i tenant s)"
| "store_step w (OpRevive now i tenant) s = answered AFound (store_revive (ss_text w) (ss_home w) now i tenant s)"
| "store_step w (OpUpdate ms now m expected reason tenant) s =
     answered AMemory (store_update (ss_text w) (ss_home w) (ss_limit w) ms now m expected reason tenant s)"
| "store_step w (OpTouch now_ms now i tenant) s =
     answered (\<lambda>_. ADone) (store_touch (ss_text w) (ss_home w) (ss_date_ms w) now_ms now i tenant s)"
| "store_step w (OpImport m tenant) s = answered ABool (import_memory_locked (ss_text w) (ss_home w) m tenant s)"

text \<open>What the caller guarantees: filters of valid organizations, fresh ids, memories that are well formed.\<close>

fun op_tenant :: "store_op \<Rightarrow> tenant_filter option" where
  "op_tenant (OpStore now i inp emb tenant) = tenant"
| "op_tenant (OpForget i tenant) = tenant"
| "op_tenant (OpArchive now i tenant) = tenant"
| "op_tenant (OpRevive now i tenant) = tenant"
| "op_tenant (OpUpdate ms now m expected reason tenant) = tenant"
| "op_tenant (OpTouch now_ms now i tenant) = tenant"
| "op_tenant (OpImport m tenant) = tenant"

definition op_ok :: "store_setup \<Rightarrow> store_op \<Rightarrow> table \<Rightarrow> bool" where
  "op_ok w op A \<longleftrightarrow>
     (case op_tenant op of None \<Rightarrow> True | Some f \<Rightarrow> is_valid_tenant_id (tf_organizationId f)) \<and>
     (case snd (table_effect w op A) of Put m \<Rightarrow> storable (ss_text w) m | _ \<Rightarrow> True) \<and>
     (case op of
        OpStore now i inp emb tenant \<Rightarrow> A (org_of tenant, i) = None
      | OpUpdate ms now m expected reason tenant \<Rightarrow> safe_memory m
      | OpImport m tenant \<Rightarrow> safe_memory m
      | _ \<Rightarrow> True)"

definition represents :: "store_setup \<Rightarrow> file_store \<Rightarrow> table \<Rightarrow> bool" where
  "represents w s A \<longleftrightarrow> disk_ok (ss_text w) (ss_home w) (fs_disk s) \<and> contents (ss_text w) (fs_disk s) = A"

section \<open>Simulation\<close>

lemma op_base:
  assumes "op_ok w op A"
  shows "base_of (ss_home w) (op_tenant op) = Inr (base_dir (ss_home w) (org_of (op_tenant op)))"
  using assms base_of_dir [of "op_tenant op" "ss_home w"] by (auto simp: op_ok_def org_of_def split: option.splits)

lemma get_represents:
  assumes "represents w s A" "base_of (ss_home w) tenant = Inr (base_dir (ss_home w) (org_of tenant))"
  shows "store_get (ss_text w) (ss_home w) i tenant s = Inr (table_get A i tenant)"
proof -
  have ok: "disk_ok (ss_text w) (ss_home w) (fs_disk s)" and A: "contents (ss_text w) (fs_disk s) = A"
    using assms(1) by (simp_all add: represents_def)
  show ?thesis
    using assms(2) find_contents [OF ok, of "org_of tenant" i] read_contents [OF ok] A
    by (simp add: store_get_def table_get_def split: option.split)
qed

lemma table_get_key:
  assumes "represents w s A" "table_get A i tenant = Some m"
  shows "A (key_of m) = Some m" "key_of m = (org_of tenant, i)" "visible tenant m" "stripped m = m"
    "storable (ss_text w) m" "map_of (fs_disk s) (place (ss_home w) m) \<noteq> None"
proof -
  have ok: "disk_ok (ss_text w) (ss_home w) (fs_disk s)" and A: "contents (ss_text w) (fs_disk s) = A"
    using assms(1) by (simp_all add: represents_def)
  have c: "A (org_of tenant, i) = Some m" and v: "visible tenant m"
    using assms(2) by (auto simp: table_get_def split: option.splits if_splits)
  have h: "holds (ss_text w) (ss_home w) (fs_disk s) m" "key_of m = (org_of tenant, i)"
    using c A contents_holds [OF ok] by auto
  show "A (key_of m) = Some m" "key_of m = (org_of tenant, i)" "visible tenant m" "stripped m = m"
    "storable (ss_text w) m" "map_of (fs_disk s) (place (ss_home w) m) \<noteq> None"
    using c v h by (simp_all add: holds_def)
qed

text \<open>The disk after a write at the place of a memory and the removal of the file its key had.\<close>

lemma put_represents:
  assumes "represents w s A" "storable (ss_text w) m"
    and "old = map_option (place (ss_home w)) (A (key_of m))"
    and "fs_disk t = put_memory (ss_text w) (ss_home w) old m (fs_disk s)"
  shows "represents w t (A(key_of m \<mapsto> stripped m))"
proof -
  have ok: "disk_ok (ss_text w) (ss_home w) (fs_disk s)" and A: "contents (ss_text w) (fs_disk s) = A"
    using assms(1) by (simp_all add: represents_def)
  have "put_memory (ss_text w) (ss_home w) old m (fs_disk s)
      = put_memory (ss_text w) (ss_home w) old (stripped m) (fs_disk s)"
    by (simp add: put_memory_def render_stripped Let_def split: option.split)
  then show ?thesis
    using put_memory_ok [OF ok, of "stripped m" old] assms(2-4) A by (simp add: represents_def)
qed

lemma archived_place:
  assumes "truthy (mm_archivedAt m) \<noteq> truthy (mm_archivedAt m')" "mm_tenantId m = mm_tenantId m'"
  shows "place home m \<noteq> place home m'"
  using assms by (auto simp: place_def plain_dir_def)

lemma move_represents:
  assumes "represents w s A" "storable (ss_text w) m'" "A (key_of m) = Some m" "key_of m' = key_of m"
    and "truthy (mm_archivedAt m) \<noteq> truthy (mm_archivedAt m')"
    and "map_of (fs_disk s) (place (ss_home w) m) \<noteq> None"
  shows "\<exists>t. move_memory (ss_text w) (place (ss_home w) m) (place (ss_home w) m') m' s = (Inr (Some m'), t) \<and>
    represents w t (A(key_of m' \<mapsto> stripped m'))"
proof -
  let ?old = "place (ss_home w) m" and ?new = "place (ss_home w) m'"
  have ne: "?old \<noteq> ?new" using archived_place [OF assms(5)] assms(4) by (simp add: key_of_def)
  let ?t = "unlink_path ?old (write_memory (ss_text w) ?new m' s)"
  have "move_memory (ss_text w) ?old ?new m' s = (Inr (Some m'), ?t)"
    using ne assms(6) by (simp add: move_memory_def write_memory_def table_simps Let_def)
  moreover have "represents w ?t (A(key_of m' \<mapsto> stripped m'))"
    by (rule put_represents [OF assms(1,2), of "Some ?old"])
      (use ne assms(3,4) in \<open>simp_all add: put_memory_def unlink_path_def write_memory_def Let_def\<close>)
  ultimately show ?thesis by blast
qed

definition simulated :: "store_setup \<Rightarrow> store_op \<Rightarrow> file_store \<Rightarrow> table \<Rightarrow> bool" where
  "simulated w op s A \<longleftrightarrow> fst (store_step w op s) = fst (table_effect w op A) \<and>
     represents w (snd (store_step w op s)) (apply_effect (snd (table_effect w op A)) A)"

lemma home_place:
  "home_ok (ss_home w) \<Longrightarrow> safe_memory m \<Longrightarrow> file_for (ss_home w) m = Inr (place (ss_home w) m)"
  by (rule file_for_place)

lemma new_memory_sel [simp]:
  "mm_tenantId (new_memory c now i inp emb tenant) = org_of tenant" "mm_id (new_memory c now i inp emb tenant) = i"
  by (simp_all add: new_memory_def org_of_def Let_def)

lemma simulated_store:
  assumes "home_ok (ss_home w)" "represents w s A" "op_ok w (OpStore now i inp emb tenant) A"
  shows "simulated w (OpStore now i inp emb tenant) s A"
proof -
  let ?m = "new_memory (ss_access w) now i inp emb tenant"
  have m: "storable (ss_text w) ?m" and fresh: "A (org_of tenant, i) = None"
    using assms(3) by (auto simp: op_ok_def Let_def)
  have "represents w (write_memory (ss_text w) (place (ss_home w) ?m) ?m s) (A(key_of ?m \<mapsto> stripped ?m))"
    by (rule put_represents [OF assms(2) m, of None])
      (use fresh in \<open>simp_all add: key_of_def put_memory_def write_memory_def\<close>)
  then show ?thesis
    using home_place [OF assms(1) storable_safe [OF m]]
    by (simp add: simulated_def answered_def store_locked_def or_fail_def Let_def)
qed

lemma simulated_forget:
  assumes "represents w s A" "op_ok w (OpForget i tenant) A"
  shows "simulated w (OpForget i tenant) s A"
proof -
  have ok: "disk_ok (ss_text w) (ss_home w) (fs_disk s)" and A: "contents (ss_text w) (fs_disk s) = A"
    using assms(1) by (simp_all add: represents_def)
  note base = op_base [OF assms(2), simplified]
  show ?thesis
  proof (cases "A (org_of tenant, i)")
    case None
    then show ?thesis
      using find_contents [OF ok, of "org_of tenant" i] A assms(1) base
      by (simp add: simulated_def answered_def store_forget_def or_fail_def table_get_def)
  next
    case (Some m)
    have "represents w (unlink_path (place (ss_home w) m) s) (A((org_of tenant, i) := None))"
      using delete_memory_ok [OF ok, of "(org_of tenant, i)" m] Some A by (simp add: represents_def unlink_path_def)
    moreover have "key_of m = (org_of tenant, i)" using contents_holds [OF ok] Some A by blast
    ultimately show ?thesis
      using find_contents [OF ok, of "org_of tenant" i] read_contents [OF ok] Some A assms(1) base
      by (simp add: simulated_def answered_def store_forget_def or_fail_def table_get_def)
  qed
qed

lemma stored_dates: "storable e m \<Longrightarrow> mm_archivedAt m \<noteq> Some ''''"
  by (auto simp: storable_def memory_ok_def memory_options_ok_def date_ok_def)

lemma simulated_archive:
  assumes "home_ok (ss_home w)" "represents w s A" "op_ok w (OpArchive now i tenant) A"
  shows "simulated w (OpArchive now i tenant) s A"
proof (cases "table_get A i tenant")
  case None
  then show ?thesis using get_represents [OF assms(2), of tenant i] op_base [OF assms(3)] assms(2)
    by (simp add: simulated_def answered_def store_archive_def or_fail_def)
next
  case (Some m)
  note got = get_represents [OF assms(2), of tenant i] op_base [OF assms(3), simplified]
  note m = table_get_key [OF assms(2) Some]
  show ?thesis
  proof (cases "truthy (mm_archivedAt m)")
    case True
    then show ?thesis using got Some assms(2)
      by (simp add: simulated_def answered_def store_archive_def or_fail_def)
  next
    case False
    let ?u = "archived_version now m"
    have u: "storable (ss_text w) ?u" using assms(3) Some False by (simp add: op_ok_def)
    have k: "key_of ?u = key_of m" "truthy (mm_archivedAt ?u)"
      using stored_dates [OF u] by (auto simp: archived_version_def key_of_def)
    obtain t where t: "move_memory (ss_text w) (place (ss_home w) m) (place (ss_home w) ?u) ?u s = (Inr (Some ?u), t)"
        "represents w t (A(key_of ?u \<mapsto> stripped ?u))"
      using move_represents [OF assms(2) u m(1) k(1)] False k(2) m(6) by auto
    moreover have "place (ss_home w) m \<noteq> place (ss_home w) ?u"
      using archived_place [of m ?u] False k by (simp add: key_of_def)
    ultimately show ?thesis
      using got Some False home_place [OF assms(1) storable_safe [OF m(5)]] home_place [OF assms(1) storable_safe [OF u]]
      by (simp add: simulated_def answered_def store_archive_def or_fail_def archived_version_def [symmetric] Let_def)
  qed
qed

lemma simulated_revive:
  assumes "home_ok (ss_home w)" "represents w s A" "op_ok w (OpRevive now i tenant) A"
  shows "simulated w (OpRevive now i tenant) s A"
proof (cases "table_get A i tenant")
  case None
  then show ?thesis using get_represents [OF assms(2), of tenant i] op_base [OF assms(3)] assms(2)
    by (simp add: simulated_def answered_def store_revive_def or_fail_def)
next
  case (Some m)
  note got = get_represents [OF assms(2), of tenant i] op_base [OF assms(3), simplified]
  note m = table_get_key [OF assms(2) Some]
  show ?thesis
  proof (cases "truthy (mm_archivedAt m)")
    case False
    then show ?thesis using got Some assms(2)
      by (simp add: simulated_def answered_def store_revive_def or_fail_def)
  next
    case True
    let ?u = "revived_version now m"
    have u: "storable (ss_text w) ?u" using assms(3) Some True by (simp add: op_ok_def)
    have k: "key_of ?u = key_of m" "\<not> truthy (mm_archivedAt ?u)"
      by (simp_all add: revived_version_def key_of_def)
    obtain t where t: "move_memory (ss_text w) (place (ss_home w) m) (place (ss_home w) ?u) ?u s = (Inr (Some ?u), t)"
        "represents w t (A(key_of ?u \<mapsto> stripped ?u))"
      using move_represents [OF assms(2) u m(1) k(1)] True k(2) m(6) by auto
    then show ?thesis
      using got Some True home_place [OF assms(1) storable_safe [OF m(5)]] home_place [OF assms(1) storable_safe [OF u]]
      by (simp add: simulated_def answered_def store_revive_def or_fail_def revived_version_def [symmetric] Let_def)
  qed
qed

lemma simulated_touch:
  assumes "home_ok (ss_home w)" "represents w s A" "op_ok w (OpTouch now_ms now i tenant) A"
  shows "simulated w (OpTouch now_ms now i tenant) s A"
proof (cases "table_get A i tenant")
  case None
  then show ?thesis using get_represents [OF assms(2), of tenant i] op_base [OF assms(3)] assms(2)
    by (simp add: simulated_def answered_def store_touch_def or_fail_def)
next
  case (Some m)
  note got = get_represents [OF assms(2), of tenant i] op_base [OF assms(3), simplified]
  note m = table_get_key [OF assms(2) Some]
  show ?thesis
  proof (cases "recently_seen (ss_date_ms w) now_ms m")
    case True
    then show ?thesis using got Some assms(2)
      by (simp add: simulated_def answered_def store_touch_def or_fail_def recently_seen_def Let_def)
  next
    case False
    let ?u = "m\<lparr>mm_lastSeen := Some now\<rparr>"
    have u: "storable (ss_text w) ?u" using assms(3) Some False by (simp add: op_ok_def)
    have k: "key_of ?u = key_of m" "place (ss_home w) ?u = place (ss_home w) m"
      by (simp_all add: key_of_def place_def plain_dir_def)
    have "represents w (write_memory (ss_text w) (place (ss_home w) ?u) ?u s) (A(key_of ?u \<mapsto> stripped ?u))"
      by (rule put_represents [OF assms(2) u, of "Some (place (ss_home w) m)"])
        (use k m(1) in \<open>simp_all add: put_memory_def write_memory_def\<close>)
    then show ?thesis
      using got Some False home_place [OF assms(1) storable_safe [OF u]]
      by (simp add: simulated_def answered_def store_touch_def or_fail_def recently_seen_def [symmetric] Let_def)
  qed
qed

text \<open>The key that a well-formed memory of the caller's own tenant has.\<close>

lemma own_key:
  assumes "safe_memory m" "visible tenant m" "\<not> (truthy (mm_tenantId m) \<and> tenant = None)"
  shows "key_of m = (org_of tenant, mm_id m)"
  using assms
  by (cases tenant; cases "mm_tenantId m")
    (auto simp: key_of_def org_of_def visible_def in_tenant_def memory_belongs_to_tenant_def memory_dims_def
      safe_memory_def is_valid_tenant_id_def split: if_splits)

text \<open>Where \<open>update\<close> looks for the present version: the file of the key, wherever its scope has put it.\<close>

lemma update_place:
  assumes ok: "disk_ok e home d" and "safe_memory m" "key_of m = (t, mm_id m)"
  shows "(if map_of d (place home m) \<noteq> None then Some (place home m) else find_file (base_dir home t) (mm_id m) d)
    = map_option (place home) (contents e d (key_of m))"
proof (cases "map_of d (place home m)")
  case None
  then show ?thesis using find_contents [OF ok, of t "mm_id m"] assms(3) by simp
next
  case (Some body)
  then obtain c where c: "holds e home d c" "place home m = place home c" using disk_ok_file [OF ok] by blast
  have "storable e c" using c(1) by (simp add: holds_def)
  then have "key_of c = key_of m"
    using place_key [OF c(2)] storable_id assms(2) by (simp add: safe_memory_def)
  then have "contents e d (key_of m) = Some c" using contents_holds [OF ok] c(1) by simp
  then show ?thesis using Some c(2) by simp
qed

lemma snapshot_disk [simp]: "fs_disk (snapshot_history limit ms dir body reason s) = fs_disk s"
  by (simp add: snapshot_history_def Let_def)

lemma simulated_update:
  assumes "home_ok (ss_home w)" "represents w s A" "op_ok w (OpUpdate ms now m expected reason tenant) A"
  shows "simulated w (OpUpdate ms now m expected reason tenant) s A"
proof -
  let ?e = "ss_text w" and ?home = "ss_home w"
  have ok: "disk_ok ?e ?home (fs_disk s)" and A: "contents ?e (fs_disk s) = A"
    using assms(2) by (simp_all add: represents_def)
  have safe: "safe_memory m" using assms(3) by (simp add: op_ok_def)
  note base = op_base [OF assms(3), simplified]
  note target = home_place [OF assms(1) safe]
  show ?thesis
  proof (cases "visible tenant m \<and> \<not> (truthy (mm_tenantId m) \<and> tenant = None)")
    case False
    then show ?thesis using assms(2) target base
      by (auto simp: simulated_def answered_def store_update_def update_effect_def or_fail_def Let_def
          split: option.split)
  next
    case True
    then have key: "key_of m = (org_of tenant, mm_id m)" using own_key [OF safe] by blast
    note spot = update_place [OF ok safe key]
    show ?thesis
    proof (cases "A (key_of m)")
      case None
      then show ?thesis using True assms(2) target base spot A
        by (simp add: simulated_def answered_def store_update_def update_effect_def or_fail_def Let_def)
    next
      case (Some c)
      have c: "read_memory ?e (place ?home c) (fs_disk s) = Some c" using read_contents [OF ok] Some A by simp
      let ?u = "m\<lparr>mm_version := mm_version c + 1, mm_updatedAt := now\<rparr>"
      have u: "key_of ?u = key_of m" "place ?home ?u = place ?home m"
        by (simp_all add: key_of_def place_def plain_dir_def)
      show ?thesis
      proof (cases "visible tenant c \<and> \<not> (expected \<noteq> None \<and> expected \<noteq> Some (mm_version c))")
        case False
        then show ?thesis using True Some c assms(2) target base spot A
          by (auto simp: simulated_def answered_def store_update_def update_effect_def or_fail_def Let_def)
      next
        case cas: True
        have su: "storable ?e ?u" using assms(3) True Some cas
          by (auto simp: op_ok_def update_effect_def Let_def)
        have "represents w t (A(key_of ?u \<mapsto> stripped ?u))"
          if "fs_disk t = put_memory ?e ?home (Some (place ?home c)) ?u (fs_disk s)" for t
          by (rule put_represents [OF assms(2) su _ that]) (use Some u in simp)
        then show ?thesis unfolding simulated_def
          using True Some c target base spot A u
          by (simp add: answered_def store_update_def update_effect_def or_fail_def Let_def
              put_memory_def write_memory_def unlink_path_def) (use True cas in auto)
      qed
    qed
  qed
qed

lemma simulated_import:
  assumes "home_ok (ss_home w)" "represents w s A" "op_ok w (OpImport m tenant) A"
  shows "simulated w (OpImport m tenant) s A"
proof -
  let ?e = "ss_text w" and ?home = "ss_home w"
  have ok: "disk_ok ?e ?home (fs_disk s)" and A: "contents ?e (fs_disk s) = A"
    using assms(2) by (simp_all add: represents_def)
  have safe: "safe_memory m" using assms(3) by (simp add: op_ok_def)
  note base = op_base [OF assms(3), simplified]
  show ?thesis
  proof (cases "foreign_to tenant m")
    case True
    then show ?thesis using assms(2) by (simp add: simulated_def answered_def import_memory_locked_def)
  next
    case False
    then have key: "key_of m = (org_of tenant, mm_id m)"
      using own_key [OF safe, of tenant] by (auto simp: foreign_to_def)
    show ?thesis
    proof (cases "A (key_of m)")
      case (Some c)
      then show ?thesis using False assms(2) base find_contents [OF ok, of "org_of tenant" "mm_id m"] key A
        by (simp add: simulated_def answered_def import_memory_locked_def or_fail_def)
    next
      case None
      have m: "storable ?e m" using assms(3) False None by (simp add: op_ok_def)
      have "represents w (write_memory ?e (place ?home m) m s) (A(key_of m \<mapsto> stripped m))"
        by (rule put_represents [OF assms(2) m, of None]) (use None in \<open>simp_all add: put_memory_def write_memory_def\<close>)
      then show ?thesis
        using False None base find_contents [OF ok, of "org_of tenant" "mm_id m"] key A home_place [OF assms(1) safe]
        by (simp add: simulated_def answered_def import_memory_locked_def or_fail_def)
    qed
  qed
qed

section \<open>Runs\<close>

text \<open>The interface of \<open>src/backend.ts\<close>: a provider whose states represent tables and whose operations, called
  as the interface allows, answer and change the table as the contract says.\<close>

fun run_ops :: "('op \<Rightarrow> 's \<Rightarrow> 'a \<times> 's) \<Rightarrow> 'op list \<Rightarrow> 's \<Rightarrow> 'a list \<times> 's" where
  "run_ops f [] s = ([], s)"
| "run_ops f (x # xs) s = (let (a, s1) = f x s; (as, s2) = run_ops f xs s1 in (a # as, s2))"

fun allowed_ops :: "('op \<Rightarrow> 't \<Rightarrow> 'a \<times> 't) \<Rightarrow> ('op \<Rightarrow> 't \<Rightarrow> bool) \<Rightarrow> 'op list \<Rightarrow> 't \<Rightarrow> bool" where
  "allowed_ops f allowed [] A \<longleftrightarrow> True"
| "allowed_ops f allowed (x # xs) A \<longleftrightarrow> allowed x A \<and> allowed_ops f allowed xs (snd (f x A))"

locale memory_backend =
  fixes step :: "'op \<Rightarrow> 's \<Rightarrow> 'a \<times> 's"
    and spec :: "'op \<Rightarrow> 't \<Rightarrow> 'a \<times> 't"
    and allowed :: "'op \<Rightarrow> 't \<Rightarrow> bool"
    and rep :: "'s \<Rightarrow> 't \<Rightarrow> bool"
  assumes step_answers: "rep s A \<Longrightarrow> allowed x A \<Longrightarrow> fst (step x s) = fst (spec x A)"
    and step_rep: "rep s A \<Longrightarrow> allowed x A \<Longrightarrow> rep (snd (step x s)) (snd (spec x A))"
begin

lemma run_refines:
  assumes "rep s A" "allowed_ops spec allowed xs A"
  shows "fst (run_ops step xs s) = fst (run_ops spec xs A) \<and> rep (snd (run_ops step xs s)) (snd (run_ops spec xs A))"
  using assms
proof (induction xs arbitrary: s A)
  case (Cons x xs)
  have "rep (snd (step x s)) (snd (spec x A))" "fst (step x s) = fst (spec x A)"
    using Cons.prems step_rep step_answers by simp_all
  then show ?case using Cons.IH [of "snd (step x s)" "snd (spec x A)"] Cons.prems(2) by (simp add: split_beta Let_def)
qed simp

end

definition table_step :: "store_setup \<Rightarrow> store_op \<Rightarrow> table \<Rightarrow> answer result \<times> table" where
  "table_step w op A = (fst (table_effect w op A), apply_effect (snd (table_effect w op A)) A)"

lemma store_simulates:
  assumes "home_ok (ss_home w)" "represents w s A" "op_ok w op A"
  shows "simulated w op s A"
  using assms
  by (cases op) (simp_all add: simulated_store simulated_forget simulated_archive simulated_revive simulated_update
    simulated_touch simulated_import)

interpretation files: memory_backend "store_step w" "table_step w" "op_ok w"
    "\<lambda>s A. home_ok (ss_home w) \<and> represents w s A" for w
  by unfold_locales (auto simp: table_step_def simulated_def dest: store_simulates)

definition empty_store :: file_store where
  "empty_store = \<lparr>fs_disk = [], fs_history = [], fs_journal = None\<rparr>"

lemma empty_represents: "represents w empty_store Map.empty"
  by (simp add: represents_def empty_store_def disk_ok_empty contents_def List.map_filter_def fun_eq_iff)


text \<open>A text environment for two memories, the second one archived.\<close>

definition pair_text_env :: "memory \<Rightarrow> memory \<Rightarrow> text_env" where
  "pair_text_env m n = (let e = sample_text_env m
     in e\<lparr>te_yaml := (\<lambda>es. if map_of es ''archivedAt'' = None then ''live'' else ''kept''),
          te_yaml_parse := (\<lambda>s. Some (JObj (front_matter e (if s = ''live'' then m else n))))\<rparr>)"

definition sample_input :: store_input where
  "sample_input = \<lparr>si_type = ''fact'', si_content = ''water'', si_scope = ''p'', si_tags = [], si_importance = 3,
     si_source = None, si_confidence = None, si_trust = None, si_retention = None, si_sourceType = None, si_labels = [],
     si_owner = None, si_access = None, si_meta = None, si_sensitivity = None, si_legalHold = None,
     si_validFrom = None, si_validUntil = None, si_observedAt = None, si_supersededBy = None\<rparr>"

definition sample_new :: memory where
  "sample_new = new_memory None ''t1'' ''0a'' sample_input None None"

definition sample_setup :: store_setup where
  "sample_setup = \<lparr>ss_text = pair_text_env sample_new (archived_version ''t2'' sample_new), ss_home = [''data''],
     ss_limit = 5, ss_access = None, ss_date_ms = (\<lambda>_. None)\<rparr>"

lemma pair_reads_back:
  assumes "mm_archivedAt m = None" "truthy (mm_archivedAt n)" "x \<in> {m, n}"
    and "set (or_default [] (mm_embedding x)) \<subseteq> {3, 4}"
  shows "reads_back (pair_text_env m n) x"
proof -
  let ?e = "pair_text_env m n"
  have "te_num ?e = te_num (sample_text_env y)" for y by (simp add: pair_text_env_def sample_text_env_def Let_def)
  then have fm: "front_matter ?e x = front_matter (sample_text_env m) x" for x by (rule front_matter_env)
  have yaml: "te_yaml ?e = (\<lambda>es. if map_of es ''archivedAt'' = None then ''live'' else ''kept'')"
    by (simp add: pair_text_env_def Let_def)
  have tx: "yaml_text ?e m = ''live''" "yaml_text ?e n = ''kept''"
    using assms(1,2)
    by (auto simp: yaml_text_def yaml front_matter_entries trim_end_def is_js_space_def in_range_def code_of_def truthy_def
        split: option.splits)
  have "te_yaml_parse ?e y = Some (JObj (front_matter ?e (if y = ''live'' then m else n)))" for y
    unfolding fm by (simp add: pair_text_env_def Let_def)
  then have "te_yaml_parse ?e (yaml_text ?e x) = Some (JObj (front_matter ?e x))" using assms(3) tx by auto
  moreover have "number_text_ok ?e q = number_text_ok (sample_text_env sample_stored) q" for q
    by (simp add: number_text_ok_def pair_text_env_def sample_text_env_def Let_def)
  moreover have "number_text_ok (sample_text_env sample_stored) 3" "number_text_ok (sample_text_env sample_stored) 4"
    by code_simp+
  moreover have "\<forall>i < length (yaml_text ?e x). take 5 (drop i (yaml_text ?e x @ marker)) \<noteq> marker"
  proof -
    have "\<forall>i < 4. take 5 (drop i (y @ marker)) \<noteq> marker" if "y = ''live'' \<or> y = ''kept''" for y
      using that by (auto simp: marker_def nl_def less_Suc_eq numeral_eq_Suc)
    moreover have "yaml_text ?e x = ''live'' \<or> yaml_text ?e x = ''kept''" using assms(3) tx by blast
    moreover from this have "length (yaml_text ?e x) = 4" by (elim disjE) simp_all
    ultimately show ?thesis by metis
  qed
  ultimately show ?thesis using assms(4) by (auto simp: reads_back_def)
qed

lemma pair_memory_ok: "memory_ok (pair_text_env x y) m = memory_ok (sample_text_env sample_stored) m"
proof -
  have "date_ok (pair_text_env x y) = date_ok (sample_text_env sample_stored)" for x y
    by (rule ext) (simp add: date_ok_def pair_text_env_def sample_text_env_def Let_def)
  then show ?thesis by (simp only: memory_ok_def memory_core_ok_def memory_options_ok_def)
qed

lemma sample_new_facts:
  "mm_archivedAt sample_new = None" "mm_embedding sample_new = None"
  "truthy (mm_archivedAt (archived_version ''t2'' sample_new))" "mm_embedding (archived_version ''t2'' sample_new) = None"
  "memory_ok (sample_text_env sample_stored) sample_new" "is_safe_scope (mm_scope sample_new)"
  "memory_ok (sample_text_env sample_stored) (archived_version ''t2'' sample_new)"
  "is_safe_scope (mm_scope (archived_version ''t2'' sample_new))"
  by code_simp+

lemma pair_storable:
  assumes "m \<in> {sample_new, archived_version ''t2'' sample_new}"
  shows "storable (ss_text sample_setup) m"
  using assms
  by (auto simp: storable_def sample_setup_def sample_new_facts pair_reads_back or_default_def pair_memory_ok)


end
