(* ===== verification/FileStoreRecovery.thy ===== *)
theory FileStoreRecovery
  imports FileStoreSpec
begin

text \<open>
  What the file store promises when it is interrupted: a batch import that fails or crashes leaves the disk as
  it was, recovery keeps a disk that is a table, and an interrupted archive ends as the archive or as nothing.
  The last section holds what recovery leaves alone.
\<close>

section \<open>The batch import\<close>

definition planned_ok :: "path \<Rightarrow> disk \<Rightarrow> (memory \<times> path) list \<Rightarrow> bool" where
  "planned_ok home d planned \<longleftrightarrow> distinct (map snd planned) \<and> (\<forall>(m, p) \<in> set planned. p \<notin> fst ` set d)"

definition written :: "text_env \<Rightarrow> (memory \<times> path) list \<Rightarrow> disk" where
  "written e planned = map (\<lambda>(m, p). (p, render e m)) planned"

lemma update_fresh: "p \<notin> fst ` set d \<Longrightarrow> AList.update p t d = d @ [(p, t)]"
  by (induction d) auto

lemma import_writes_disk:
  assumes "planned_ok home (fs_disk s) planned" "import_writes e base fails k planned s = (r, s')"
  shows "\<exists>j. fs_disk s' = fs_disk s @ written e (take j planned) \<and> fs_journal s' = fs_journal s \<and>
    fs_history s' = fs_history s"
  using assms
proof (induction planned arbitrary: s k)
  case Nil
  then show ?case by (simp add: written_def)
next
  case (Cons mp rest)
  obtain m p where mp: "mp = (m, p)" by (cases mp)
  let ?s = "write_memory e p m s"
  have d: "fs_disk ?s = fs_disk s @ [(p, render e m)]" "fs_journal ?s = fs_journal s" "fs_history ?s = fs_history s"
    using Cons.prems(1) mp by (simp_all add: write_memory_def planned_ok_def update_fresh)
  have rest: "planned_ok home (fs_disk ?s) rest" using Cons.prems(1) mp d(1) by (force simp: planned_ok_def)
  have one: "fs_disk ?s = fs_disk s @ written e (take 1 (mp # rest))" using d(1) mp by (simp add: written_def)
  consider (found) "s' = s" | (stopped) "s' = ?s" | (on) "import_writes e base fails (Suc k) rest ?s = (r, s')"
    using Cons.prems(2) mp by (auto simp: Let_def split: if_splits option.splits)
  then show ?case
  proof cases
    case found
    then show ?thesis by (intro exI [of _ 0]) (simp add: written_def)
  next
    case stopped
    then show ?thesis using one d by blast
  next
    case on
    then obtain j where "fs_disk s' = fs_disk ?s @ written e (take j rest)" "fs_journal s' = fs_journal ?s"
        "fs_history s' = fs_history ?s"
      using Cons.IH [OF rest] by blast
    then show ?thesis using d mp by (intro exI [of _ "Suc j"]) (simp add: written_def)
  qed
qed

lemma unlink_all_disk:
  "fs_disk (unlink_all ps s) = filter (\<lambda>(p, t). p \<notin> set ps) (fs_disk s)"
  "fs_journal (unlink_all ps s) = fs_journal s" "fs_history (unlink_all ps s) = fs_history s"
proof -
  have "fs_disk (fold unlink_path ps s) = filter (\<lambda>(p, t). p \<notin> set ps) (fs_disk s) \<and>
      fs_journal (fold unlink_path ps s) = fs_journal s \<and> fs_history (fold unlink_path ps s) = fs_history s"
    by (induction ps arbitrary: s) (auto simp: unlink_path_def AList.delete_eq split_beta intro: filter_cong)
  then show "fs_disk (unlink_all ps s) = filter (\<lambda>(p, t). p \<notin> set ps) (fs_disk s)"
    "fs_journal (unlink_all ps s) = fs_journal s" "fs_history (unlink_all ps s) = fs_history s"
    by (simp_all add: unlink_all_def)
qed

lemma unlink_written:
  assumes "planned_ok home d planned" "set ps = snd ` set planned"
  shows "filter (\<lambda>(p, t). p \<notin> set ps) (d @ written e (take j planned)) = d"
proof -
  have "filter (\<lambda>(p, t). p \<notin> set ps) d = d"
    using assms by (intro filter_True) (force simp: planned_ok_def)
  moreover have "filter (\<lambda>(p, t). p \<notin> set ps) (written e (take j planned)) = []"
    using assms(2) by (force simp: filter_empty_conv written_def dest: in_set_takeD)
  ultimately show ?thesis by simp
qed

subsection \<open>The plan\<close>

lemma plan_step_ok:
  assumes ok: "disk_ok e home d" and h: "home_ok home" and m: "safe_memory m"
    and acc: "planned_ok home d planned" and step: "plan_step home (base_dir home (org_of tenant)) tenant d (planned, k) m = Inr (planned', k')"
  shows "planned_ok home d planned'"
proof -
  let ?base = "base_dir home (org_of tenant)"
  consider (same) "planned' = planned"
    | (add) "planned' = planned @ [(m, place home m)]" "\<not> foreign_to tenant m" "find_file ?base (mm_id m) d = None"
        "place home m \<notin> set (map snd planned)"
    using step file_for_place [OF h m] by (auto simp: plan_step_def split: if_splits)
  then show ?thesis
  proof cases
    case same
    then show ?thesis using acc by simp
  next
    case add
    have key: "key_of m = (org_of tenant, mm_id m)"
      using own_key [OF m, of tenant] add(2) by (auto simp: foreign_to_def)
    have none: "contents e d (key_of m) = None"
      using add(3) find_contents [OF ok, of "org_of tenant" "mm_id m"] key by simp
    have "place home m \<notin> fst ` set d"
    proof
      assume "place home m \<in> fst ` set d"
      then obtain t where "map_of d (place home m) = Some t" by (metis map_of_eq_None_iff option.exhaust)
      then obtain c where c: "holds e home d c" "place home m = place home c" using disk_ok_file [OF ok] by blast
      then have "key_of m = key_of c"
        using place_key [OF c(2)] storable_id m by (auto simp: safe_memory_def holds_def)
      then show False using none c(1) contents_none [OF ok, of "key_of m"] by auto
    qed
    then show ?thesis using acc add by (auto simp: planned_ok_def)
  qed
qed

lemma plan_import_ok:
  assumes "disk_ok e home d" "home_ok home" "list_all safe_memory ms"
    "plan_import home (base_dir home (org_of tenant)) tenant d ms = Inr (planned, k)"
  shows "planned_ok home d planned"
proof -
  have "planned_ok home d (fst (planned, k))"
  proof (rule fold_res_invariant [where P = "\<lambda>r. planned_ok home d (fst r)"])
    show "fold_res (plan_step home (base_dir home (org_of tenant)) tenant d) ([], 0) ms = Inr (planned, k)"
      using assms(4) by (simp add: plan_import_def)
    show "planned_ok home d (fst acc')" if "planned_ok home d (fst acc)" "m \<in> set ms"
      "plan_step home (base_dir home (org_of tenant)) tenant d acc m = Inr acc'" for acc m acc'
      using plan_step_ok [OF assms(1,2), of m "fst acc" tenant "snd acc" "fst acc'" "snd acc'"] that assms(3)
      by (simp add: list_all_iff)
  qed (simp add: planned_ok_def)
  then show ?thesis by simp
qed

text \<open>The journal names every file the batch may write, so that removing them restores the disk.\<close>

lemma import_rolls_back:
  assumes "planned_ok home (fs_disk s) planned" "import_writes e base fails k (take n planned) (begin_import planned s) = (r, s')"
    "set ps = snd ` set planned"
  shows "fs_disk (unlink_all ps s') = fs_disk s" "fs_journal s' = Some (map snd planned)" "fs_history s' = fs_history s"
proof -
  have p: "planned_ok home (fs_disk (begin_import planned s)) (take n planned)"
    using assms(1) by (force simp: planned_ok_def begin_import_def take_map [symmetric] dest: in_set_takeD)
  obtain j where j: "fs_disk s' = fs_disk s @ written e (take j (take n planned))"
      "fs_journal s' = Some (map snd planned)" "fs_history s' = fs_history s"
    using import_writes_disk [OF p assms(2)] by (auto simp: begin_import_def)
  then show "fs_journal s' = Some (map snd planned)" "fs_history s' = fs_history s" by simp_all
  show "fs_disk (unlink_all ps s') = fs_disk s"
    using unlink_written [OF assms(1,3), of e "min j n"] j(1) by (simp add: unlink_all_disk)
qed

lemma store_eqI:
  "fs_disk s = fs_disk t \<Longrightarrow> fs_journal s = fs_journal t \<Longrightarrow> fs_history s = fs_history t \<Longrightarrow> s = (t :: file_store)"
  by (cases s; cases t) simp

section \<open>Recovery\<close>

lemma place_root:
  "below (home @ [d]) (place home m) \<longleftrightarrow> mm_tenantId m = None \<and> hd (plain_dir m) = d" if "d \<noteq> ''tenants''"
proof -
  obtain c cs where c: "plain_dir m = c # cs" "c \<in> {''global'', ''scopes'', ''archived''}" using plain_dir_head by blast
  have "place home m = home @ (case mm_tenantId m of None \<Rightarrow> [] | Some org \<Rightarrow> [''tenants'', ''tenant_'' @ base64url org]) @
      plain_dir m @ [mm_id m @ md]"
    by (simp add: place_def base_dir_def split: option.split)
  then show ?thesis using that c by (cases "mm_tenantId m") (auto simp: below_append below_one)
qed

lemma hd_plain_dir:
  "hd (plain_dir m) = (if truthy (mm_archivedAt m) then ''archived''
     else if mm_scope m = ''global'' then ''global'' else ''scopes'')"
  by (simp add: plain_dir_def)

lemma place_active:
  "(\<exists>dir \<in> set (active_dirs home). below dir (place home m)) \<longleftrightarrow> mm_tenantId m = None \<and> \<not> truthy (mm_archivedAt m)"
  by (simp add: active_dirs_def place_root hd_plain_dir)

lemma place_archived:
  "below (home @ [''archived'']) (place home m) \<longleftrightarrow> mm_tenantId m = None \<and> truthy (mm_archivedAt m)"
  by (simp add: place_root hd_plain_dir)

text \<open>The files of a good disk, and of one with a second file for a memory.\<close>

definition doubled :: "text_env \<Rightarrow> path \<Rightarrow> disk \<Rightarrow> memory \<Rightarrow> disk" where
  "doubled e home d u = AList.update (place home u) (render e u) d"

lemma doubled_file:
  assumes "disk_ok e home d" "p \<in> fst ` set (doubled e home d u)"
  shows "\<exists>c. p = place home c \<and> (holds e home d c \<or> c = u)"
proof -
  have "p = place home u \<or> p \<in> fst ` set d" using assms(2) by (auto simp: doubled_def AList.update_keys dom_update)
  then show ?thesis
  proof
    assume "p \<in> fst ` set d"
    then obtain t where "map_of d p = Some t" by (metis map_of_eq_None_iff option.exhaust)
    then show ?thesis using disk_ok_file [OF assms(1)] by blast
  qed blast
qed

definition root_active :: "memory \<Rightarrow> bool" where
  "root_active m \<longleftrightarrow> mm_tenantId m = None \<and> \<not> truthy (mm_archivedAt m)"

definition root_archived :: "memory \<Rightarrow> bool" where
  "root_archived m \<longleftrightarrow> mm_tenantId m = None \<and> truthy (mm_archivedAt m)"

lemma active_file:
  assumes "disk_ok e home d" "p \<in> set (walk (active_dirs home) (doubled e home d u))"
  shows "\<exists>c. p = place home c \<and> (holds e home d c \<or> c = u) \<and> root_active c"
proof -
  have p: "\<exists>dir \<in> set (active_dirs home). below dir p" "p \<in> fst ` set (doubled e home d u)"
    using assms(2) by (auto simp: in_walk)
  obtain c where c: "p = place home c" "holds e home d c \<or> c = u" using doubled_file [OF assms(1) p(2)] by blast
  then show ?thesis using p(1) place_active [of home c] by (auto simp: root_active_def)
qed

lemma archived_file:
  assumes "disk_ok e home d" "p \<in> set (walk [home @ [''archived'']] (doubled e home d u))"
  shows "\<exists>c. p = place home c \<and> (holds e home d c \<or> c = u) \<and> root_archived c"
proof -
  have p: "below (home @ [''archived'']) p" "p \<in> fst ` set (doubled e home d u)"
    using assms(2) by (auto simp: in_walk)
  obtain c where c: "p = place home c" "holds e home d c \<or> c = u" using doubled_file [OF assms(1) p(2)] by blast
  then show ?thesis using p(1) place_archived [of home c] by (auto simp: root_archived_def)
qed

text \<open>A pair that recovery sees is the doubled memory with its new version.\<close>

lemma twin_pair:
  assumes ok: "disk_ok e home d" and u: "storable e u" "key_of u = key_of m" and m: "holds e home d m"
    and p: "p \<in> set (walk (active_dirs home) (doubled e home d u))"
    and z: "z \<in> set (walk [home @ [''archived'']] (doubled e home d u))" and same: "base_name z = base_name p"
  shows "(p = place home m \<and> z = place home u \<and> root_active m \<and> root_archived u) \<or>
         (p = place home u \<and> z = place home m \<and> root_active u \<and> root_archived m)"
proof -
  obtain a where a: "p = place home a" "holds e home d a \<or> a = u" "root_active a" using active_file [OF ok p] by blast
  obtain b where b: "z = place home b" "holds e home d b \<or> b = u" "root_archived b" using archived_file [OF ok z] by blast
  have id: "is_record_id (mm_id a)" "is_record_id (mm_id b)"
    using a(2) b(2) storable_id u(1) by (auto simp: holds_def)
  have "mm_id a = mm_id b" using same a(1) b(1) base_name_place [OF id(1)] base_name_place [OF id(2)] by simp
  then have key: "key_of a = key_of b" using a(3) b(3) by (simp add: key_of_def root_active_def root_archived_def)
  have ne: "a \<noteq> b" using a(3) b(3) by (auto simp: root_active_def root_archived_def)
  have am: "a = m" if "b = u"
    by (rule disk_ok_unique [OF ok _ m]) (use that a(2) ne key u(2) in simp_all)
  have bm: "b = m" if "a = u"
    by (rule disk_ok_unique [OF ok _ m]) (use that b(2) ne key u(2) in simp_all)
  have "a = u \<or> b = u"
  proof (rule ccontr)
    assume "\<not> (a = u \<or> b = u)"
    then have "a = b" using disk_ok_unique [OF ok _ _ key] a(2) b(2) by blast
    then show False using ne by blast
  qed
  then show ?thesis using am bm a(1,3) b(1,3) by blast
qed

lemma recover_nothing:
  assumes "fs_journal s = None"
    and "\<And>p z. p \<in> set (walk (active_dirs home) (fs_disk s)) \<Longrightarrow> z \<in> set (walk [home @ [''archived'']] (fs_disk s)) \<Longrightarrow>
      base_name z \<noteq> base_name p"
  shows "store_recover e date_ms home s = s"
proof -
  let ?z = "walk [home @ [''archived'']] (fs_disk s)"
  have "reconcile_pair e date_ms ?z p t = t" if "p \<in> set (walk (active_dirs home) (fs_disk s))" for p t
  proof -
    have "archived_twin p ?z = None" using assms(2) [OF that] by (simp add: archived_twin_def find_None_iff)
    then show ?thesis by (simp add: reconcile_pair_def)
  qed
  then have "fold (reconcile_pair e date_ms ?z) ps t = t" if "set ps \<subseteq> set (walk (active_dirs home) (fs_disk s))" for ps t
    using that by (induction ps) auto
  then show ?thesis using assms(1) by (simp add: store_recover_def reconcile_import_def Let_def)
qed

lemma recover_good_disk:
  assumes ok: "disk_ok e home (fs_disk s)" and "fs_journal s = None"
  shows "store_recover e date_ms home s = s"
proof (rule recover_nothing [OF assms(2)])
  fix p z
  assume p: "p \<in> set (walk (active_dirs home) (fs_disk s))" and z: "z \<in> set (walk [home @ [''archived'']] (fs_disk s))"
  have "p \<in> fst ` set (fs_disk s)" using p by (auto simp: in_walk)
  then obtain t where "map_of (fs_disk s) p = Some t" by (metis map_of_eq_None_iff option.exhaust)
  then obtain m where m: "holds e home (fs_disk s) m" "p = place home m" "t = render e m" using disk_ok_file [OF ok] by blast
  have "doubled e home (fs_disk s) m = fs_disk s"
    using m(1) by (simp add: doubled_def holds_def update_same)
  then show "base_name z \<noteq> base_name p"
    using twin_pair [OF ok _ _ m(1), of m p z] m(1) p z by (auto simp: holds_def root_active_def root_archived_def)
qed

section \<open>Interrupted operations\<close>

lemma import_base:
  assumes "\<forall>f \<in> set_option tenant. is_valid_tenant_id (tf_organizationId f)"
  shows "base_of home tenant = Inr (base_dir home (org_of tenant))"
  using base_of_dir [of tenant home] assms by (simp add: org_of_def)

text \<open>C31. A batch import writes every planned memory or nothing: when the host's hook fails after any write the
  store is the one before, and when the process dies after any number of writes recovery brings that store back.\<close>

theorem import_all_or_nothing:
  assumes "disk_ok e home (fs_disk s)" "home_ok home" "fs_journal s = None" "list_all safe_memory ms"
    "\<forall>f \<in> set_option tenant. is_valid_tenant_id (tf_organizationId f)"
  shows "(fst (import_batch e home fails ms tenant s) = Inl x \<longrightarrow> snd (import_batch e home fails ms tenant s) = s) \<and>
    store_recover e date_ms home (import_crash e home k ms tenant s) = s"
proof -
  note base = import_base [OF assms(5), of home]
  note plan = plan_import_ok [OF assms(1,2,4), of tenant]
  have undone: "fs_disk (unlink_all ps s') = fs_disk s \<and> fs_journal s' = Some (map snd planned) \<and> fs_history s' = fs_history s"
    if "planned_ok home (fs_disk s) planned" "import_writes e (base_dir home (org_of tenant)) h 0 (take n planned) (begin_import planned s) = (r, s')"
      "set ps = snd ` set planned" for planned ps n h r s'
    using import_rolls_back [OF that] by simp
  have "snd (import_batch e home fails ms tenant s) = s" if f: "fst (import_batch e home fails ms tenant s) = Inl x"
  proof (cases "plan_import home (base_dir home (org_of tenant)) tenant (fs_disk s) ms")
    case (Inl y)
    then show ?thesis using base by (simp add: import_batch_def or_fail_def)
  next
    case (Inr r)
    obtain planned skipped where r: "r = (planned, skipped)" by (cases r)
    obtain w s' where w: "import_writes e (base_dir home (org_of tenant)) fails 0 planned (begin_import planned s) = (w, s')"
      by fastforce
    have "snd (import_batch e home fails ms tenant s) = (unlink_all (rev (map snd planned)) s')\<lparr>fs_journal := None\<rparr>"
      if "planned \<noteq> []" "\<not> int (length planned) > max_journal_paths"
      using f that Inr r w base by (simp add: import_batch_def or_fail_def split: sum.splits)
    moreover have "(unlink_all (rev (map snd planned)) s')\<lparr>fs_journal := None\<rparr> = s"
      using undone [of planned fails "length planned" w s' "rev (map snd planned)"] plan Inr r w assms(3)
      by (intro store_eqI) (simp_all add: unlink_all_disk)
    ultimately show ?thesis using f Inr r base by (auto simp: import_batch_def or_fail_def)
  qed
  moreover have "store_recover e date_ms home (import_crash e home k ms tenant s) = s"
  proof -
  have "reconcile_import (import_crash e home k ms tenant s) = s"
  proof (cases "plan_import home (base_dir home (org_of tenant)) tenant (fs_disk s) ms")
    case (Inl y)
    then show ?thesis using base assms(3) by (simp add: import_crash_def reconcile_import_def)
  next
    case (Inr r)
    obtain planned skipped where r: "r = (planned, skipped)" by (cases r)
    obtain w s' where w: "import_writes e (base_dir home (org_of tenant)) None 0 (take k planned) (begin_import planned s) = (w, s')"
      by fastforce
    have "reconcile_import s' = s"
      using undone [of planned None k w s' "map snd planned"] plan Inr r w assms(3)
      by (intro store_eqI) (simp_all add: reconcile_import_def unlink_all_disk)
    moreover have "import_crash e home k ms tenant s = (if planned = [] \<or> int (length planned) > max_journal_paths then s else s')"
      using Inr r w base by (simp add: import_crash_def)
    ultimately show ?thesis using assms(3) by (simp add: reconcile_import_def)
  qed
  moreover have "reconcile_import s = s" using assms(3) by (simp add: reconcile_import_def)
  ultimately show ?thesis
    using recover_good_disk [OF assms(1,3), of date_ms] by (simp add: store_recover_def)
  qed
  ultimately show ?thesis by blast
qed

text \<open>A second file for a memory that recovery does not see as a pair stays where it is.\<close>

lemma recover_leaves:
  assumes ok: "disk_ok e home (fs_disk s)" and m: "holds e home (fs_disk s) m" and u: "storable e u" "key_of u = key_of m"
    and "fs_journal s = None" and "mm_tenantId m \<noteq> None \<or> truthy (mm_archivedAt u) = truthy (mm_archivedAt m)"
  shows "store_recover e date_ms home (write_memory e (place home u) u s) = write_memory e (place home u) u s"
proof (rule recover_nothing)
  fix p z
  have d: "fs_disk (write_memory e (place home u) u s) = doubled e home (fs_disk s) u"
    by (simp add: write_memory_def doubled_def)
  assume "p \<in> set (walk (active_dirs home) (fs_disk (write_memory e (place home u) u s)))"
    "z \<in> set (walk [home @ [''archived'']] (fs_disk (write_memory e (place home u) u s)))"
  then show "base_name z \<noteq> base_name p"
    using twin_pair [OF ok u m, of p z] assms(6) unfolding d root_active_def root_archived_def by auto
qed (simp add: write_memory_def assms(5))

lemma fold_one:
  assumes "\<And>p t. p \<in> set ps \<Longrightarrow> p \<noteq> q \<Longrightarrow> f p t = t" "q \<in> set ps" "f q (f q s) = f q s"
  shows "fold f ps s = f q s"
proof -
  have stay: "fold f qs t = t" if "set qs \<subseteq> set ps" "f q t = t" for qs t
    using that
  proof (induction qs)
    case (Cons a qs)
    then show ?case using assms(1) [of a t] by (cases "a = q") auto
  qed simp
  obtain xs ys where split: "ps = xs @ q # ys" "q \<notin> set xs" using split_list_first [OF assms(2)] by blast
  have "fold f xs s = s" using split assms(1) by (induction xs arbitrary: ps) auto
  moreover have "set ys \<subseteq> set ps" using split by auto
  ultimately show ?thesis using stay [of ys "f q s"] split assms(3) by simp
qed

text \<open>An archive that dies between its write and its unlink.\<close>

definition archive_crash ::
  "text_env \<Rightarrow> path \<Rightarrow> string \<Rightarrow> string \<Rightarrow> tenant_filter option \<Rightarrow> file_store \<Rightarrow> file_store" where
  "archive_crash e home now i tenant s =
     (case store_get e home i tenant s of
        Inr (Some m) \<Rightarrow>
          (let updated = archived_version now m
           in if truthy (mm_archivedAt m) then s
              else (case file_for home updated of Inl x \<Rightarrow> s | Inr new \<Rightarrow> write_memory e new updated s))
      | _ \<Rightarrow> s)"

lemma delete_fresh: "p \<notin> fst ` set d \<Longrightarrow> AList.delete p (AList.update p t d) = d"
  by (induction d) auto

lemma find_unique:
  assumes "x \<in> set xs" "P x" "\<And>y. y \<in> set xs \<Longrightarrow> P y \<Longrightarrow> y = x"
  shows "find P xs = Some x"
proof -
  obtain y where y: "find P xs = Some y" using assms(1,2) by (metis find_None_iff option.exhaust)
  then have "y \<in> set xs" "P y" by (auto simp: find_Some_iff)
  then show ?thesis using assms(3) y by simp
qed

lemma stripped_iff: "stripped m = m \<longleftrightarrow> mm_sensitivity m = None \<and> mm_legalHold m = None"
  by (cases m) (auto simp: stripped_def)

lemma pair_recovered:
  assumes ok: "disk_ok e home (fs_disk s)" and m: "holds e home (fs_disk s) m" "root_active m"
    and u: "storable e u" "stripped u = u" "key_of u = key_of m" "root_archived u" and j: "fs_journal s = None"
  shows "store_recover e date_ms home (write_memory e (place home u) u s) =
    (if keep_archived date_ms (Some m) (Some u)
     then unlink_path (place home m) (write_memory e (place home u) u s) else s)"
proof -
  let ?t = "write_memory e (place home u) u s" and ?old = "place home m" and ?new = "place home u"
  let ?zs = "walk [home @ [''archived'']] (fs_disk ?t)" and ?ps = "walk (active_dirs home) (fs_disk ?t)"
  let ?f = "reconcile_pair e date_ms ?zs" and ?keep = "keep_archived date_ms (Some m) (Some u)"
  have d: "fs_disk ?t = doubled e home (fs_disk s) u" by (simp add: write_memory_def doubled_def)
  have ne: "?old \<noteq> ?new"
    using archived_place [of m u home] m(2) u(4) by (simp add: root_active_def root_archived_def)
  have id: "is_record_id (mm_id m)" "is_record_id (mm_id u)"
    using storable_id m(1) u(1) by (auto simp: holds_def)
  have names: "base_name ?new = base_name ?old"
    using base_name_place [OF id(1)] base_name_place [OF id(2)] u(3) by (simp add: key_of_def)
  have on_disk: "map_of (fs_disk ?t) ?old = Some (render e m)" "map_of (fs_disk ?t) ?new = Some (render e u)"
    using m(1) ne by (simp_all add: write_memory_def table_simps holds_def)
  have old: "?old \<in> set ?ps"
    using on_disk(1) place_active [of home m] m(2)
    by (auto simp: in_walk is_md_place root_active_def dest: get_in_set intro: image_eqI [rotated])
  have new: "?new \<in> set ?zs"
    using on_disk(2) place_archived [of home u] u(4)
    by (auto simp: in_walk is_md_place root_archived_def dest: get_in_set intro: image_eqI [rotated])
  have "\<not> root_active u" using u(4) by (simp add: root_active_def root_archived_def)
  then have pairs: "p = ?old \<and> z = ?new" if "p \<in> set ?ps" "z \<in> set ?zs" "base_name z = base_name p" for p z
    using twin_pair [OF ok u(1,3) m(1) that(1) [unfolded d] that(2) [unfolded d] that(3)] by blast
  have twin: "archived_twin ?old ?zs = Some ?new"
    unfolding archived_twin_def
  proof (rule find_unique)
    show "z = ?new" if "z \<in> set (rev ?zs)" "base_name z = base_name ?old" for z
      using pairs [OF old, of z] that by simp
  qed (use new names in simp_all)
  have others: "?f p x = x" if "p \<in> set ?ps" "p \<noteq> ?old" for p x
  proof -
    have "archived_twin p ?zs = None" using pairs [OF that(1)] that(2) by (auto simp: archived_twin_def find_None_iff)
    then show ?thesis by (simp add: reconcile_pair_def)
  qed
  have parsed: "parse e (base_name ?old) (render e m) = Some m" "parse e (base_name ?new) (render e u) = Some u"
    using holds_parse [OF m(1)] parse_storable [OF u(1)] base_name_place [OF id(2)] u(2) by simp_all
  have step: "?f ?old ?t = unlink_path (if ?keep then ?old else ?new) ?t"
    using parsed on_disk by (simp add: reconcile_pair_def twin read_memory_def)
  have again: "?f ?old (?f ?old ?t) = ?f ?old ?t"
    using parsed on_disk ne
    by (auto simp: step reconcile_pair_def twin read_memory_def unlink_path_def table_simps keep_archived_def Let_def
        AList.delete_idem)
  have "?new \<notin> fst ` set (fs_disk s)"
  proof
    assume "?new \<in> fst ` set (fs_disk s)"
    then obtain body where "map_of (fs_disk s) ?new = Some body" by (metis map_of_eq_None_iff option.exhaust)
    then obtain c where c: "holds e home (fs_disk s) c" "?new = place home c" using disk_ok_file [OF ok] by blast
    then have "key_of c = key_of m" using holds_key_place [OF c(1) u(1)] u(3) by simp
    then show False using disk_ok_unique [OF ok c(1) m(1)] c(2) ne by simp
  qed
  then have "unlink_path ?new ?t = s"
    by (intro store_eqI) (simp_all add: unlink_path_def write_memory_def delete_fresh)
  moreover have "fs_journal ?t = None" using j by (simp add: write_memory_def)
  ultimately show ?thesis
    using fold_one [of ?ps ?old ?f ?t, OF others old again] step by (simp add: store_recover_def reconcile_import_def Let_def)
qed


section \<open>Samples\<close>

definition sample_store :: file_store where
  "sample_store = \<lparr>fs_disk = [(place [''data''] sample_new, render (ss_text sample_setup) sample_new)], fs_history = [],
     fs_journal = None\<rparr>"

lemma sample_setup_facts:
  "home_ok (ss_home sample_setup)" "ss_home sample_setup = [''data'']" "ss_access sample_setup = None"
  "stripped sample_new = sample_new" "truthy (mm_archivedAt sample_new) = False" "mm_archivedAt sample_new = None"
  "key_of sample_new = (None, ''0a'')" "mm_tenantId sample_new = None"
  by code_simp+

lemma sample_represents: "represents sample_setup sample_store [(None, ''0a'') \<mapsto> sample_new]"
proof -
  have "represents sample_setup (write_memory (ss_text sample_setup) (place [''data''] sample_new) sample_new empty_store)
      (Map.empty(key_of sample_new \<mapsto> stripped sample_new))"
    by (rule put_represents [OF empty_represents, of sample_setup sample_new None])
      (simp_all add: pair_storable put_memory_def write_memory_def sample_setup_facts)
  moreover have "write_memory (ss_text sample_setup) (place [''data''] sample_new) sample_new empty_store = sample_store"
    by (simp add: write_memory_def empty_store_def sample_store_def)
  ultimately show ?thesis by (simp add: sample_setup_facts)
qed


definition sample_import :: "memory list" where
  "sample_import = [sample_new\<lparr>mm_id := ''0b''\<rparr>, sample_new\<lparr>mm_id := ''0c''\<rparr>]"

theorem import_all_or_nothing_witness:
  "fst (import_batch (ss_text sample_setup) [''data''] (Some (1, INVALID_INPUT)) sample_import None sample_store) = Inl INVALID_INPUT \<and>
   snd (import_batch (ss_text sample_setup) [''data''] (Some (1, INVALID_INPUT)) sample_import None sample_store) = sample_store \<and>
   store_recover (ss_text sample_setup) (\<lambda>_. None) [''data'']
     (import_crash (ss_text sample_setup) [''data''] 1 sample_import None sample_store) = sample_store"
proof -
  have ok: "disk_ok (ss_text sample_setup) [''data''] (fs_disk sample_store)"
    using sample_represents by (simp add: represents_def sample_setup_facts)
  have h: "home_ok [''data'']" "fs_journal sample_store = None" "list_all safe_memory sample_import"
    by code_simp+
  have "fst (import_batch (ss_text sample_setup) [''data''] (Some (1, INVALID_INPUT)) sample_import None sample_store) = Inl INVALID_INPUT"
    by code_simp
  then show ?thesis
    using import_all_or_nothing [OF ok h, of None "Some (1, INVALID_INPUT)" INVALID_INPUT "\<lambda>_. None" 1] by simp
qed

section \<open>What recovery leaves alone\<close>

text \<open>Recovery does not finish an interrupted archive of an organization's memory: both copies stay on the disk,
  since only the trees outside \<open>tenants/\<close> are searched for pairs.\<close>

theorem organization_archive_unrecovered:
  assumes "home_ok (ss_home w)" "represents w s A" "op_ok w (OpArchive now i (Some f)) A" "fs_journal s = None"
    "table_get A i (Some f) = Some m" "mm_archivedAt m = None"
  shows "let t = archive_crash (ss_text w) (ss_home w) now i (Some f) s in
     store_recover (ss_text w) date_ms (ss_home w) t = t \<and> map_of (fs_disk t) (place (ss_home w) m) \<noteq> None \<and>
     map_of (fs_disk t) (place (ss_home w) (archived_version now m)) \<noteq> None \<and>
     place (ss_home w) m \<noteq> place (ss_home w) (archived_version now m)"
proof -
  let ?e = "ss_text w" and ?home = "ss_home w" and ?u = "archived_version now m"
  have got: "store_get ?e ?home i (Some f) s = Inr (Some m)"
    using get_represents [OF assms(2), of "Some f" i] op_base [OF assms(3)] assms(5) by simp
  note k = table_get_key [OF assms(2,5)]
  have ok: "disk_ok ?e ?home (fs_disk s)" using assms(2) by (simp add: represents_def)
  have m: "holds ?e ?home (fs_disk s) m"
    using k(1) assms(2) contents_holds [OF ok, of "key_of m" m] by (simp add: represents_def)
  have u: "storable ?e ?u" using assms(3,5,6) by (simp add: op_ok_def)
  have un: "key_of ?u = key_of m" "truthy (mm_archivedAt ?u)" "mm_tenantId m \<noteq> None"
    using k(2) stored_dates [OF u] by (auto simp: archived_version_def key_of_def org_of_def)
  have crash: "archive_crash ?e ?home now i (Some f) s = write_memory ?e (place ?home ?u) ?u s"
    using got assms(6) home_place [OF assms(1) storable_safe [OF u]] by (simp add: archive_crash_def Let_def)
  have ne: "place ?home m \<noteq> place ?home ?u"
    using archived_place [of m ?u] un assms(6) by (simp add: key_of_def)
  show ?thesis
    using recover_leaves [OF ok m u un(1) assms(4)] un(3) crash ne k(6)
    by (auto simp: Let_def write_memory_def table_simps)
qed

definition sample_org_input :: store_input where
  "sample_org_input = sample_input\<lparr>si_scope := ''global''\<rparr>"

definition sample_org_filter :: tenant_filter where
  "sample_org_filter = \<lparr>tf_organizationId = ''acme'', tf_projectId = None, tf_userId = None, tf_agentId = None,
     tf_organizationWide = None\<rparr>"

definition sample_org_memory :: memory where
  "sample_org_memory = new_memory None ''t1'' ''0a'' sample_org_input None (Some sample_org_filter)"

definition sample_org_setup :: store_setup where
  "sample_org_setup = sample_setup\<lparr>ss_text := pair_text_env sample_org_memory (archived_version ''t2'' sample_org_memory)\<rparr>"

lemma sample_org_facts:
  "home_ok (ss_home sample_org_setup)" "mm_archivedAt sample_org_memory = None"
  "key_of sample_org_memory = (Some ''acme'', ''0a'')" "stripped sample_org_memory = sample_org_memory"
  "visible (Some sample_org_filter) sample_org_memory" "is_valid_tenant_id (tf_organizationId sample_org_filter)"
  "tf_organizationId sample_org_filter = ''acme''"
  "memory_ok (sample_text_env sample_stored) sample_org_memory" "is_safe_scope (mm_scope sample_org_memory)"
  "memory_ok (sample_text_env sample_stored) (archived_version ''t2'' sample_org_memory)"
  "is_safe_scope (mm_scope (archived_version ''t2'' sample_org_memory))"
  "mm_embedding sample_org_memory = None" "mm_embedding (archived_version ''t2'' sample_org_memory) = None"
  "truthy (mm_archivedAt (archived_version ''t2'' sample_org_memory))"
  by code_simp+

lemma sample_org_storable:
  "storable (ss_text sample_org_setup) sample_org_memory"
  "storable (ss_text sample_org_setup) (archived_version ''t2'' sample_org_memory)"
  by (simp_all add: storable_def sample_org_setup_def sample_org_facts pair_reads_back or_default_def pair_memory_ok)

theorem organization_archive_unrecovered_witness:
  "\<exists>s. represents sample_org_setup s [(Some ''acme'', ''0a'') \<mapsto> sample_org_memory] \<and>
     (let t = archive_crash (ss_text sample_org_setup) (ss_home sample_org_setup) ''t2'' ''0a'' (Some sample_org_filter) s in
      store_recover (ss_text sample_org_setup) (\<lambda>_. Some 1) (ss_home sample_org_setup) t = t \<and>
      map_of (fs_disk t) (place (ss_home sample_org_setup) sample_org_memory) \<noteq> None)"
proof -
  let ?w = sample_org_setup and ?m = sample_org_memory
  let ?A = "[(Some ''acme'', ''0a'') \<mapsto> sample_org_memory]"
  let ?s = "write_memory (ss_text ?w) (place (ss_home ?w) ?m) ?m empty_store"
  have rep: "represents ?w ?s ?A"
    using put_represents [OF empty_represents sample_org_storable(1), of None ?s] sample_org_facts
    by (simp add: put_memory_def write_memory_def)
  have "op_ok ?w (OpArchive ''t2'' ''0a'' (Some sample_org_filter)) ?A" "table_get ?A ''0a'' (Some sample_org_filter) = Some ?m"
    using sample_org_facts sample_org_storable(2) by (simp_all add: op_ok_def table_get_def org_of_def)
  moreover have "fs_journal ?s = None" by (simp add: write_memory_def empty_store_def)
  ultimately show ?thesis
    using organization_archive_unrecovered [of ?w ?s ?A "''t2''" "''0a''" sample_org_filter ?m "\<lambda>_. Some 1"] rep sample_org_facts
    by (intro exI [of _ ?s]) (simp add: Let_def)
qed

lemma map_sum_answer: "map_sum id ABool r = Inr (ABool b) \<Longrightarrow> r = Inr b"
  by (cases r) auto

lemma new_memory_visible: "visible tenant (new_memory c now i inp emb tenant)"
  by (cases tenant)
    (auto simp: visible_def in_tenant_def memory_belongs_to_tenant_def memory_dims_def new_memory_def keep_text_def Let_def)

text \<open>A legal hold or a sensitivity band asked for on store is lost in the file store: the memory reads back
  without them, and a forget right after the store destroys it.\<close>

theorem legal_hold_not_kept:
  assumes "home_ok (ss_home w)" "represents w s A" "op_ok w (OpStore now i inp emb tenant) A"
    "si_legalHold inp = Some True"
  shows "let t = snd (store_locked (ss_text w) (ss_home w) (ss_access w) now i inp emb tenant s) in
     (\<exists>m. store_get (ss_text w) (ss_home w) i tenant t = Inr (Some m) \<and> mm_legalHold m = None \<and> mm_sensitivity m = None) \<and>
     fst (store_forget (ss_text w) (ss_home w) i tenant t) = Inr True"
proof -
  let ?e = "ss_text w" and ?home = "ss_home w" and ?m = "new_memory (ss_access w) now i inp emb tenant"
  let ?t = "snd (store_locked ?e ?home (ss_access w) now i inp emb tenant s)"
  have key: "key_of ?m = (org_of tenant, i)" by (simp add: key_of_def)
  have rep: "represents w ?t (A((org_of tenant, i) \<mapsto> stripped ?m))"
    using simulated_store [OF assms(1-3)] key by (simp add: simulated_def answered_def Let_def)
  have base: "base_of ?home tenant = Inr (base_dir ?home (org_of tenant))" using op_base [OF assms(3)] by simp
  have got: "table_get (A((org_of tenant, i) \<mapsto> stripped ?m)) i tenant = Some (stripped ?m)"
    by (simp add: table_get_def new_memory_visible)
  have "op_ok w (OpForget i tenant) (A((org_of tenant, i) \<mapsto> stripped ?m))"
    using assms(3) got by (simp add: op_ok_def)
  then have "fst (store_forget ?e ?home i tenant ?t) = Inr True"
    using simulated_forget [OF rep, of i tenant] got by (auto simp: simulated_def answered_def dest: map_sum_answer)
  moreover have "store_get ?e ?home i tenant ?t = Inr (Some (stripped ?m))"
    using get_represents [OF rep base, of i] got by simp
  moreover have "mm_legalHold (stripped ?m) = None" "mm_sensitivity (stripped ?m) = None" by (simp_all add: stripped_def)
  ultimately show ?thesis by (auto simp: Let_def)
qed

theorem legal_hold_not_kept_witness:
  "si_legalHold (sample_input\<lparr>si_legalHold := Some True\<rparr>) = Some True \<and>
   fst (store_forget (ss_text sample_setup) [''data''] ''0a'' None
     (snd (store_locked (ss_text sample_setup) [''data''] None ''t1'' ''0a'' (sample_input\<lparr>si_legalHold := Some True\<rparr>) None None
        empty_store))) = Inr True"
proof -
  let ?inp = "sample_input\<lparr>si_legalHold := Some True\<rparr>"
  have "new_memory None ''t1'' ''0a'' ?inp None None = sample_new"
    by (simp add: sample_new_def new_memory_def input_provenance_def)
  then have "op_ok sample_setup (OpStore ''t1'' ''0a'' ?inp None None) Map.empty"
    by (simp add: op_ok_def sample_setup_facts pair_storable Let_def)
  then show ?thesis
    using legal_hold_not_kept [of sample_setup empty_store Map.empty "''t1''" "''0a''" ?inp None None] sample_setup_facts
      empty_represents by (simp add: Let_def)
qed

section \<open>Lost updates\<close>

lemma or_fail_keeps:
  "(\<And>v. fst (k v) = Inl x \<longrightarrow> snd (k v) = s) \<Longrightarrow> fst (or_fail r s k) = Inl x \<longrightarrow> snd (or_fail r s k) = s"
  by (cases r) (simp_all add: or_fail_def)

lemma if_keeps:
  "(fst a = Inl x \<longrightarrow> snd a = s) \<Longrightarrow> (fst b = Inl x \<longrightarrow> snd b = s) \<Longrightarrow>
   fst (if c then a else b) = Inl x \<longrightarrow> snd (if c then a else b) = s"
  by simp

lemma option_keeps:
  "(fst a = Inl x \<longrightarrow> snd a = s) \<Longrightarrow> (\<And>v. fst (b v) = Inl x \<longrightarrow> snd (b v) = s) \<Longrightarrow>
   fst (case r of None \<Rightarrow> a | Some v \<Rightarrow> b v) = Inl x \<longrightarrow> snd (case r of None \<Rightarrow> a | Some v \<Rightarrow> b v) = s"
  by (cases r) simp_all

lemma failed_update_keeps:
  "fst (store_update e home limit ms now m expected reason tenant s) = Inl x \<longrightarrow>
   snd (store_update e home limit ms now m expected reason tenant s) = s"
  unfolding store_update_def Let_def prod.case
  by (intro if_keeps or_fail_keeps option_keeps) simp_all

text \<open>C33. Of two updates of a memory that were read at the same version, the second one loses: it fails with a
  conflict and leaves the store as the first one made it, whatever it would have written.\<close>

theorem stale_update_conflicts:
  assumes "home_ok (ss_home w)" "represents w s A" "op_ok w (OpUpdate ms now m (Some v) reason tenant) A"
    and "store_update (ss_text w) (ss_home w) (ss_limit w) ms now m (Some v) reason tenant s = (Inr m1, s1)"
    and "safe_memory n" "key_of n = key_of m" "visible tenant n"
  shows "mm_version m1 = v + 1 \<and>
    store_update (ss_text w) (ss_home w) (ss_limit w) ms' now' n (Some v) reason' tenant s1 = (Inl CONFLICT, s1)"
proof -
  have sim: "simulated w (OpUpdate ms now m (Some v) reason tenant) s A"
    by (rule simulated_update [OF assms(1-3)])
  have r: "fst (update_effect now m (Some v) tenant A) = Inr (AMemory m1)"
    and rep: "represents w s1 (apply_effect (snd (update_effect now m (Some v) tenant A)) A)"
    using sim assms(4) by (auto simp: simulated_def answered_def)
  obtain c where c: "visible tenant m" "A (key_of m) = Some c" "mm_version c = v"
      "m1 = m\<lparr>mm_version := v + 1, mm_updatedAt := now\<rparr>" "\<not> (truthy (mm_tenantId m) \<and> tenant = None)"
      "snd (update_effect now m (Some v) tenant A) = Put m1"
    using r by (auto simp: update_effect_def Let_def split: if_splits option.splits)
  have m1: "key_of m1 = key_of n" "visible tenant m1" "mm_version m1 = v + 1"
    using c(1,4) assms(6) by (auto simp: key_of_def visible_def in_tenant_def memory_dims_def split: option.splits)
  let ?op = "OpUpdate ms' now' n (Some v) reason' tenant"
  have eff: "update_effect now' n (Some v) tenant (A(key_of m1 \<mapsto> stripped m1)) = (Inl CONFLICT, Keep)"
    using assms(6,7) m1 c(5) by (simp add: update_effect_def key_of_def)
  have "op_ok w ?op (A(key_of m1 \<mapsto> stripped m1))" using assms(3,5) eff by (simp add: op_ok_def)
  moreover have "represents w s1 (A(key_of m1 \<mapsto> stripped m1))" using rep c(6) by simp
  ultimately have "simulated w ?op s1 (A(key_of m1 \<mapsto> stripped m1))"
    by (intro simulated_update [OF assms(1)])
  then have "fst (store_update (ss_text w) (ss_home w) (ss_limit w) ms' now' n (Some v) reason' tenant s1) = Inl CONFLICT"
    using eff by (auto simp: simulated_def answered_def map_sum_def split: sum.splits)
  then show ?thesis using failed_update_keeps m1(3) by (metis prod.collapse)
qed

definition sample_kept :: memory where
  "sample_kept = archived_version ''t2'' sample_new"

definition sample_updated :: memory where
  "sample_updated = sample_new\<lparr>mm_version := 2, mm_updatedAt := ''t3''\<rparr>"

definition sample_update_setup :: store_setup where
  "sample_update_setup = sample_setup\<lparr>ss_text := pair_text_env sample_updated sample_kept\<rparr>"

lemma sample_update_facts:
  "home_ok (ss_home sample_update_setup)" "mm_archivedAt sample_updated = None" "truthy (mm_archivedAt sample_kept)"
  "memory_ok (sample_text_env sample_stored) sample_updated" "memory_ok (sample_text_env sample_stored) sample_kept"
  "is_safe_scope (mm_scope sample_updated)" "is_safe_scope (mm_scope sample_kept)"
  "mm_embedding sample_updated = None" "mm_embedding sample_kept = None" "stripped sample_kept = sample_kept"
  "key_of sample_kept = (None, ''0a'')" "key_of sample_new = (None, ''0a'')" "mm_version sample_kept = 1" "safe_memory sample_new"
  "safe_memory (sample_new\<lparr>mm_content := ''fire''\<rparr>)" "key_of (sample_new\<lparr>mm_content := ''fire''\<rparr>) = (None, ''0a'')"
  by code_simp+

lemma sample_update_storable:
  "storable (ss_text sample_update_setup) sample_updated" "storable (ss_text sample_update_setup) sample_kept"
  by (simp_all add: storable_def sample_update_setup_def sample_update_facts pair_reads_back or_default_def pair_memory_ok)

theorem stale_update_conflicts_witness:
  "\<exists>s t. represents sample_update_setup s [(None, ''0a'') \<mapsto> sample_kept] \<and>
     store_update (ss_text sample_update_setup) (ss_home sample_update_setup) 5 0 ''t3'' sample_new (Some 1) None None s
       = (Inr sample_updated, t) \<and>
     store_update (ss_text sample_update_setup) (ss_home sample_update_setup) 5 0 ''t4''
       (sample_new\<lparr>mm_content := ''fire''\<rparr>) (Some 1) None None t = (Inl CONFLICT, t)"
proof -
  let ?w = sample_update_setup and ?A = "[(None, ''0a'') \<mapsto> sample_kept]"
  let ?s = "write_memory (ss_text ?w) (place (ss_home ?w) sample_kept) sample_kept empty_store"
  let ?op = "OpUpdate 0 ''t3'' sample_new (Some 1) None None"
  have limit: "ss_limit ?w = 5" by (simp add: sample_update_setup_def sample_setup_def)
  have rep: "represents ?w ?s ?A"
    using put_represents [OF empty_represents sample_update_storable(2), of None ?s] sample_update_facts
    by (simp add: put_memory_def write_memory_def)
  have eff: "update_effect ''t3'' sample_new (Some 1) None ?A = (Inr (AMemory sample_updated), Put sample_updated)"
    using sample_update_facts sample_setup_facts
    by (simp add: update_effect_def visible_def sample_updated_def Let_def)
  have ok: "op_ok ?w ?op ?A" using eff sample_update_storable(1) sample_update_facts by (simp add: op_ok_def)
  obtain r t where t: "store_update (ss_text ?w) (ss_home ?w) 5 0 ''t3'' sample_new (Some 1) None None ?s = (r, t)"
    by fastforce
  moreover have "r = Inr sample_updated"
    using simulated_update [OF sample_update_facts(1) rep ok] eff t limit
    by (auto simp: simulated_def answered_def map_sum_def split: sum.splits)
  ultimately show ?thesis
    using stale_update_conflicts [of ?w ?s ?A 0 "''t3''" sample_new 1 None None sample_updated t
        "sample_new\<lparr>mm_content := ''fire''\<rparr>" 0 "''t4''" None] ok rep sample_update_facts limit
    by (intro exI [of _ ?s] exI [of _ t]) (simp add: visible_def)
qed

end
