(* ===== verification/Authorization.thy ===== *)
theory Authorization
  imports Tenant
begin

text \<open>
  \<open>src/authorization.ts\<close>: the closed operation classes, the capability each one needs, the pure
  decision and the exception a denial becomes.
\<close>

datatype operation =
    MemoryRead | MemoryWrite | MemoryUpdate | MemoryDelete | MemorySearch | MemoryHistory
  | SnapshotCreate | SnapshotRestore | TenantManage | ProjectManage

datatype denial = MissingContext | InvalidContext | MissingCapability | DimensionMismatch

datatype decision = Allowed | Denied denial

fun required_capability :: "operation \<Rightarrow> capability" where
  "required_capability MemoryRead = TenantRead"
| "required_capability MemoryWrite = TenantWrite"
| "required_capability MemoryUpdate = TenantWrite"
| "required_capability MemoryDelete = TenantWrite"
| "required_capability MemorySearch = TenantRead"
| "required_capability MemoryHistory = TenantRead"
| "required_capability SnapshotCreate = TenantExport"
| "required_capability SnapshotRestore = TenantWrite"
| "required_capability TenantManage = TenantAdmin"
| "required_capability ProjectManage = TenantAdmin"

definition has_capability :: "capability list \<Rightarrow> capability \<Rightarrow> bool" where
  "has_capability caps required \<longleftrightarrow>
     required \<in> set caps \<or>
     (required \<noteq> TenantAdmin \<and> required \<noteq> TenantExport \<and> TenantAdmin \<in> set caps)"

fun evaluate_authorization :: "context_value \<Rightarrow> operation \<Rightarrow> resource option \<Rightarrow> decision" where
  "evaluate_authorization Undefined op r = Denied MissingContext"
| "evaluate_authorization Null op r = Denied MissingContext"
| "evaluate_authorization Forged op r = Denied InvalidContext"
| "evaluate_authorization (Context p) op r =
     (if \<not> has_capability (caps_of (pr_capabilities p)) (required_capability op)
      then Denied MissingCapability
      else case r of
          None \<Rightarrow> Allowed
        | Some m \<Rightarrow>
            (if memory_belongs_to_tenant m (filter_of_principal p) then Allowed
             else Denied DimensionMismatch))"

definition assert_authorized :: "context_value \<Rightarrow> operation \<Rightarrow> resource option \<Rightarrow> unit result" where
  "assert_authorized c op r =
     (case evaluate_authorization c op r of
        Allowed \<Rightarrow> Inr ()
      | Denied DimensionMismatch \<Rightarrow> Inl NOT_FOUND
      | Denied d \<Rightarrow> Inl TENANT_REQUIRED)"

fun_cases evaluate_allowedE: "evaluate_authorization c op r = Allowed"

section \<open>Facts\<close>

lemma evaluate_allowed_iff:
  "evaluate_authorization c op r = Allowed \<longleftrightarrow>
    (\<exists>p. c = Context p \<and> has_capability (caps_of (pr_capabilities p)) (required_capability op) \<and>
      (\<forall>m. r = Some m \<longrightarrow> memory_belongs_to_tenant m (filter_of_principal p)))"
  by (cases c; cases r) auto

lemma assert_authorized_iff:
  "assert_authorized c op r = Inr () \<longleftrightarrow> evaluate_authorization c op r = Allowed"
  by (auto simp: assert_authorized_def split: decision.splits denial.splits)

lemma allowed_resource_org:
  "evaluate_authorization (Context p) op (Some m) = Allowed \<Longrightarrow> rs_tenantId m = Some (pr_organizationId p)"
  using memory_belongs_org [of m "filter_of_principal p"]
  by (simp add: evaluate_allowed_iff filter_of_principal_def del: evaluate_authorization.simps)

lemma export_capability_explicit:
  "has_capability caps TenantExport \<longleftrightarrow> TenantExport \<in> set caps"
  "has_capability caps TenantAdmin \<longleftrightarrow> TenantAdmin \<in> set caps"
  by (auto simp: has_capability_def)

section \<open>Properties\<close>

text \<open>C2. Authorization is sound and complete: an operation is allowed exactly when the caller
  presents a minted context, that context holds the operation's capability (administrators
  holding every capability except export and, trivially, their own), and the resource named, if
  any, belongs to the context's tenant filter. No forged, absent or null context is ever allowed.\<close>

theorem authorization_exact:
  "assert_authorized c op r = Inr () \<longleftrightarrow>
    (\<exists>p. c = Context p \<and>
      (required_capability op \<in> set (caps_of (pr_capabilities p)) \<or>
       required_capability op \<in> {TenantRead, TenantWrite} \<and>
         TenantAdmin \<in> set (caps_of (pr_capabilities p))) \<and>
      (case r of None \<Rightarrow> True | Some m \<Rightarrow> memory_belongs_to_tenant m (filter_of_principal p)))"
proof -
  have "has_capability caps q \<longleftrightarrow> q \<in> set caps \<or> q \<in> {TenantRead, TenantWrite} \<and> TenantAdmin \<in> set caps"
    for caps q by (cases q) (auto simp: has_capability_def)
  then show ?thesis
    by (auto simp: assert_authorized_iff evaluate_allowed_iff split: option.splits)
qed

text \<open>A denial reveals nothing about a foreign resource: for a caller whose context holds the
  capability, a resource of another organization is answered NOT_FOUND, the answer a missing
  resource gets, whatever the resource's dimensions; and a snapshot export is refused to an
  administrator without the export capability.\<close>

theorem foreign_resource_is_not_found:
  assumes "rs_tenantId m \<noteq> Some (pr_organizationId p)"
  shows "assert_authorized (Context p) op (Some m) =
    (if has_capability (caps_of (pr_capabilities p)) (required_capability op)
     then Inl NOT_FOUND else Inl TENANT_REQUIRED) \<and>
    (TenantExport \<notin> set (caps_of (pr_capabilities p)) \<longrightarrow>
      assert_authorized (Context p) SnapshotCreate r = Inl TENANT_REQUIRED)"
proof -
  have "\<not> memory_belongs_to_tenant m (filter_of_principal p)"
    using assms memory_belongs_org by (fastforce simp: filter_of_principal_def)
  then show ?thesis
    by (simp add: assert_authorized_def export_capability_explicit)
qed

definition foreign_resource :: resource where
  "foreign_resource =
     \<lparr>rs_tenantId = Some ''other'', rs_projectId = None, rs_userId = None, rs_agentId = None\<rparr>"

theorem foreign_resource_is_not_found_witness:
  "assert_authorized (Context (to_principal sample_claims)) MemoryRead (Some foreign_resource) = Inl NOT_FOUND"
proof -
  have f: "rs_tenantId foreign_resource \<noteq> Some (pr_organizationId (to_principal sample_claims))"
    by (simp add: foreign_resource_def to_principal_def sample_claims_def)
  have c: "has_capability (caps_of (pr_capabilities (to_principal sample_claims))) (required_capability MemoryRead)"
    by code_simp
  show ?thesis using foreign_resource_is_not_found [OF f, of MemoryRead] c by simp
qed

end
