(* ===== verification/TenantDirectory.thy ===== *)
theory TenantDirectory
  imports Tenant
begin

text \<open>
  \<open>src/tenant-directory.ts\<close>: the membership authority that re-authorizes tenant contexts. The
  state is six insertion-ordered maps keyed by strings joined with a NUL; each mutating method is
  a function from the directory to its result and the directory it leaves behind, the one an
  exception leaves included. \<open>dir_step\<close> dispatches the methods, \<open>from_snapshot\<close> and
  \<open>snapshot_of\<close> are the serialised form. A failed schema parse is INVALID_INPUT, the label
  \<open>errorLabel\<close> gives it.
\<close>

section \<open>State\<close>

record dir_org =
  og_id :: string
  og_version :: nat

record dir_user =
  du_org :: string
  du_id :: string
  du_name :: "string option"

record dir_project =
  dp_org :: string
  dp_id :: string
  dp_name :: "string option"

record dir_agent =
  da_org :: string
  da_id :: string
  da_user :: "string option"
  da_project :: "string option"
  da_name :: "string option"

record dir_member =
  dm_org :: string
  dm_project :: string
  dm_user :: string
  dm_role :: string

record dir_pagent =
  dg_org :: string
  dg_project :: string
  dg_agent :: string

record directory =
  orgs :: "(string, dir_org) js_map"
  users :: "(string, dir_user) js_map"
  projects :: "(string, dir_project) js_map"
  agents :: "(string, dir_agent) js_map"
  members :: "(string, dir_member) js_map"
  pagents :: "(string, dir_pagent) js_map"

definition empty_directory :: directory where
  "empty_directory =
     \<lparr>orgs = [], users = [], projects = [], agents = [], members = [], pagents = []\<rparr>"

definition entity_key :: "string \<Rightarrow> string \<Rightarrow> string" where
  "entity_key org i = org @ CHR 0x00 # i"

definition membership_key :: "string \<Rightarrow> string \<Rightarrow> string \<Rightarrow> string" where
  "membership_key org project user = org @ CHR 0x00 # project @ CHR 0x00 # user"

section \<open>Guards\<close>

definition display_name_ok :: "string option \<Rightarrow> bool" where
  "display_name_ok v = opt_valid (\<lambda>s. 1 \<le> length s \<and> length s \<le> 256) v"

definition membership_role_ok :: "string \<Rightarrow> bool" where
  "membership_role_ok r \<longleftrightarrow> r = ''member'' \<or> r = ''manager'' \<or> r = ''admin''"

text \<open>An optional id is checked only when it is truthy.\<close>

definition optional_id_ok :: "string option \<Rightarrow> bool" where
  "optional_id_ok v \<longleftrightarrow> (case v of None \<Rightarrow> True | Some s \<Rightarrow> s = '''' \<or> is_valid_tenant_id s)"

definition require_organization :: "directory \<Rightarrow> string \<Rightarrow> dir_org result" where
  "require_organization d org =
     (if \<not> is_valid_tenant_id org then Inl INVALID_INPUT
      else case map_of (orgs d) org of None \<Rightarrow> Inl NOT_FOUND | Some g \<Rightarrow> Inr g)"

text \<open>Whether an optional reference is absent, falsy or present in a table.\<close>

definition ref_ok :: "(string, 'v) js_map \<Rightarrow> string \<Rightarrow> string option \<Rightarrow> bool" where
  "ref_ok m org v =
     (case v of None \<Rightarrow> True | Some s \<Rightarrow> s = '''' \<or> map_has m (entity_key org s))"

section \<open>Methods\<close>

type_synonym outcome = "unit result \<times> directory"

definition bump :: "string \<Rightarrow> directory \<Rightarrow> outcome" where
  "bump org d =
     (case require_organization d org of
        Inl e \<Rightarrow> (Inl e, d)
      | Inr g \<Rightarrow>
          (Inr (), d\<lparr>orgs := AList.update org (g\<lparr>og_version := og_version g + 1\<rparr>) (orgs d)\<rparr>))"

text \<open>Run the rest of a method only when its organization exists.\<close>

definition in_organization :: "string \<Rightarrow> directory \<Rightarrow> (directory \<Rightarrow> outcome) \<Rightarrow> outcome" where
  "in_organization org d k =
     (case require_organization d org of Inl e \<Rightarrow> (Inl e, d) | Inr g \<Rightarrow> k d)"

definition create_organization :: "string \<Rightarrow> directory \<Rightarrow> outcome" where
  "create_organization org d =
     (if \<not> is_valid_tenant_id org then (Inl INVALID_INPUT, d)
      else if map_has (orgs d) org then (Inl CONFLICT, d)
      else (Inr (), d\<lparr>orgs := AList.update org \<lparr>og_id = org, og_version = 1\<rparr> (orgs d)\<rparr>))"

definition upsert_user :: "dir_user \<Rightarrow> directory \<Rightarrow> outcome" where
  "upsert_user u d =
     (if \<not> is_valid_tenant_id (du_org u) then (Inl INVALID_INPUT, d)
      else if \<not> is_valid_tenant_id (du_id u) then (Inl INVALID_INPUT, d)
      else if \<not> display_name_ok (du_name u) then (Inl INVALID_INPUT, d)
      else in_organization (du_org u) d (\<lambda>d.
        bump (du_org u) (d\<lparr>users := AList.update (entity_key (du_org u) (du_id u)) u (users d)\<rparr>)))"

definition agent_of_user :: "string \<Rightarrow> string \<Rightarrow> dir_agent \<Rightarrow> bool" where
  "agent_of_user org user a \<longleftrightarrow> da_org a = org \<and> da_user a = Some user"

definition remove_user :: "string \<Rightarrow> string \<Rightarrow> directory \<Rightarrow> outcome" where
  "remove_user org user d =
     in_organization org d (\<lambda>d.
       bump org (d\<lparr>
         users := AList.delete (entity_key org user) (users d),
         members := map_keep (\<lambda>k m. \<not> (dm_org m = org \<and> dm_user m = user)) (members d),
         pagents := map_keep (\<lambda>k g. \<not> (case map_of (agents d) k of
             None \<Rightarrow> False | Some a \<Rightarrow> agent_of_user org user a)) (pagents d),
         agents := map_keep (\<lambda>k a. \<not> agent_of_user org user a) (agents d)\<rparr>))"

definition upsert_project :: "dir_project \<Rightarrow> directory \<Rightarrow> outcome" where
  "upsert_project p d =
     (if \<not> is_valid_tenant_id (dp_org p) then (Inl INVALID_INPUT, d)
      else if \<not> is_valid_tenant_id (dp_id p) then (Inl INVALID_INPUT, d)
      else if \<not> display_name_ok (dp_name p) then (Inl INVALID_INPUT, d)
      else in_organization (dp_org p) d (\<lambda>d.
        bump (dp_org p)
          (d\<lparr>projects := AList.update (entity_key (dp_org p) (dp_id p)) p (projects d)\<rparr>)))"

definition remove_project :: "string \<Rightarrow> string \<Rightarrow> directory \<Rightarrow> outcome" where
  "remove_project org project d =
     in_organization org d (\<lambda>d.
       bump org (d\<lparr>
         projects := AList.delete (entity_key org project) (projects d),
         members := map_keep (\<lambda>k m. \<not> (dm_org m = org \<and> dm_project m = project)) (members d),
         pagents := map_keep (\<lambda>k g. \<not> (dg_org g = org \<and> dg_project g = project)) (pagents d),
         agents := map_vals (\<lambda>k a. if da_org a = org \<and> da_project a = Some project
           then a\<lparr>da_project := None\<rparr> else a) (agents d)\<rparr>))"

definition upsert_agent :: "dir_agent \<Rightarrow> directory \<Rightarrow> outcome" where
  "upsert_agent a d =
     (if \<not> is_valid_tenant_id (da_org a) then (Inl INVALID_INPUT, d)
      else if \<not> is_valid_tenant_id (da_id a) then (Inl INVALID_INPUT, d)
      else if \<not> optional_id_ok (da_user a) then (Inl INVALID_INPUT, d)
      else if \<not> optional_id_ok (da_project a) then (Inl INVALID_INPUT, d)
      else if \<not> display_name_ok (da_name a) then (Inl INVALID_INPUT, d)
      else in_organization (da_org a) d (\<lambda>d.
        if \<not> ref_ok (users d) (da_org a) (da_user a) then (Inl NOT_FOUND, d)
        else if \<not> ref_ok (projects d) (da_org a) (da_project a) then (Inl NOT_FOUND, d)
        else let k = entity_key (da_org a) (da_id a) in
          bump (da_org a) (d\<lparr>
            agents := AList.update k a (agents d),
            pagents := (case da_project a of
                Some p \<Rightarrow> if p \<noteq> ''''
                  then AList.update k \<lparr>dg_org = da_org a, dg_project = p, dg_agent = da_id a\<rparr> (pagents d)
                  else AList.delete k (pagents d)
              | None \<Rightarrow> AList.delete k (pagents d))\<rparr>)))"

definition remove_agent :: "string \<Rightarrow> string \<Rightarrow> directory \<Rightarrow> outcome" where
  "remove_agent org agent d =
     in_organization org d (\<lambda>d.
       bump org (d\<lparr>agents := AList.delete (entity_key org agent) (agents d),
         pagents := AList.delete (entity_key org agent) (pagents d)\<rparr>))"

definition grant_membership :: "string \<Rightarrow> string \<Rightarrow> string \<Rightarrow> string \<Rightarrow> directory \<Rightarrow> outcome" where
  "grant_membership org project user role d =
     in_organization org d (\<lambda>d.
       if \<not> membership_role_ok role then (Inl INVALID_INPUT, d)
       else if \<not> map_has (projects d) (entity_key org project) then (Inl NOT_FOUND, d)
       else if \<not> map_has (users d) (entity_key org user) then (Inl NOT_FOUND, d)
       else bump org (d\<lparr>members := AList.update (membership_key org project user)
         \<lparr>dm_org = org, dm_project = project, dm_user = user, dm_role = role\<rparr> (members d)\<rparr>))"

definition revoke_membership :: "string \<Rightarrow> string \<Rightarrow> string \<Rightarrow> directory \<Rightarrow> outcome" where
  "revoke_membership org project user d =
     bump org (d\<lparr>members := AList.delete (membership_key org project user) (members d)\<rparr>)"

datatype dir_op =
    CreateOrganization string
  | UpsertUser dir_user
  | RemoveUser string string
  | UpsertProject dir_project
  | RemoveProject string string
  | UpsertAgent dir_agent
  | RemoveAgent string string
  | GrantMembership string string string string
  | RevokeMembership string string string

fun dir_step :: "dir_op \<Rightarrow> directory \<Rightarrow> outcome" where
  "dir_step (CreateOrganization org) d = create_organization org d"
| "dir_step (UpsertUser u) d = upsert_user u d"
| "dir_step (RemoveUser org user) d = remove_user org user d"
| "dir_step (UpsertProject p) d = upsert_project p d"
| "dir_step (RemoveProject org project) d = remove_project org project d"
| "dir_step (UpsertAgent a) d = upsert_agent a d"
| "dir_step (RemoveAgent org agent) d = remove_agent org agent d"
| "dir_step (GrantMembership org project user role) d = grant_membership org project user role d"
| "dir_step (RevokeMembership org project user) d = revoke_membership org project user d"

fun dir_op_org :: "dir_op \<Rightarrow> string" where
  "dir_op_org (CreateOrganization org) = org"
| "dir_op_org (UpsertUser u) = du_org u"
| "dir_op_org (RemoveUser org user) = org"
| "dir_op_org (UpsertProject p) = dp_org p"
| "dir_op_org (RemoveProject org project) = org"
| "dir_op_org (UpsertAgent a) = da_org a"
| "dir_op_org (RemoveAgent org agent) = org"
| "dir_op_org (GrantMembership org project user role) = org"
| "dir_op_org (RevokeMembership org project user) = org"

fun dir_run :: "directory \<Rightarrow> dir_op list \<Rightarrow> directory" where
  "dir_run d [] = d"
| "dir_run d (x # xs) = dir_run (snd (dir_step x d)) xs"

definition get_membership_version :: "directory \<Rightarrow> string \<Rightarrow> string option" where
  "get_membership_version d org = map_option (\<lambda>g. dec (og_version g)) (map_of (orgs d) org)"

text \<open>\<open>verifyContext\<close>, one conjunct per early return.\<close>

definition opt_test :: "string option \<Rightarrow> (string \<Rightarrow> bool) \<Rightarrow> bool" where
  "opt_test v p = (case v of None \<Rightarrow> True | Some s \<Rightarrow> s = '''' \<or> p s)"

definition agent_matches :: "directory \<Rightarrow> principal \<Rightarrow> string \<Rightarrow> bool" where
  "agent_matches d p agent =
     (case map_of (agents d) (entity_key (pr_organizationId p) agent) of
        None \<Rightarrow> False
      | Some a \<Rightarrow>
          \<not> (truthy (pr_userId p) \<and> truthy (da_user a) \<and> da_user a \<noteq> pr_userId p) \<and>
          \<not> (truthy (pr_projectId p) \<and> truthy (da_project a) \<and> da_project a \<noteq> pr_projectId p))"

definition user_allowed :: "directory \<Rightarrow> principal \<Rightarrow> string \<Rightarrow> bool" where
  "user_allowed d p project =
     (case pr_userId p of None \<Rightarrow> False
      | Some u \<Rightarrow> u \<noteq> '''' \<and>
          map_has (members d) (membership_key (pr_organizationId p) project u))"

definition agent_allowed :: "directory \<Rightarrow> principal \<Rightarrow> string \<Rightarrow> bool" where
  "agent_allowed d p project =
     (case pr_agentId p of None \<Rightarrow> False
      | Some a \<Rightarrow> a \<noteq> '''' \<and>
          (case map_of (pagents d) (entity_key (pr_organizationId p) a) of
             None \<Rightarrow> False | Some g \<Rightarrow> dg_project g = project))"

definition project_allowed :: "directory \<Rightarrow> principal \<Rightarrow> string \<Rightarrow> bool" where
  "project_allowed d p project \<longleftrightarrow>
     (let admin = TenantAdmin \<in> set (caps_of (pr_capabilities p)) in
      map_has (projects d) (entity_key (pr_organizationId p) project) \<and>
      (admin \<or> user_allowed d p project \<or> agent_allowed d p project) \<and>
      (admin \<or> (''project/'' @ project) \<in> set (caps_of (pr_scopes p))))"

fun verify_context :: "directory \<Rightarrow> context_value \<Rightarrow> bool" where
  "verify_context d (Context p) =
     (case map_of (orgs d) (pr_organizationId p) of
        None \<Rightarrow> False
      | Some g \<Rightarrow>
          dec (og_version g) = pr_membershipVersion p \<and>
          opt_test (pr_userId p) (\<lambda>u. map_has (users d) (entity_key (pr_organizationId p) u)) \<and>
          opt_test (pr_agentId p) (agent_matches d p) \<and>
          opt_test (pr_projectId p) (project_allowed d p) \<and>
          \<not> (\<not> truthy (pr_projectId p) \<and> \<not> truthy (pr_userId p) \<and> \<not> truthy (pr_agentId p) \<and>
             caps_of (pr_capabilities p) = []))"
| "verify_context d v = False"

section \<open>Snapshots\<close>

record dir_snapshot =
  sn_orgs :: "dir_org list"
  sn_users :: "dir_user list"
  sn_projects :: "dir_project list"
  sn_agents :: "dir_agent list"
  sn_members :: "dir_member list"
  sn_pagents :: "dir_pagent list"

definition snapshot_of :: "directory \<Rightarrow> dir_snapshot" where
  "snapshot_of d =
     \<lparr>sn_orgs = map snd (orgs d), sn_users = map snd (users d), sn_projects = map snd (projects d),
      sn_agents = map snd (agents d), sn_members = map snd (members d),
      sn_pagents = map snd (pagents d)\<rparr>"

definition snapshot_schema_ok :: "dir_snapshot \<Rightarrow> bool" where
  "snapshot_schema_ok s \<longleftrightarrow>
     list_all (\<lambda>g. is_valid_tenant_id (og_id g) \<and> og_version g \<ge> 1) (sn_orgs s) \<and>
     length (sn_orgs s) \<le> 100000 \<and>
     list_all (\<lambda>u. is_valid_tenant_id (du_org u) \<and> is_valid_tenant_id (du_id u) \<and>
       display_name_ok (du_name u)) (sn_users s) \<and>
     length (sn_users s) \<le> 1000000 \<and>
     list_all (\<lambda>p. is_valid_tenant_id (dp_org p) \<and> is_valid_tenant_id (dp_id p) \<and>
       display_name_ok (dp_name p)) (sn_projects s) \<and>
     length (sn_projects s) \<le> 1000000 \<and>
     list_all (\<lambda>a. is_valid_tenant_id (da_org a) \<and> is_valid_tenant_id (da_id a) \<and>
       opt_valid is_valid_tenant_id (da_user a) \<and> opt_valid is_valid_tenant_id (da_project a) \<and>
       display_name_ok (da_name a)) (sn_agents s) \<and>
     length (sn_agents s) \<le> 1000000 \<and>
     list_all (\<lambda>m. is_valid_tenant_id (dm_org m) \<and> is_valid_tenant_id (dm_project m) \<and>
       is_valid_tenant_id (dm_user m) \<and> membership_role_ok (dm_role m)) (sn_members s) \<and>
     length (sn_members s) \<le> 5000000 \<and>
     list_all (\<lambda>g. is_valid_tenant_id (dg_org g) \<and> is_valid_tenant_id (dg_project g) \<and>
       is_valid_tenant_id (dg_agent g)) (sn_pagents s) \<and>
     length (sn_pagents s) \<le> 5000000"

definition load_org :: "directory \<Rightarrow> dir_org \<Rightarrow> directory result" where
  "load_org d g =
     (if map_has (orgs d) (og_id g) then Inl INVALID_INPUT
      else Inr (d\<lparr>orgs := AList.update (og_id g) g (orgs d)\<rparr>))"

definition load_user :: "directory \<Rightarrow> dir_user \<Rightarrow> directory result" where
  "load_user d u =
     and_then (require_organization d (du_org u)) (\<lambda>_.
       let k = entity_key (du_org u) (du_id u) in
       if map_has (users d) k then Inl INVALID_INPUT
       else Inr (d\<lparr>users := AList.update k u (users d)\<rparr>))"

definition load_project :: "directory \<Rightarrow> dir_project \<Rightarrow> directory result" where
  "load_project d p =
     and_then (require_organization d (dp_org p)) (\<lambda>_.
       let k = entity_key (dp_org p) (dp_id p) in
       if map_has (projects d) k then Inl INVALID_INPUT
       else Inr (d\<lparr>projects := AList.update k p (projects d)\<rparr>))"

definition load_agent :: "directory \<Rightarrow> dir_agent \<Rightarrow> directory result" where
  "load_agent d a =
     and_then (require_organization d (da_org a)) (\<lambda>_.
       let k = entity_key (da_org a) (da_id a) in
       if map_has (agents d) k then Inl INVALID_INPUT
       else if \<not> ref_ok (users d) (da_org a) (da_user a) then Inl INVALID_INPUT
       else if \<not> ref_ok (projects d) (da_org a) (da_project a) then Inl INVALID_INPUT
       else Inr (d\<lparr>agents := AList.update k a (agents d)\<rparr>))"

definition load_member :: "directory \<Rightarrow> dir_member \<Rightarrow> directory result" where
  "load_member d m =
     and_then (require_organization d (dm_org m)) (\<lambda>_.
       if \<not> map_has (projects d) (entity_key (dm_org m) (dm_project m)) then Inl INVALID_INPUT
       else if \<not> map_has (users d) (entity_key (dm_org m) (dm_user m)) then Inl INVALID_INPUT
       else let k = membership_key (dm_org m) (dm_project m) (dm_user m) in
         if map_has (members d) k then Inl INVALID_INPUT
         else Inr (d\<lparr>members := AList.update k m (members d)\<rparr>))"

definition load_pagent :: "directory \<Rightarrow> dir_pagent \<Rightarrow> directory result" where
  "load_pagent d g =
     and_then (require_organization d (dg_org g)) (\<lambda>_.
       if \<not> map_has (projects d) (entity_key (dg_org g) (dg_project g)) then Inl INVALID_INPUT
       else let k = entity_key (dg_org g) (dg_agent g) in
         case map_of (agents d) k of
           None \<Rightarrow> Inl INVALID_INPUT
         | Some a \<Rightarrow>
             (if da_project a \<noteq> Some (dg_project g) then Inl INVALID_INPUT
              else if map_has (pagents d) k then Inl INVALID_INPUT
              else Inr (d\<lparr>pagents := AList.update k g (pagents d)\<rparr>)))"

definition agents_associated :: "directory \<Rightarrow> bool" where
  "agents_associated d \<longleftrightarrow>
     list_all (\<lambda>a. truthy (da_project a) \<longrightarrow>
       map_has (pagents d) (entity_key (da_org a) (da_id a))) (map snd (agents d))"

definition from_snapshot :: "dir_snapshot \<Rightarrow> directory result" where
  "from_snapshot s =
     (if \<not> snapshot_schema_ok s then Inl INVALID_INPUT
      else
        and_then (fold_res load_org empty_directory (sn_orgs s)) (\<lambda>d.
        and_then (fold_res load_user d (sn_users s)) (\<lambda>d.
        and_then (fold_res load_project d (sn_projects s)) (\<lambda>d.
        and_then (fold_res load_agent d (sn_agents s)) (\<lambda>d.
        and_then (fold_res load_member d (sn_members s)) (\<lambda>d.
        and_then (fold_res load_pagent d (sn_pagents s)) (\<lambda>d.
          if agents_associated d then Inr d else Inl INVALID_INPUT)))))))"

section \<open>The file-backed directory\<close>

text \<open>
  \<open>src/tenant-directory-file.ts\<close>: every mutation runs on the loaded directory, then the whole
  snapshot is published atomically; when either step throws, the directory in memory is rebuilt
  from the snapshot taken before. Whether the publication succeeds is the file system's answer
  and a parameter; its failure is IO_ERROR or INVALID_INPUT. The file holds the last published
  snapshot, \<open>None\<close> when there is none, and \<open>reload\<close> is the first access of a new process.
  Rebuilding can itself throw, in which case the assignment does not happen and the directory in
  memory is the one the failed method left.
\<close>

record file_directory =
  fd_state :: directory
  fd_disk :: "dir_snapshot option"

definition rollback :: "dir_snapshot \<Rightarrow> directory \<Rightarrow> error_code \<Rightarrow> unit result \<times> directory" where
  "rollback before current e =
     (case from_snapshot before of
        Inr d \<Rightarrow> (Inl e, d)
      | Inl e' \<Rightarrow> (Inl e', current))"

definition file_mutate :: "unit result \<Rightarrow> dir_op \<Rightarrow> file_directory \<Rightarrow> unit result \<times> file_directory" where
  "file_mutate publish op f =
     (let before = snapshot_of (fd_state f);
          (r, d) = dir_step op (fd_state f)
      in case r of
           Inl e \<Rightarrow> (let (r', d') = rollback before d e in (r', f\<lparr>fd_state := d'\<rparr>))
         | Inr _ \<Rightarrow>
             (case publish of
                Inr _ \<Rightarrow> (Inr (), \<lparr>fd_state = d, fd_disk = Some (snapshot_of d)\<rparr>)
              | Inl e \<Rightarrow> (let (r', d') = rollback before d e in (r', f\<lparr>fd_state := d'\<rparr>))))"

definition reload :: "file_directory \<Rightarrow> directory result" where
  "reload f =
     (case fd_disk f of None \<Rightarrow> Inr empty_directory | Some s \<Rightarrow> from_snapshot s)"

end
