(* ===== verification/TenantDirectoryFacts.thy ===== *)
theory TenantDirectoryFacts
  imports TenantDirectory
begin

text \<open>
  What the tenant directory keeps: its referential invariant under every method and every run,
  the all-or-nothing behaviour of a method that throws, the membership version that makes a
  context stale after any change of its organization and leaves other organizations alone, and
  the round trip of the serialised form.
\<close>

section \<open>Keys\<close>

abbreviation nul :: char where "nul \<equiv> CHR 0x00"

lemma nul_not_tenant_char [simp]: "\<not> is_tenant_char nul"
  by (simp add: is_tenant_char_def char_class_defs)

lemma valid_id_nul_free: "is_valid_tenant_id s \<Longrightarrow> nul \<notin> set s"
  by (auto simp: is_valid_tenant_id_def list_all_iff)

lemma split_at_nul:
  "nul \<notin> set a \<Longrightarrow> nul \<notin> set b \<Longrightarrow> a @ nul # x = b @ nul # y \<longleftrightarrow> a = b \<and> x = y"
proof (induction a arbitrary: b)
  case Nil
  then show ?case by (cases b) auto
next
  case (Cons c a)
  then show ?case by (cases b) auto
qed

lemma entity_key_inject:
  "is_valid_tenant_id o1 \<Longrightarrow> is_valid_tenant_id o2 \<Longrightarrow>
    entity_key o1 i = entity_key o2 j \<longleftrightarrow> o1 = o2 \<and> i = j"
  by (simp add: entity_key_def split_at_nul valid_id_nul_free)

lemma entity_key_same_org [simp]: "entity_key org i = entity_key org j \<longleftrightarrow> i = j"
  by (simp add: entity_key_def)

text \<open>A membership key of valid parts has exactly two separators, so any key equal to it has the
  same parts, valid or not.\<close>

lemma membership_key_inject:
  assumes "is_valid_tenant_id o1" "is_valid_tenant_id p1" "is_valid_tenant_id u1"
  shows "membership_key o1 p1 u1 = membership_key o2 p2 u2 \<longleftrightarrow> o1 = o2 \<and> p1 = p2 \<and> u1 = u2"
proof
  assume eq: "membership_key o1 p1 u1 = membership_key o2 p2 u2"
  note free = assms [THEN valid_id_nul_free]
  have "count_list (membership_key o1 p1 u1) nul = 2"
    using free by (simp add: membership_key_def)
  with eq have "count_list o2 nul + count_list p2 nul + count_list u2 nul = 0"
    by (simp add: membership_key_def)
  then have "nul \<notin> set o2" "nul \<notin> set p2"
    by (simp_all add: count_list_0_iff)
  with eq free show "o1 = o2 \<and> p1 = p2 \<and> u1 = u2"
    by (simp add: membership_key_def split_at_nul)
qed simp

section \<open>The referential invariant\<close>

definition has_org :: "directory \<Rightarrow> string \<Rightarrow> bool" where
  "has_org d org \<longleftrightarrow> map_has (orgs d) org"

lemma has_org_frame [simp]:
  "has_org (d\<lparr>users := x1\<rparr>) = has_org d" "has_org (d\<lparr>projects := x2\<rparr>) = has_org d"
  "has_org (d\<lparr>agents := x3\<rparr>) = has_org d" "has_org (d\<lparr>members := x4\<rparr>) = has_org d"
  "has_org (d\<lparr>pagents := x5\<rparr>) = has_org d"
  by (simp_all add: has_org_def fun_eq_iff)

definition orgs_ok :: "directory \<Rightarrow> bool" where
  "orgs_ok d \<longleftrightarrow> map_ok (orgs d) \<and>
     (\<forall>k g. map_of (orgs d) k = Some g \<longrightarrow> og_id g = k \<and> is_valid_tenant_id k \<and> 1 \<le> og_version g)"

definition users_ok :: "directory \<Rightarrow> bool" where
  "users_ok d \<longleftrightarrow> map_ok (users d) \<and>
     (\<forall>k u. map_of (users d) k = Some u \<longrightarrow> k = entity_key (du_org u) (du_id u) \<and>
       has_org d (du_org u) \<and> is_valid_tenant_id (du_id u) \<and> display_name_ok (du_name u))"

definition projects_ok :: "directory \<Rightarrow> bool" where
  "projects_ok d \<longleftrightarrow> map_ok (projects d) \<and>
     (\<forall>k p. map_of (projects d) k = Some p \<longrightarrow> k = entity_key (dp_org p) (dp_id p) \<and>
       has_org d (dp_org p) \<and> is_valid_tenant_id (dp_id p) \<and> display_name_ok (dp_name p))"

definition agents_ok :: "directory \<Rightarrow> bool" where
  "agents_ok d \<longleftrightarrow> map_ok (agents d) \<and>
     (\<forall>k a. map_of (agents d) k = Some a \<longrightarrow> k = entity_key (da_org a) (da_id a) \<and>
       has_org d (da_org a) \<and> is_valid_tenant_id (da_id a) \<and> display_name_ok (da_name a) \<and>
       optional_id_ok (da_user a) \<and> optional_id_ok (da_project a) \<and>
       ref_ok (users d) (da_org a) (da_user a) \<and> ref_ok (projects d) (da_org a) (da_project a))"

definition members_ok :: "directory \<Rightarrow> bool" where
  "members_ok d \<longleftrightarrow> map_ok (members d) \<and>
     (\<forall>k m. map_of (members d) k = Some m \<longrightarrow>
       k = membership_key (dm_org m) (dm_project m) (dm_user m) \<and> has_org d (dm_org m) \<and>
       is_valid_tenant_id (dm_project m) \<and> is_valid_tenant_id (dm_user m) \<and>
       membership_role_ok (dm_role m) \<and>
       map_has (projects d) (entity_key (dm_org m) (dm_project m)) \<and>
       map_has (users d) (entity_key (dm_org m) (dm_user m)))"

definition pagents_ok :: "directory \<Rightarrow> bool" where
  "pagents_ok d \<longleftrightarrow> map_ok (pagents d) \<and>
     (\<forall>k g. map_of (pagents d) k = Some g \<longrightarrow> k = entity_key (dg_org g) (dg_agent g) \<and>
       has_org d (dg_org g) \<and> is_valid_tenant_id (dg_project g) \<and> is_valid_tenant_id (dg_agent g) \<and>
       map_has (projects d) (entity_key (dg_org g) (dg_project g)) \<and>
       (\<exists>a. map_of (agents d) k = Some a \<and> da_project a = Some (dg_project g)))"

definition associated :: "directory \<Rightarrow> bool" where
  "associated d \<longleftrightarrow>
     (\<forall>k a. map_of (agents d) k = Some a \<longrightarrow> truthy (da_project a) \<longrightarrow> map_has (pagents d) k)"

definition dir_ok0 :: "directory \<Rightarrow> bool" where
  "dir_ok0 d \<longleftrightarrow> orgs_ok d \<and> users_ok d \<and> projects_ok d \<and> agents_ok d \<and> members_ok d \<and> pagents_ok d"

definition dir_ok :: "directory \<Rightarrow> bool" where
  "dir_ok d \<longleftrightarrow> dir_ok0 d \<and> associated d"

lemmas part_defs = orgs_ok_def users_ok_def projects_ok_def agents_ok_def members_ok_def
  pagents_ok_def associated_def has_org_def

lemma dir_ok_empty: "dir_ok empty_directory"
  by (simp add: dir_ok_def dir_ok0_def part_defs empty_directory_def)

lemma dir_ok_parts:
  assumes "dir_ok d"
  shows "orgs_ok d" "users_ok d" "projects_ok d" "agents_ok d" "members_ok d" "pagents_ok d"
    "associated d"
  using assms by (simp_all add: dir_ok_def dir_ok0_def)

lemma org_valid: "orgs_ok d \<Longrightarrow> has_org d org \<Longrightarrow> is_valid_tenant_id org"
  by (auto simp: orgs_ok_def has_org_def map_has_def)

lemma require_organization_Inr:
  "require_organization d org = Inr g \<longleftrightarrow> is_valid_tenant_id org \<and> map_of (orgs d) org = Some g"
  by (auto simp: require_organization_def split: option.splits)

lemma require_organization_cong:
  "orgs d' = orgs d \<Longrightarrow> require_organization d' org = require_organization d org"
  by (simp add: require_organization_def)

section \<open>Monotonicity of the parts\<close>

text \<open>Each part of the invariant reads its own table and the domains of the tables it refers to, so
  it survives any change that keeps the one and grows the others.\<close>

definition org_mono :: "directory \<Rightarrow> directory \<Rightarrow> bool" where
  "org_mono d d' \<longleftrightarrow> (\<forall>x. has_org d x \<longrightarrow> has_org d' x)"

lemma org_monoD: "org_mono d d' \<Longrightarrow> has_org d x \<Longrightarrow> has_org d' x"
  by (simp add: org_mono_def)

lemma org_mono_same [simp]: "orgs d' = orgs d \<Longrightarrow> org_mono d d'"
  by (simp add: org_mono_def has_org_def)

definition has_mono :: "('k, 'v) js_map \<Rightarrow> ('k, 'v) js_map \<Rightarrow> bool" where
  "has_mono m m' \<longleftrightarrow> (\<forall>k. map_has m k \<longrightarrow> map_has m' k)"

lemma has_monoD: "has_mono m m' \<Longrightarrow> map_has m k \<Longrightarrow> map_has m' k"
  by (simp add: has_mono_def)

lemma has_mono_refl [simp]: "has_mono m m"
  by (simp add: has_mono_def)

lemma has_mono_update [simp]: "has_mono m (AList.update k v m)"
  by (simp add: has_mono_def table_simps)

lemma ref_ok_mono: "ref_ok m org v \<Longrightarrow> has_mono m m' \<Longrightarrow> ref_ok m' org v"
  by (auto simp: ref_ok_def has_mono_def split: option.splits)

lemma orgs_ok_same: "orgs_ok d \<Longrightarrow> orgs d' = orgs d \<Longrightarrow> orgs_ok d'"
  by (simp add: orgs_ok_def)

lemma users_ok_mono:
  "users_ok d \<Longrightarrow> users d' = users d \<Longrightarrow> org_mono d d' \<Longrightarrow> users_ok d'"
  by (simp add: users_ok_def org_monoD)

lemma projects_ok_mono:
  "projects_ok d \<Longrightarrow> projects d' = projects d \<Longrightarrow> org_mono d d' \<Longrightarrow> projects_ok d'"
  by (simp add: projects_ok_def org_monoD)

lemma agents_ok_mono:
  assumes "agents_ok d" "agents d' = agents d" "org_mono d d'"
    "has_mono (users d) (users d')" "has_mono (projects d) (projects d')"
  shows "agents_ok d'"
  unfolding agents_ok_def
proof (intro conjI allI impI)
  show "map_ok (agents d')" using assms(1,2) by (simp add: agents_ok_def)
  fix k a
  assume "map_of (agents d') k = Some a"
  with assms(2) have "map_of (agents d) k = Some a" by simp
  with assms(1) show "k = entity_key (da_org a) (da_id a)" "has_org d' (da_org a)"
    "is_valid_tenant_id (da_id a)" "display_name_ok (da_name a)" "optional_id_ok (da_user a)"
    "optional_id_ok (da_project a)" "ref_ok (users d') (da_org a) (da_user a)"
    "ref_ok (projects d') (da_org a) (da_project a)"
    using org_monoD [OF assms(3)] ref_ok_mono [OF _ assms(4)] ref_ok_mono [OF _ assms(5)]
    by (auto simp: agents_ok_def)
qed

lemma members_ok_mono:
  assumes "members_ok d" "members d' = members d" "org_mono d d'"
    "has_mono (users d) (users d')" "has_mono (projects d) (projects d')"
  shows "members_ok d'"
  using assms(1) unfolding members_ok_def assms(2)
  using org_monoD [OF assms(3)] has_monoD [OF assms(4)] has_monoD [OF assms(5)] by blast

lemma pagents_ok_mono:
  assumes "pagents_ok d" "pagents d' = pagents d" "agents d' = agents d" "org_mono d d'"
    "has_mono (projects d) (projects d')"
  shows "pagents_ok d'"
  using assms(1) unfolding pagents_ok_def assms(2,3)
  using org_monoD [OF assms(4)] has_monoD [OF assms(5)] by blast

lemma associated_same:
  "associated d \<Longrightarrow> agents d' = agents d \<Longrightarrow> pagents d' = pagents d \<Longrightarrow> associated d'"
  by (simp add: associated_def)

lemmas parts_mono = orgs_ok_same users_ok_mono projects_ok_mono agents_ok_mono members_ok_mono
  pagents_ok_mono associated_same

lemma dir_okI:
  "orgs_ok d \<Longrightarrow> users_ok d \<Longrightarrow> projects_ok d \<Longrightarrow> agents_ok d \<Longrightarrow> members_ok d \<Longrightarrow> pagents_ok d \<Longrightarrow>
    associated d \<Longrightarrow> dir_ok d"
  by (simp add: dir_ok_def dir_ok0_def)

section \<open>Every method preserves the invariant\<close>

lemma dir_ok_orgs_change:
  assumes "dir_ok d" and "orgs_ok (d\<lparr>orgs := m\<rparr>)" and "has_mono (orgs d) m"
  shows "dir_ok (d\<lparr>orgs := m\<rparr>)"
proof -
  note parts = dir_ok_parts [OF assms(1)]
  have mono: "org_mono d (d\<lparr>orgs := m\<rparr>)"
    using assms(3) by (simp add: org_mono_def has_org_def has_mono_def)
  show ?thesis
    by (rule dir_okI [OF assms(2) users_ok_mono [OF parts(2) _ mono]
          projects_ok_mono [OF parts(3) _ mono] agents_ok_mono [OF parts(4) _ mono]
          members_ok_mono [OF parts(5) _ mono] pagents_ok_mono [OF parts(6) _ _ mono]
          associated_same [OF parts(7)]]) simp_all
qed

lemma dir_ok_bump:
  assumes "dir_ok d"
  shows "dir_ok (snd (bump org d))"
proof (cases "require_organization d org")
  case (Inl e)
  then show ?thesis using assms by (simp add: bump_def)
next
  case (Inr g)
  have "orgs_ok (d\<lparr>orgs := AList.update org (g\<lparr>og_version := og_version g + 1\<rparr>) (orgs d)\<rparr>)"
    using dir_ok_parts(1) [OF assms] Inr
    by (simp add: orgs_ok_def require_organization_Inr table_simps)
  from dir_ok_orgs_change [OF assms this has_mono_update] Inr show ?thesis
    by (simp add: bump_def)
qed

lemma in_organization_ok:
  assumes "dir_ok d" and "has_org d org \<Longrightarrow> dir_ok (snd (k d))"
  shows "dir_ok (snd (in_organization org d k))"
  using assms
  by (auto simp: in_organization_def require_organization_Inr has_org_def map_has_def split: sum.splits)

lemma create_organization_ok:
  assumes "dir_ok d"
  shows "dir_ok (snd (create_organization org d))"
proof (cases "is_valid_tenant_id org \<and> \<not> map_has (orgs d) org")
  case True
  have "orgs_ok (d\<lparr>orgs := AList.update org \<lparr>og_id = org, og_version = 1\<rparr> (orgs d)\<rparr>)"
    using dir_ok_parts(1) [OF assms] True by (simp add: orgs_ok_def table_simps)
  from dir_ok_orgs_change [OF assms this has_mono_update] True show ?thesis
    by (simp add: create_organization_def)
next
  case False
  then show ?thesis using assms by (auto simp: create_organization_def)
qed

lemma put_user_ok:
  assumes "dir_ok d" "has_org d (du_org u)" "is_valid_tenant_id (du_id u)" "display_name_ok (du_name u)"
  shows "dir_ok (d\<lparr>users := AList.update (entity_key (du_org u) (du_id u)) u (users d)\<rparr>)"
    (is "dir_ok ?d")
proof -
  note parts = dir_ok_parts [OF assms(1)]
  have "users_ok ?d"
    using parts(2) assms(2-4) by (auto simp: users_ok_def has_org_def table_simps)
  then show ?thesis
    by (intro dir_okI agents_ok_mono [OF parts(4)]
        members_ok_mono [OF parts(5)] pagents_ok_mono [OF parts(6)] associated_same [OF parts(7)]
        projects_ok_mono [OF parts(3)] orgs_ok_same [OF parts(1)]) simp_all
qed

lemma put_project_ok:
  assumes "dir_ok d" "has_org d (dp_org p)" "is_valid_tenant_id (dp_id p)" "display_name_ok (dp_name p)"
  shows "dir_ok (d\<lparr>projects := AList.update (entity_key (dp_org p) (dp_id p)) p (projects d)\<rparr>)"
    (is "dir_ok ?d")
proof -
  note parts = dir_ok_parts [OF assms(1)]
  have "projects_ok ?d"
    using parts(3) assms(2-4) by (auto simp: projects_ok_def has_org_def table_simps)
  then show ?thesis
    by (intro dir_okI agents_ok_mono [OF parts(4)] members_ok_mono [OF parts(5)]
        pagents_ok_mono [OF parts(6)] associated_same [OF parts(7)] users_ok_mono [OF parts(2)]
        orgs_ok_same [OF parts(1)]) simp_all
qed

lemma upsert_user_ok: "dir_ok d \<Longrightarrow> dir_ok (snd (upsert_user u d))"
  by (auto simp: upsert_user_def intro!: in_organization_ok dir_ok_bump put_user_ok)

lemma upsert_project_ok: "dir_ok d \<Longrightarrow> dir_ok (snd (upsert_project p d))"
  by (auto simp: upsert_project_def intro!: in_organization_ok dir_ok_bump put_project_ok)

text \<open>Only the memberships change.\<close>

lemma dir_ok_members_change:
  assumes "dir_ok d" and "members_ok (d\<lparr>members := m\<rparr>)"
  shows "dir_ok (d\<lparr>members := m\<rparr>)"
proof -
  note parts = dir_ok_parts [OF assms(1)]
  show ?thesis
    by (intro dir_okI assms(2) agents_ok_mono [OF parts(4)] pagents_ok_mono [OF parts(6)]
        associated_same [OF parts(7)] users_ok_mono [OF parts(2)] projects_ok_mono [OF parts(3)]
        orgs_ok_same [OF parts(1)]) simp_all
qed

lemma key_of_user:
  "users_ok d \<Longrightarrow> orgs_ok d \<Longrightarrow> is_valid_tenant_id org \<Longrightarrow>
    map_has (users d) (entity_key org user) \<Longrightarrow> is_valid_tenant_id user"
  by (auto simp: users_ok_def map_has_def entity_key_inject dest!: org_valid spec)

lemma key_of_project:
  "projects_ok d \<Longrightarrow> orgs_ok d \<Longrightarrow> is_valid_tenant_id org \<Longrightarrow>
    map_has (projects d) (entity_key org project) \<Longrightarrow> is_valid_tenant_id project"
  by (auto simp: projects_ok_def map_has_def entity_key_inject dest!: org_valid spec)

lemma put_member_ok:
  assumes "dir_ok d" "has_org d org" "membership_role_ok role"
    "map_has (projects d) (entity_key org project)" "map_has (users d) (entity_key org user)"
  shows "dir_ok (d\<lparr>members := AList.update (membership_key org project user)
         \<lparr>dm_org = org, dm_project = project, dm_user = user, dm_role = role\<rparr> (members d)\<rparr>)"
proof -
  note parts = dir_ok_parts [OF assms(1)]
  have org: "is_valid_tenant_id org" using parts(1) assms(2) by (rule org_valid)
  have "is_valid_tenant_id project" "is_valid_tenant_id user"
    using key_of_project [OF parts(3,1) org assms(4)] key_of_user [OF parts(2,1) org assms(5)] by simp_all
  then show ?thesis
    using parts(5) assms
    by (intro dir_ok_members_change) (auto simp: members_ok_def has_org_def table_simps)
qed

lemma grant_membership_ok: "dir_ok d \<Longrightarrow> dir_ok (snd (grant_membership org project user role d))"
  by (auto simp: grant_membership_def intro!: in_organization_ok dir_ok_bump put_member_ok)

lemma revoke_membership_ok: "dir_ok d \<Longrightarrow> dir_ok (snd (revoke_membership org project user d))"
  unfolding revoke_membership_def
  by (intro dir_ok_bump dir_ok_members_change)
    (auto simp: members_ok_def has_org_def table_simps dest: dir_ok_parts(5))

text \<open>Dropping or changing agents together with their project associations.\<close>

lemma dir_ok_agents_change:
  assumes "dir_ok d" and "agents_ok (d\<lparr>agents := a, pagents := g\<rparr>)"
    and "pagents_ok (d\<lparr>agents := a, pagents := g\<rparr>)" and "associated (d\<lparr>agents := a, pagents := g\<rparr>)"
  shows "dir_ok (d\<lparr>agents := a, pagents := g\<rparr>)"
proof -
  note parts = dir_ok_parts [OF assms(1)]
  show ?thesis
    by (intro dir_okI assms(2-4) members_ok_mono [OF parts(5)] users_ok_mono [OF parts(2)]
        projects_ok_mono [OF parts(3)] orgs_ok_same [OF parts(1)]) simp_all
qed

lemma drop_agent_ok:
  assumes "dir_ok d"
  shows "dir_ok (d\<lparr>agents := AList.delete k (agents d), pagents := AList.delete k (pagents d)\<rparr>)"
proof -
  note parts = dir_ok_parts [OF assms]
  show ?thesis
    using parts(4,6,7)
    by (intro dir_ok_agents_change [OF assms])
      (simp_all add: agents_ok_def pagents_ok_def associated_def has_org_def table_simps)
qed

lemma remove_agent_ok: "dir_ok d \<Longrightarrow> dir_ok (snd (remove_agent org agent d))"
  by (auto simp: remove_agent_def intro!: in_organization_ok dir_ok_bump drop_agent_ok)

text \<open>Removing a user drops the memberships and the agents bound to it, with their project
  associations.\<close>

abbreviation without_user :: "string \<Rightarrow> string \<Rightarrow> directory \<Rightarrow> directory" where
  "without_user org user d \<equiv> d\<lparr>
     users := AList.delete (entity_key org user) (users d),
     members := map_keep (\<lambda>k m. \<not> (dm_org m = org \<and> dm_user m = user)) (members d),
     pagents := map_keep (\<lambda>k g. \<not> (case map_of (agents d) k of
         None \<Rightarrow> False | Some a \<Rightarrow> agent_of_user org user a)) (pagents d),
     agents := map_keep (\<lambda>k a. \<not> agent_of_user org user a) (agents d)\<rparr>"

lemma map_of_keep_SomeD:
  "map_ok m \<Longrightarrow> map_of (map_keep p m) k = Some v \<Longrightarrow> map_of m k = Some v \<and> p k v"
  by (auto simp: table_simps split: option.splits if_splits)

lemma without_user_ok:
  assumes "dir_ok d" and "is_valid_tenant_id org"
  shows "dir_ok (without_user org user d)"
proof -
  note parts = dir_ok_parts [OF assms(1)]
  note keep = map_of_keep_SomeD
  have oks: "map_ok (users d)" "map_ok (agents d)" "map_ok (members d)" "map_ok (pagents d)"
    using parts by (simp_all add: users_ok_def agents_ok_def members_ok_def pagents_ok_def)
  let ?d = "without_user org user d"
  have org: "has_org ?d = has_org d" by (simp add: has_org_def fun_eq_iff)
  have users: "users_ok ?d"
    using parts(2) by (auto simp: users_ok_def org table_simps)
  have other: "map_has (users ?d) (entity_key x u)"
    if "has_org d x" "map_has (users d) (entity_key x u)" "\<not> (x = org \<and> u = user)" for x u
    using that org_valid [OF parts(1) that(1)] assms(2)
    by (auto simp: table_simps entity_key_inject)
  have agents: "agents_ok ?d"
    unfolding agents_ok_def
  proof (intro conjI allI impI)
    show "map_ok (agents ?d)" using oks by simp
    fix k a assume "map_of (agents ?d) k = Some a"
    then have a: "map_of (agents d) k = Some a" and no: "\<not> agent_of_user org user a"
      using keep [OF oks(2)] by auto
    from parts(4) a show "k = entity_key (da_org a) (da_id a)" "has_org ?d (da_org a)"
      "is_valid_tenant_id (da_id a)" "display_name_ok (da_name a)" "optional_id_ok (da_user a)"
      "optional_id_ok (da_project a)" "ref_ok (projects ?d) (da_org a) (da_project a)"
      unfolding agents_ok_def org by simp_all
    from parts(4) a have "ref_ok (users d) (da_org a) (da_user a)" "has_org d (da_org a)"
      unfolding agents_ok_def by blast+
    with no other [of "da_org a"] show "ref_ok (users ?d) (da_org a) (da_user a)"
      by (auto simp: ref_ok_def agent_of_user_def split: option.splits)
  qed
  have members: "members_ok ?d"
    unfolding members_ok_def
  proof (intro conjI allI impI)
    show "map_ok (members ?d)" using oks by simp
    fix k m assume "map_of (members ?d) k = Some m"
    then have m: "map_of (members d) k = Some m" and no: "\<not> (dm_org m = org \<and> dm_user m = user)"
      using keep [OF oks(3)] by auto
    from parts(5) m show "k = membership_key (dm_org m) (dm_project m) (dm_user m)"
      "has_org ?d (dm_org m)" "is_valid_tenant_id (dm_project m)" "is_valid_tenant_id (dm_user m)"
      "membership_role_ok (dm_role m)" "map_has (projects ?d) (entity_key (dm_org m) (dm_project m))"
      unfolding members_ok_def org by simp_all
    from parts(5) m have "map_has (users d) (entity_key (dm_org m) (dm_user m))" "has_org d (dm_org m)"
      unfolding members_ok_def by blast+
    with no other show "map_has (users ?d) (entity_key (dm_org m) (dm_user m))" by blast
  qed
  have pagents: "pagents_ok ?d"
    unfolding pagents_ok_def
  proof (intro conjI allI impI)
    show "map_ok (pagents ?d)" using oks by simp
    fix k g assume "map_of (pagents ?d) k = Some g"
    then have g: "map_of (pagents d) k = Some g"
      and no: "\<not> (case map_of (agents d) k of None \<Rightarrow> False | Some a \<Rightarrow> agent_of_user org user a)"
      using keep [OF oks(4)] by auto
    from parts(6) g show "k = entity_key (dg_org g) (dg_agent g)" "has_org ?d (dg_org g)"
      "is_valid_tenant_id (dg_project g)" "is_valid_tenant_id (dg_agent g)"
      "map_has (projects ?d) (entity_key (dg_org g) (dg_project g))"
      unfolding pagents_ok_def org by simp_all
    from parts(6) g obtain a where "map_of (agents d) k = Some a" "da_project a = Some (dg_project g)"
      unfolding pagents_ok_def by blast
    with no oks(2) show "\<exists>a. map_of (agents ?d) k = Some a \<and> da_project a = Some (dg_project g)"
      by (auto simp: table_simps)
  qed
  have "associated ?d"
    unfolding associated_def
  proof (intro allI impI)
    fix k a assume "map_of (agents ?d) k = Some a" and t: "truthy (da_project a)"
    then have a: "map_of (agents d) k = Some a" and no: "\<not> agent_of_user org user a"
      using keep [OF oks(2)] by auto
    with parts(7) t obtain g where "map_of (pagents d) k = Some g"
      by (auto simp: associated_def map_has_def)
    with a no oks(4) show "map_has (pagents ?d) k" by (simp add: map_has_def table_simps)
  qed
  with users agents members pagents parts show ?thesis
    by (intro dir_okI projects_ok_mono [OF parts(3)] orgs_ok_same [OF parts(1)]) simp_all
qed

lemma remove_user_ok: "dir_ok d \<Longrightarrow> dir_ok (snd (remove_user org user d))"
  unfolding remove_user_def
  by (intro in_organization_ok dir_ok_bump without_user_ok) (auto dest: dir_ok_parts(1) org_valid)

text \<open>Removing a project drops its memberships and associations and unassigns its agents.\<close>

abbreviation unassign :: "string \<Rightarrow> string \<Rightarrow> dir_agent \<Rightarrow> dir_agent" where
  "unassign org project a \<equiv>
     (if da_org a = org \<and> da_project a = Some project then a\<lparr>da_project := None\<rparr> else a)"

abbreviation without_project :: "string \<Rightarrow> string \<Rightarrow> directory \<Rightarrow> directory" where
  "without_project org project d \<equiv> d\<lparr>
     projects := AList.delete (entity_key org project) (projects d),
     members := map_keep (\<lambda>k m. \<not> (dm_org m = org \<and> dm_project m = project)) (members d),
     pagents := map_keep (\<lambda>k g. \<not> (dg_org g = org \<and> dg_project g = project)) (pagents d),
     agents := map_vals (\<lambda>k a. unassign org project a) (agents d)\<rparr>"

lemma without_project_ok:
  assumes "dir_ok d" and "is_valid_tenant_id org"
  shows "dir_ok (without_project org project d)"
proof -
  note parts = dir_ok_parts [OF assms(1)]
  note keep = map_of_keep_SomeD
  have oks: "map_ok (agents d)" "map_ok (members d)" "map_ok (pagents d)"
    using parts by (simp_all add: agents_ok_def members_ok_def pagents_ok_def)
  let ?d = "without_project org project d"
  have org: "has_org ?d = has_org d" by (simp add: has_org_def fun_eq_iff)
  have projects: "projects_ok ?d"
    using parts(3) by (auto simp: projects_ok_def org table_simps)
  have other: "map_has (projects ?d) (entity_key x p)"
    if "has_org d x" "map_has (projects d) (entity_key x p)" "\<not> (x = org \<and> p = project)" for x p
    using that org_valid [OF parts(1) that(1)] assms(2)
    by (auto simp: table_simps entity_key_inject)
  have agents: "agents_ok ?d"
    unfolding agents_ok_def
  proof (intro conjI allI impI)
    show "map_ok (agents ?d)" using oks by simp
    fix k b assume "map_of (agents ?d) k = Some b"
    then obtain a where a: "map_of (agents d) k = Some a" and b: "b = unassign org project a"
      by (auto simp: table_simps)
    from parts(4) a have fa: "k = entity_key (da_org a) (da_id a)" "has_org d (da_org a)"
      "is_valid_tenant_id (da_id a)" "display_name_ok (da_name a)" "optional_id_ok (da_user a)"
      "optional_id_ok (da_project a)" "ref_ok (users d) (da_org a) (da_user a)"
      "ref_ok (projects d) (da_org a) (da_project a)"
      unfolding agents_ok_def by blast+
    then show "k = entity_key (da_org b) (da_id b)" "has_org ?d (da_org b)"
      "is_valid_tenant_id (da_id b)" "display_name_ok (da_name b)" "optional_id_ok (da_user b)"
      "optional_id_ok (da_project b)" "ref_ok (users ?d) (da_org b) (da_user b)"
      unfolding org b by (auto simp: optional_id_ok_def)
    from fa(2,8) b other [of "da_org a"] show "ref_ok (projects ?d) (da_org b) (da_project b)"
      by (auto simp: ref_ok_def split: option.splits)
  qed
  have members: "members_ok ?d"
    unfolding members_ok_def
  proof (intro conjI allI impI)
    show "map_ok (members ?d)" using oks by simp
    fix k m assume "map_of (members ?d) k = Some m"
    then have m: "map_of (members d) k = Some m" and no: "\<not> (dm_org m = org \<and> dm_project m = project)"
      using keep [OF oks(2)] by auto
    from parts(5) m show "k = membership_key (dm_org m) (dm_project m) (dm_user m)"
      "has_org ?d (dm_org m)" "is_valid_tenant_id (dm_project m)" "is_valid_tenant_id (dm_user m)"
      "membership_role_ok (dm_role m)" "map_has (users ?d) (entity_key (dm_org m) (dm_user m))"
      unfolding members_ok_def org by simp_all
    from parts(5) m have "map_has (projects d) (entity_key (dm_org m) (dm_project m))" "has_org d (dm_org m)"
      unfolding members_ok_def by blast+
    with no other show "map_has (projects ?d) (entity_key (dm_org m) (dm_project m))" by blast
  qed
  have pagents: "pagents_ok ?d"
    unfolding pagents_ok_def
  proof (intro conjI allI impI)
    show "map_ok (pagents ?d)" using oks by simp
    fix k g assume "map_of (pagents ?d) k = Some g"
    then have g: "map_of (pagents d) k = Some g" and no: "\<not> (dg_org g = org \<and> dg_project g = project)"
      using keep [OF oks(3)] by auto
    from parts(6) g show k: "k = entity_key (dg_org g) (dg_agent g)" and "has_org ?d (dg_org g)"
      "is_valid_tenant_id (dg_project g)" "is_valid_tenant_id (dg_agent g)"
      unfolding pagents_ok_def org by simp_all
    from parts(6) g obtain a where a: "map_of (agents d) k = Some a" "da_project a = Some (dg_project g)"
      and p: "map_has (projects d) (entity_key (dg_org g) (dg_project g))" and o: "has_org d (dg_org g)"
      unfolding pagents_ok_def by blast
    from o p no show "map_has (projects ?d) (entity_key (dg_org g) (dg_project g))" by (rule other)
    from parts(4) a(1) have "k = entity_key (da_org a) (da_id a)" "has_org d (da_org a)"
      unfolding agents_ok_def by blast+
    with k have "da_org a = dg_org g"
      using org_valid [OF parts(1)] o by (metis entity_key_inject)
    with a no show "\<exists>a. map_of (agents ?d) k = Some a \<and> da_project a = Some (dg_project g)"
      by (auto simp: table_simps)
  qed
  have "associated ?d"
    unfolding associated_def
  proof (intro allI impI)
    fix k b assume "map_of (agents ?d) k = Some b" and t: "truthy (da_project b)"
    then obtain a where a: "map_of (agents d) k = Some a" and b: "b = unassign org project a"
      by (auto simp: table_simps)
    from b t have same: "b = a" and no: "\<not> (da_org a = org \<and> da_project a = Some project)"
      by (auto split: if_splits)
    with parts(7) a t obtain g where g: "map_of (pagents d) k = Some g"
      by (auto simp: associated_def map_has_def)
    from parts(6) g obtain a' where "map_of (agents d) k = Some a'" "da_project a' = Some (dg_project g)"
      and "k = entity_key (dg_org g) (dg_agent g)" "has_org d (dg_org g)"
      unfolding pagents_ok_def by blast
    with a have "da_project a = Some (dg_project g)" "k = entity_key (dg_org g) (dg_agent g)"
      "has_org d (dg_org g)" by simp_all
    moreover from parts(4) a have "k = entity_key (da_org a) (da_id a)" "has_org d (da_org a)"
      unfolding agents_ok_def by blast+
    ultimately have "\<not> (dg_org g = org \<and> dg_project g = project)"
      using no org_valid [OF parts(1)] by (metis entity_key_inject)
    with g oks(3) show "map_has (pagents ?d) k" by (auto simp: map_has_def table_simps)
  qed
  with projects agents members pagents show ?thesis
    by (intro dir_okI users_ok_mono [OF parts(2)] orgs_ok_same [OF parts(1)]) simp_all
qed

lemma remove_project_ok: "dir_ok d \<Longrightarrow> dir_ok (snd (remove_project org project d))"
  unfolding remove_project_def
  by (intro in_organization_ok dir_ok_bump without_project_ok) (auto dest: dir_ok_parts(1) org_valid)

text \<open>Upserting an agent keeps its association in step with its project.\<close>

abbreviation with_agent :: "string \<Rightarrow> dir_agent \<Rightarrow> directory \<Rightarrow> directory" where
  "with_agent k a d \<equiv> d\<lparr>agents := AList.update k a (agents d),
      pagents := (case da_project a of
          Some p \<Rightarrow> if p \<noteq> ''''
            then AList.update k \<lparr>dg_org = da_org a, dg_project = p, dg_agent = da_id a\<rparr> (pagents d)
            else AList.delete k (pagents d)
        | None \<Rightarrow> AList.delete k (pagents d))\<rparr>"

lemma put_agent_ok:
  assumes "dir_ok d" "has_org d (da_org a)" "is_valid_tenant_id (da_id a)" "display_name_ok (da_name a)"
    "optional_id_ok (da_user a)" "optional_id_ok (da_project a)"
    "ref_ok (users d) (da_org a) (da_user a)" "ref_ok (projects d) (da_org a) (da_project a)"
    and k: "k = entity_key (da_org a) (da_id a)"
  shows "dir_ok (with_agent k a d)" (is "dir_ok (d\<lparr>agents := ?A, pagents := ?G\<rparr>)")
proof (rule dir_ok_agents_change [OF assms(1)])
  note parts = dir_ok_parts [OF assms(1)]
  let ?d = "d\<lparr>agents := ?A, pagents := ?G\<rparr>"
  have org: "has_org ?d = has_org d" by (simp add: has_org_def fun_eq_iff)
  show "agents_ok ?d"
    using parts(4) assms unfolding agents_ok_def org by (auto simp: table_simps)
  have gk: "map_of ?G k = (case da_project a of None \<Rightarrow> None
      | Some p \<Rightarrow> if p \<noteq> '''' then Some \<lparr>dg_org = da_org a, dg_project = p, dg_agent = da_id a\<rparr> else None)"
    by (auto simp: table_simps split: option.splits)
  have go: "j \<noteq> k \<Longrightarrow> map_of ?G j = map_of (pagents d) j" for j
    by (auto simp: table_simps split: option.splits)
  have okG: "map_ok ?G" using parts(6) by (auto simp: pagents_ok_def split: option.splits)
  show "associated ?d"
    unfolding associated_def
  proof (intro allI impI)
    fix j b assume b: "map_of (agents ?d) j = Some b" "truthy (da_project b)"
    show "map_has (pagents ?d) j"
    proof (cases "j = k")
      case True
      with b gk show ?thesis by (auto simp: map_has_def table_simps split: option.splits)
    next
      case False
      with b parts(7) go show ?thesis by (auto simp: associated_def map_has_def table_simps)
    qed
  qed
  show "pagents_ok ?d"
    unfolding pagents_ok_def org
  proof (intro conjI allI impI)
    show "map_ok (pagents ?d)" using okG by simp
    fix j g assume g: "map_of (pagents ?d) j = Some g"
    have "j = entity_key (dg_org g) (dg_agent g) \<and> has_org d (dg_org g) \<and>
       is_valid_tenant_id (dg_project g) \<and> is_valid_tenant_id (dg_agent g) \<and>
       map_has (projects d) (entity_key (dg_org g) (dg_project g)) \<and>
       (\<exists>b. map_of ?A j = Some b \<and> da_project b = Some (dg_project g))"
    proof (cases "j = k")
      case True
      with g gk assms show ?thesis
        by (auto simp: table_simps optional_id_ok_def ref_ok_def split: option.splits if_splits)
    next
      case False
      with g go have "map_of (pagents d) j = Some g" by simp
      with parts(6) False show ?thesis
        unfolding pagents_ok_def by (auto simp: table_simps)
    qed
    then show "j = entity_key (dg_org g) (dg_agent g)" "has_org d (dg_org g)"
      "is_valid_tenant_id (dg_project g)" "is_valid_tenant_id (dg_agent g)"
      "map_has (projects ?d) (entity_key (dg_org g) (dg_project g))"
      "\<exists>b. map_of (agents ?d) j = Some b \<and> da_project b = Some (dg_project g)"
      by auto
  qed
qed

lemma upsert_agent_ok:
  assumes "dir_ok d"
  shows "dir_ok (snd (upsert_agent a d))"
proof -
  have "dir_ok (snd (bump (da_org a) (with_agent (entity_key (da_org a) (da_id a)) a d)))"
    if "has_org d (da_org a)" "is_valid_tenant_id (da_id a)" "display_name_ok (da_name a)"
      "optional_id_ok (da_user a)" "optional_id_ok (da_project a)"
      "ref_ok (users d) (da_org a) (da_user a)" "ref_ok (projects d) (da_org a) (da_project a)"
    using that by (intro dir_ok_bump put_agent_ok assms) simp_all
  then show ?thesis
    using assms unfolding upsert_agent_def Let_def
    by (auto intro!: in_organization_ok)
qed

lemma dir_step_ok: "dir_ok d \<Longrightarrow> dir_ok (snd (dir_step op d))"
  by (cases op)
    (simp_all add: create_organization_ok upsert_user_ok remove_user_ok upsert_project_ok
      remove_project_ok upsert_agent_ok remove_agent_ok grant_membership_ok revoke_membership_ok)

lemma dir_run_ok: "dir_ok d \<Longrightarrow> dir_ok (dir_run d ops)"
  by (induction ops arbitrary: d) (simp_all add: dir_step_ok)

section \<open>A method that throws leaves the directory as it was\<close>

lemma bump_error: "fst (bump org d) = Inl e \<Longrightarrow> snd (bump org d) = d"
  by (auto simp: bump_def split: sum.splits)

lemma bump_succeeds:
  "has_org d org \<Longrightarrow> is_valid_tenant_id org \<Longrightarrow> fst (bump org d) = Inr ()"
  by (auto simp: bump_def require_organization_def has_org_def map_has_def)

lemma bump_fails_iff: "fst (bump org d) = Inl e \<longleftrightarrow> require_organization d org = Inl e"
  by (auto simp: bump_def split: sum.splits)

lemma require_fails:
  assumes "dir_ok d" and "require_organization d org = Inl e"
  shows "\<not> has_org d org"
proof
  assume h: "has_org d org"
  from org_valid [OF dir_ok_parts(1) [OF assms(1)] h] h assms(2) show False
    by (auto simp: require_organization_def has_org_def map_has_def)
qed

lemma require_organization_frame [simp]:
  "require_organization (d\<lparr>members := m\<rparr>) = require_organization d"
  by (simp add: require_organization_def fun_eq_iff)

lemma revoke_atomic:
  assumes "dir_ok d" and "fst (revoke_membership org project user d) = Inl e"
  shows "snd (revoke_membership org project user d) = d"
proof -
  let ?k = "membership_key org project user"
  let ?d = "d\<lparr>members := AList.delete ?k (members d)\<rparr>"
  have req: "require_organization ?d org = Inl e"
    using assms(2) unfolding revoke_membership_def bump_fails_iff by simp
  then have "require_organization d org = Inl e" by simp
  with assms(1) have no: "\<not> has_org d org" by (rule require_fails)
  have "\<not> map_has (members d) ?k"
  proof
    assume "map_has (members d) ?k"
    then obtain m where m: "map_of (members d) ?k = Some m" by (auto simp: map_has_def)
    with dir_ok_parts(5) [OF assms(1)]
    have m': "?k = membership_key (dm_org m) (dm_project m) (dm_user m)" "has_org d (dm_org m)"
      "is_valid_tenant_id (dm_project m)" "is_valid_tenant_id (dm_user m)"
      unfolding members_ok_def by blast+
    with org_valid [OF dir_ok_parts(1) [OF assms(1)]] have "dm_org m = org"
      by (metis membership_key_inject)
    with m'(2) no show False by simp
  qed
  then have "?d = d" by (simp add: delete_absent)
  with req show ?thesis by (simp add: revoke_membership_def bump_def)
qed

lemma in_organization_error:
  assumes "fst (in_organization org d k) = Inl e"
    and "has_org d org \<Longrightarrow> is_valid_tenant_id org \<Longrightarrow> fst (k d) = Inl e \<Longrightarrow> snd (k d) = d"
  shows "snd (in_organization org d k) = d"
proof (cases "require_organization d org")
  case (Inl e')
  then show ?thesis by (simp add: in_organization_def)
next
  case (Inr g)
  then have "has_org d org" "is_valid_tenant_id org"
    by (auto simp: require_organization_Inr has_org_def map_has_def)
  with assms Inr show ?thesis by (simp add: in_organization_def)
qed

lemma no_error_after_check:
  "has_org d org \<Longrightarrow> is_valid_tenant_id org \<Longrightarrow> orgs d' = orgs d \<Longrightarrow> fst (bump org d') \<noteq> Inl e"
  using bump_succeeds [of d' org] by (simp add: has_org_def)

lemma dir_step_atomic:
  assumes "dir_ok d" and "fst (dir_step op d) = Inl e"
  shows "snd (dir_step op d) = d"
proof (cases op)
  case (RevokeMembership org project user)
  then show ?thesis using assms revoke_atomic by simp
next
  case (CreateOrganization org)
  then show ?thesis using assms by (auto simp: create_organization_def)
next
  case (UpsertUser u)
  then show ?thesis using assms
    by (auto simp: upsert_user_def no_error_after_check intro: in_organization_error)
next
  case (UpsertProject p)
  then show ?thesis using assms
    by (auto simp: upsert_project_def no_error_after_check intro: in_organization_error)
next
  case (RemoveUser org user)
  then show ?thesis using assms
    by (auto simp: remove_user_def no_error_after_check intro: in_organization_error)
next
  case (RemoveProject org project)
  then show ?thesis using assms
    by (auto simp: remove_project_def no_error_after_check intro: in_organization_error)
next
  case (RemoveAgent org agent)
  then show ?thesis using assms
    by (auto simp: remove_agent_def no_error_after_check intro: in_organization_error)
next
  case (GrantMembership org project user role)
  with assms(2) have "fst (grant_membership org project user role d) = Inl e" by simp
  then have "snd (grant_membership org project user role d) = d"
    unfolding grant_membership_def
    by (rule in_organization_error) (auto simp: no_error_after_check split: if_splits)
  with GrantMembership show ?thesis by simp
next
  case (UpsertAgent a)
  with assms(2) have "fst (upsert_agent a d) = Inl e" by simp
  then have "snd (upsert_agent a d) = d"
    by (auto simp: upsert_agent_def Let_def no_error_after_check split: if_splits
        elim!: in_organization_error)
  with UpsertAgent show ?thesis by simp
qed

section \<open>Membership versions\<close>

definition version_of :: "directory \<Rightarrow> string \<Rightarrow> nat option" where
  "version_of d x = map_option og_version (map_of (orgs d) x)"

definition next_version :: "nat option \<Rightarrow> nat" where
  "next_version v = (case v of None \<Rightarrow> 1 | Some n \<Rightarrow> Suc n)"

definition versioned :: "string \<Rightarrow> directory \<Rightarrow> outcome \<Rightarrow> bool" where
  "versioned org d r \<longleftrightarrow> (fst r = Inr () \<longrightarrow>
     version_of (snd r) = (version_of d)(org := Some (next_version (version_of d org))))"

lemma versioned_guard: "versioned org d r \<Longrightarrow> versioned org d (if b then (Inl e, d) else r)"
  by (simp add: versioned_def)

lemma versioned_in_organization:
  "versioned org d (k d) \<Longrightarrow> versioned org d (in_organization org d k)"
  by (auto simp: versioned_def in_organization_def split: sum.splits)

lemma versioned_bump: "orgs d' = orgs d \<Longrightarrow> versioned org d (bump org d')"
  by (auto simp: versioned_def bump_def version_of_def next_version_def require_organization_Inr
      table_simps fun_eq_iff split: sum.splits)

lemmas versioned_rules = versioned_guard versioned_in_organization versioned_bump

lemma versioned_create: "versioned org d (create_organization org d)"
  by (auto simp: versioned_def create_organization_def version_of_def next_version_def
      map_has_def table_simps fun_eq_iff)

lemma dir_step_version: "versioned (dir_op_org op) d (dir_step op d)"
proof (cases op)
  case (CreateOrganization org)
  then show ?thesis by (simp add: versioned_create)
next
  case (UpsertUser u)
  show ?thesis unfolding UpsertUser dir_step.simps dir_op_org.simps upsert_user_def
    by (intro versioned_rules) simp
next
  case (UpsertProject p)
  show ?thesis unfolding UpsertProject dir_step.simps dir_op_org.simps upsert_project_def
    by (intro versioned_rules) simp
next
  case (RemoveUser org user)
  show ?thesis unfolding RemoveUser dir_step.simps dir_op_org.simps remove_user_def
    by (intro versioned_rules) simp
next
  case (RemoveProject org project)
  show ?thesis unfolding RemoveProject dir_step.simps dir_op_org.simps remove_project_def
    by (intro versioned_rules) simp
next
  case (RemoveAgent org agent)
  show ?thesis unfolding RemoveAgent dir_step.simps dir_op_org.simps remove_agent_def
    by (intro versioned_rules) simp
next
  case (RevokeMembership org project user)
  show ?thesis unfolding RevokeMembership dir_step.simps dir_op_org.simps revoke_membership_def
    by (intro versioned_rules) simp
next
  case (GrantMembership org project user role)
  show ?thesis unfolding GrantMembership dir_step.simps dir_op_org.simps grant_membership_def
    by (intro versioned_rules) simp
next
  case (UpsertAgent a)
  show ?thesis unfolding UpsertAgent dir_step.simps dir_op_org.simps upsert_agent_def Let_def
    by (intro versioned_rules) simp
qed

lemma version_never_drops:
  assumes "dir_ok d" and "version_of d x = Some n"
  shows "\<exists>m \<ge> n. version_of (snd (dir_step op d)) x = Some m"
proof (cases "fst (dir_step op d)")
  case (Inl e)
  with dir_step_atomic [OF assms(1)] assms(2) show ?thesis by auto
next
  case (Inr u)
  with dir_step_version [of op d] assms(2) show ?thesis
    by (auto simp: versioned_def next_version_def split: option.splits)
qed

lemma version_monotone:
  "dir_ok d \<Longrightarrow> version_of d x = Some n \<Longrightarrow> \<exists>m \<ge> n. version_of (dir_run d ops) x = Some m"
proof (induction ops arbitrary: d n)
  case Nil
  then show ?case by simp
next
  case (Cons op ops)
  from version_never_drops [OF Cons.prems, of op]
  obtain m where m: "m \<ge> n" "version_of (snd (dir_step op d)) x = Some m" by auto
  from Cons.IH [OF dir_step_ok [OF Cons.prems(1)] m(2)] obtain m' where
    "m' \<ge> m" "version_of (dir_run (snd (dir_step op d)) ops) x = Some m'" by auto
  with m(1) show ?case by (auto intro: order_trans)
qed

end
