(* ===== verification/TenantDirectorySpec.thy ===== *)
theory TenantDirectorySpec
  imports TenantDirectoryFacts
begin

text \<open>
  What the tenant directory promises, stated over every run of its methods: referential
  integrity, methods that take effect entirely or not at all, contexts that stay dead once
  their organization changed, organizations that cannot disturb one another, and a serialised
  form that is read back to the same directory.
\<close>

section \<open>Organizations do not disturb one another\<close>

definition same_for :: "string \<Rightarrow> directory \<Rightarrow> directory \<Rightarrow> bool" where
  "same_for x d d' \<longleftrightarrow>
     map_of (orgs d') x = map_of (orgs d) x \<and>
     (\<forall>i. map_of (users d') (entity_key x i) = map_of (users d) (entity_key x i)) \<and>
     (\<forall>i. map_of (projects d') (entity_key x i) = map_of (projects d) (entity_key x i)) \<and>
     (\<forall>i. map_of (agents d') (entity_key x i) = map_of (agents d) (entity_key x i)) \<and>
     (\<forall>i. map_of (pagents d') (entity_key x i) = map_of (pagents d) (entity_key x i)) \<and>
     (\<forall>p u. is_valid_tenant_id p \<longrightarrow> is_valid_tenant_id u \<longrightarrow>
       map_of (members d') (membership_key x p u) = map_of (members d) (membership_key x p u))"

lemma same_for_refl [simp]: "same_for x d d"
  by (simp add: same_for_def)

lemma same_for_guard: "same_for x d (snd r) \<Longrightarrow> same_for x d (snd (if b then (Inl e, d) else r))"
  by simp

lemma same_for_in_organization:
  assumes "is_valid_tenant_id org \<Longrightarrow> has_org d org \<Longrightarrow> same_for x d (snd (k d))"
  shows "same_for x d (snd (in_organization org d k))"
  using assms
  by (auto simp: in_organization_def require_organization_Inr has_org_def map_has_def split: sum.splits)

lemma same_for_bump:
  "org \<noteq> x \<Longrightarrow> same_for x d d' \<Longrightarrow> same_for x d (snd (bump org d'))"
  by (auto simp: bump_def same_for_def table_simps split: sum.splits)

lemmas same_for_rules = same_for_guard same_for_in_organization same_for_bump

lemma rows_of_other_org:
  assumes "dir_ok d" and "is_valid_tenant_id x"
  shows "map_of (members d) (membership_key x p u) = Some m \<Longrightarrow> is_valid_tenant_id p \<Longrightarrow>
      is_valid_tenant_id u \<Longrightarrow> dm_org m = x"
    and "map_of (agents d) (entity_key x i) = Some a \<Longrightarrow> da_org a = x"
    and "map_of (pagents d) (entity_key x i) = Some g \<Longrightarrow> dg_org g = x"
proof -
  note parts = dir_ok_parts [OF assms(1)]
  show "dm_org m = x" if m: "map_of (members d) (membership_key x p u) = Some m"
    and v: "is_valid_tenant_id p" "is_valid_tenant_id u"
  proof -
    from m parts(5) have "membership_key x p u = membership_key (dm_org m) (dm_project m) (dm_user m)"
      unfolding members_ok_def by blast
    then have "x = dm_org m \<and> p = dm_project m \<and> u = dm_user m"
      by (rule iffD1 [OF membership_key_inject [OF assms(2) v]])
    then show ?thesis by simp
  qed
  show "da_org a = x" if a: "map_of (agents d) (entity_key x i) = Some a"
  proof -
    from a parts(4) have "entity_key x i = entity_key (da_org a) (da_id a)" "has_org d (da_org a)"
      unfolding agents_ok_def by blast+
    with entity_key_inject [OF assms(2) org_valid [OF parts(1)]] show ?thesis by metis
  qed
  show "dg_org g = x" if g: "map_of (pagents d) (entity_key x i) = Some g"
  proof -
    from g parts(6) have "entity_key x i = entity_key (dg_org g) (dg_agent g)" "has_org d (dg_org g)"
      unfolding pagents_ok_def by blast+
    with entity_key_inject [OF assms(2) org_valid [OF parts(1)]] show ?thesis by metis
  qed
qed

lemma dir_ok_tables:
  assumes "dir_ok d"
  shows "map_ok (orgs d)" "map_ok (users d)" "map_ok (projects d)" "map_ok (agents d)"
    "map_ok (members d)" "map_ok (pagents d)"
  using dir_ok_parts [OF assms]
  by (simp_all add: orgs_ok_def users_ok_def projects_ok_def agents_ok_def members_ok_def pagents_ok_def)

lemma same_for_without_user:
  assumes "dir_ok d" "is_valid_tenant_id x" "is_valid_tenant_id org" "org \<noteq> x"
  shows "same_for x d (without_user org user d)"
proof -
  note rows = rows_of_other_org [OF assms(1,2)]
  show ?thesis
    unfolding same_for_def
    using assms(2-4) dir_ok_tables [OF assms(1)]
    by (auto simp: table_simps entity_key_inject agent_of_user_def split: option.splits
        dest: rows)
qed

lemma same_for_without_project:
  assumes "dir_ok d" "is_valid_tenant_id x" "is_valid_tenant_id org" "org \<noteq> x"
  shows "same_for x d (without_project org project d)"
proof -
  note rows = rows_of_other_org [OF assms(1,2)]
  have "map_option (\<lambda>a. if da_org a = org \<and> da_project a = Some project
      then a\<lparr>da_project := None\<rparr> else a) (map_of (agents d) (entity_key x i)) =
      map_of (agents d) (entity_key x i)" for i
    using assms(4) by (cases "map_of (agents d) (entity_key x i)") (auto dest: rows)
  then show ?thesis
    unfolding same_for_def
    using assms(2-4) dir_ok_tables [OF assms(1)]
    by (auto simp: table_simps entity_key_inject split: option.splits dest: rows)
qed

lemma dir_step_same_for:
  assumes "dir_ok d" "is_valid_tenant_id x" "dir_op_org op \<noteq> x"
  shows "same_for x d (snd (dir_step op d))"
proof (cases op)
  case (CreateOrganization org)
  with assms(3) show ?thesis
    by (auto simp: create_organization_def same_for_def table_simps)
next
  case (UpsertUser u)
  with assms(2,3) show ?thesis unfolding UpsertUser dir_step.simps upsert_user_def
    by (intro same_for_rules) (auto simp: same_for_def table_simps entity_key_inject)
next
  case (UpsertProject p)
  with assms(2,3) show ?thesis unfolding UpsertProject dir_step.simps upsert_project_def
    by (intro same_for_rules) (auto simp: same_for_def table_simps entity_key_inject)
next
  case (RemoveUser org user)
  with assms show ?thesis unfolding RemoveUser dir_step.simps remove_user_def
    by (intro same_for_rules same_for_without_user) auto
next
  case (RemoveProject org project)
  with assms show ?thesis unfolding RemoveProject dir_step.simps remove_project_def
    by (intro same_for_rules same_for_without_project) auto
next
  case (RemoveAgent org agent)
  with assms(2,3) show ?thesis unfolding RemoveAgent dir_step.simps remove_agent_def
    by (intro same_for_rules) (auto simp: same_for_def table_simps entity_key_inject)
next
  case (RevokeMembership org project user)
  with assms(2,3) show ?thesis unfolding RevokeMembership dir_step.simps revoke_membership_def
    by (intro same_for_rules) (auto simp: same_for_def table_simps membership_key_inject)
next
  case (GrantMembership org project user role)
  with assms(2,3) show ?thesis unfolding GrantMembership dir_step.simps grant_membership_def
    by (intro same_for_rules) (auto simp: same_for_def table_simps membership_key_inject)
next
  case (UpsertAgent a)
  with assms(2,3) show ?thesis unfolding UpsertAgent dir_step.simps upsert_agent_def Let_def
    by (intro same_for_rules)
      (auto simp: same_for_def table_simps entity_key_inject split: option.splits)
qed

lemma verify_context_cong:
  assumes "same_for (pr_organizationId p) d d'"
    and "opt_valid is_valid_tenant_id (pr_projectId p)" "opt_valid is_valid_tenant_id (pr_userId p)"
  shows "verify_context d' (Context p) = verify_context d (Context p)"
proof -
  let ?x = "pr_organizationId p"
  have has: "map_has (users d') (entity_key ?x i) = map_has (users d) (entity_key ?x i)"
    "map_has (projects d') (entity_key ?x i) = map_has (projects d) (entity_key ?x i)" for i
    using assms(1) by (simp_all add: same_for_def map_has_def)
  have "agent_matches d' p = agent_matches d p"
    using assms(1) by (simp add: agent_matches_def same_for_def fun_eq_iff)
  moreover have "project_allowed d' p q = project_allowed d p q" if "is_valid_tenant_id q" for q
  proof -
    have "user_allowed d' p q = user_allowed d p q"
      using assms that by (auto simp: user_allowed_def same_for_def map_has_def split: option.splits)
    moreover have "agent_allowed d' p q = agent_allowed d p q"
      using assms(1) by (simp add: agent_allowed_def same_for_def split: option.splits)
    ultimately show ?thesis by (simp add: project_allowed_def has)
  qed
  then have "opt_test (pr_projectId p) (project_allowed d' p) = opt_test (pr_projectId p) (project_allowed d p)"
    using assms(2) by (auto simp: opt_test_def split: option.splits)
  ultimately show ?thesis
    using assms(1) by (simp add: same_for_def has split: option.splits)
qed

section \<open>The serialised form\<close>

text \<open>Loading entry after entry keeps the referential invariant; the last check of the loader adds
  the association of every assigned agent.\<close>

lemma load_org_ok0: "dir_ok0 d \<Longrightarrow> is_valid_tenant_id (og_id g) \<Longrightarrow> 1 \<le> og_version g \<Longrightarrow>
    load_org d g = Inr d' \<Longrightarrow> dir_ok0 d'"
proof -
  assume ok: "dir_ok0 d" and v: "is_valid_tenant_id (og_id g)" "1 \<le> og_version g"
    and l: "load_org d g = Inr d'"
  have d': "d' = d\<lparr>orgs := AList.update (og_id g) g (orgs d)\<rparr>"
    using l by (simp add: load_org_def split: if_splits)
  have mono: "org_mono d d'" by (simp add: d' org_mono_def has_org_def table_simps)
  have "orgs_ok d'" using ok v by (simp add: d' dir_ok0_def orgs_ok_def table_simps)
  moreover have "users_ok d'" "projects_ok d'"
    using ok mono by (auto simp: d' dir_ok0_def intro: users_ok_mono projects_ok_mono)
  moreover have "agents_ok d'" "members_ok d'" "pagents_ok d'"
    using ok mono unfolding dir_ok0_def
    by (auto simp: d' intro: agents_ok_mono members_ok_mono pagents_ok_mono)
  ultimately show ?thesis by (simp add: dir_ok0_def)
qed

lemma require_has_org: "require_organization d org = Inr g \<Longrightarrow> has_org d org"
  by (auto simp: require_organization_Inr has_org_def map_has_def)

lemma load_user_ok0:
  assumes "dir_ok0 d" "is_valid_tenant_id (du_id u)" "display_name_ok (du_name u)" "load_user d u = Inr d'"
  shows "dir_ok0 d'"
proof -
  have d': "d' = d\<lparr>users := AList.update (entity_key (du_org u) (du_id u)) u (users d)\<rparr>"
    and org: "has_org d (du_org u)"
    using assms(4) by (auto simp: load_user_def and_then_Inr_iff Let_def require_has_org split: if_splits)
  have "users_ok d'" using assms org by (auto simp: d' dir_ok0_def users_ok_def has_org_def table_simps)
  moreover have "orgs_ok d'" "projects_ok d'" "agents_ok d'" "members_ok d'" "pagents_ok d'"
    using assms(1) unfolding dir_ok0_def
    by (auto simp: d' intro: agents_ok_mono members_ok_mono pagents_ok_mono orgs_ok_same projects_ok_mono)
  ultimately show ?thesis by (simp add: dir_ok0_def)
qed

lemma load_project_ok0:
  assumes "dir_ok0 d" "is_valid_tenant_id (dp_id p)" "display_name_ok (dp_name p)" "load_project d p = Inr d'"
  shows "dir_ok0 d'"
proof -
  have d': "d' = d\<lparr>projects := AList.update (entity_key (dp_org p) (dp_id p)) p (projects d)\<rparr>"
    and org: "has_org d (dp_org p)"
    using assms(4) by (auto simp: load_project_def and_then_Inr_iff Let_def require_has_org split: if_splits)
  have "projects_ok d'" using assms org by (auto simp: d' dir_ok0_def projects_ok_def has_org_def table_simps)
  moreover have "orgs_ok d'" "users_ok d'" "agents_ok d'" "members_ok d'" "pagents_ok d'"
    using assms(1) unfolding dir_ok0_def
    by (auto simp: d' intro: agents_ok_mono members_ok_mono pagents_ok_mono orgs_ok_same users_ok_mono)
  ultimately show ?thesis by (simp add: dir_ok0_def)
qed

lemma load_agent_ok0:
  assumes "dir_ok0 d" "is_valid_tenant_id (da_id a)" "display_name_ok (da_name a)"
    "optional_id_ok (da_user a)" "optional_id_ok (da_project a)" "load_agent d a = Inr d'"
  shows "dir_ok0 d'"
proof -
  have fresh: "\<not> map_has (agents d) (entity_key (da_org a) (da_id a))"
    and d': "d' = d\<lparr>agents := AList.update (entity_key (da_org a) (da_id a)) a (agents d)\<rparr>"
    and org: "has_org d (da_org a)"
    and refs: "ref_ok (users d) (da_org a) (da_user a)" "ref_ok (projects d) (da_org a) (da_project a)"
    using assms(6) by (auto simp: load_agent_def and_then_Inr_iff Let_def require_has_org split: if_splits)
  have has: "has_org d' = has_org d" by (simp add: d')
  have "agents_ok d'"
    using assms org refs unfolding dir_ok0_def agents_ok_def has by (auto simp: d' table_simps)
  moreover have "pagents_ok d'"
  proof -
    have new: "k \<noteq> entity_key (da_org a) (da_id a)" if "map_of (pagents d) k = Some g" for k g
      using that assms(1) fresh unfolding dir_ok0_def pagents_ok_def map_has_def by fastforce
    show ?thesis
      using assms(1) new unfolding dir_ok0_def pagents_ok_def has by (auto simp: d' table_simps)
  qed
  moreover have "orgs_ok d'" "users_ok d'" "projects_ok d'" "members_ok d'"
    using assms(1) unfolding dir_ok0_def
    by (auto simp: d' intro: members_ok_mono orgs_ok_same users_ok_mono projects_ok_mono)
  ultimately show ?thesis by (simp add: dir_ok0_def)
qed

lemma load_member_ok0:
  assumes "dir_ok0 d" "is_valid_tenant_id (dm_project m)" "is_valid_tenant_id (dm_user m)"
    "membership_role_ok (dm_role m)" "load_member d m = Inr d'"
  shows "dir_ok0 d'"
proof -
  have d': "d' = d\<lparr>members := AList.update (membership_key (dm_org m) (dm_project m) (dm_user m)) m (members d)\<rparr>"
    and org: "has_org d (dm_org m)"
    and refs: "map_has (projects d) (entity_key (dm_org m) (dm_project m))"
      "map_has (users d) (entity_key (dm_org m) (dm_user m))"
    using assms(5) by (auto simp: load_member_def and_then_Inr_iff Let_def require_has_org split: if_splits)
  have "members_ok d'"
    using assms org refs by (auto simp: d' dir_ok0_def members_ok_def has_org_def table_simps)
  moreover have "orgs_ok d'" "users_ok d'" "projects_ok d'" "agents_ok d'" "pagents_ok d'"
    using assms(1) unfolding dir_ok0_def
    by (auto simp: d' intro: agents_ok_mono pagents_ok_mono orgs_ok_same users_ok_mono projects_ok_mono)
  ultimately show ?thesis by (simp add: dir_ok0_def)
qed

lemma load_pagent_ok0:
  assumes "dir_ok0 d" "is_valid_tenant_id (dg_project g)" "is_valid_tenant_id (dg_agent g)"
    "load_pagent d g = Inr d'"
  shows "dir_ok0 d'"
proof -
  have d': "d' = d\<lparr>pagents := AList.update (entity_key (dg_org g) (dg_agent g)) g (pagents d)\<rparr>"
    and org: "has_org d (dg_org g)"
    and refs: "map_has (projects d) (entity_key (dg_org g) (dg_project g))"
      "\<exists>a. map_of (agents d) (entity_key (dg_org g) (dg_agent g)) = Some a \<and> da_project a = Some (dg_project g)"
    using assms(4)
    by (auto simp: load_pagent_def and_then_Inr_iff Let_def require_has_org
        split: if_splits option.splits)
  have "pagents_ok d'"
    using assms org refs by (auto simp: d' dir_ok0_def pagents_ok_def has_org_def table_simps)
  moreover have "orgs_ok d'" "users_ok d'" "projects_ok d'" "agents_ok d'" "members_ok d'"
    using assms(1) unfolding dir_ok0_def
    by (auto simp: d' intro: agents_ok_mono members_ok_mono orgs_ok_same users_ok_mono projects_ok_mono)
  ultimately show ?thesis by (simp add: dir_ok0_def)
qed

lemma loaded_directory_ok0:
  assumes s: "snapshot_schema_ok s" and "from_snapshot s = Inr d"
  shows "dir_ok0 d" "agents_associated d"
proof -
  obtain d1 d2 d3 d4 d5 where
    f1: "fold_res load_org empty_directory (sn_orgs s) = Inr d1" and
    f2: "fold_res load_user d1 (sn_users s) = Inr d2" and
    f3: "fold_res load_project d2 (sn_projects s) = Inr d3" and
    f4: "fold_res load_agent d3 (sn_agents s) = Inr d4" and
    f5: "fold_res load_member d4 (sn_members s) = Inr d5" and
    f6: "fold_res load_pagent d5 (sn_pagents s) = Inr d" and
    as: "agents_associated d"
    using assms by (auto simp: from_snapshot_def and_then_Inr_iff split: if_splits)
  have e: "dir_ok0 empty_directory" using dir_ok_empty by (simp add: dir_ok_def)
  note sch = s [unfolded snapshot_schema_ok_def list_all_iff]
  have opt: "opt_valid is_valid_tenant_id v \<Longrightarrow> optional_id_ok v" for v
    by (cases v) (auto simp: optional_id_ok_def)
  have "dir_ok0 d1" using f1 e by (rule fold_res_invariant) (use sch load_org_ok0 in blast)
  with f2 have "dir_ok0 d2" by (rule fold_res_invariant) (use sch load_user_ok0 in blast)
  with f3 have "dir_ok0 d3" by (rule fold_res_invariant) (use sch load_project_ok0 in blast)
  with f4 have "dir_ok0 d4" by (rule fold_res_invariant) (use sch load_agent_ok0 opt in blast)
  with f5 have "dir_ok0 d5" by (rule fold_res_invariant) (use sch load_member_ok0 in blast)
  with f6 show "dir_ok0 d" by (rule fold_res_invariant) (use sch load_pagent_ok0 in blast)
  show "agents_associated d" by (rule as)
qed

lemma loaded_directory_ok:
  assumes "from_snapshot s = Inr d"
  shows "dir_ok d"
proof -
  have s: "snapshot_schema_ok s" using assms by (auto simp: from_snapshot_def split: if_splits)
  note ok0 = loaded_directory_ok0 [OF s assms]
  have "associated d"
    unfolding associated_def
  proof (intro allI impI)
    fix k a assume a: "map_of (agents d) k = Some a" "truthy (da_project a)"
    from ok0(1) a(1) have "k = entity_key (da_org a) (da_id a)"
      unfolding dir_ok0_def agents_ok_def by blast
    with ok0(2) a get_in_set [OF a(1)] show "map_has (pagents d) k"
      by (force simp: agents_associated_def list_all_iff)
  qed
  with ok0(1) show ?thesis by (simp add: dir_ok_def)
qed

text \<open>No agent refers to the empty string: the schema of a snapshot refuses it, the method that
  stores an agent does not.\<close>

definition no_empty_refs :: "directory \<Rightarrow> bool" where
  "no_empty_refs d \<longleftrightarrow>
     list_all (\<lambda>a. da_user a \<noteq> Some '''' \<and> da_project a \<noteq> Some '''') (map snd (agents d))"

definition within_limits :: "directory \<Rightarrow> bool" where
  "within_limits d \<longleftrightarrow> length (orgs d) \<le> 100000 \<and> length (users d) \<le> 1000000 \<and>
     length (projects d) \<le> 1000000 \<and> length (agents d) \<le> 1000000 \<and>
     length (members d) \<le> 5000000 \<and> length (pagents d) \<le> 5000000"

lemma split_entry:
  assumes "map_ok m" and "m = pre @ (k, v) # post"
  shows "map_of m k = Some v" and "\<not> map_has pre k"
proof -
  from assms(2) have "(k, v) \<in> set m" by simp
  with assms(1) show "map_of m k = Some v" by (simp add: get_eq_in_set)
  from assms show "\<not> map_has pre k" by (auto simp: map_ok_def map_has_iff_key)
qed

lemma schema_of_ok:
  assumes ok: "dir_ok d" and e: "no_empty_refs d" and w: "within_limits d"
  shows "snapshot_schema_ok (snapshot_of d)"
proof -
  note parts = dir_ok_parts [OF ok]
  note tabs = dir_ok_tables [OF ok]
  have entry: "map_ok m \<Longrightarrow> x \<in> snd ` set m \<Longrightarrow> \<exists>k. map_of m k = Some x" for m :: "(string, 'x) js_map" and x
    by (auto simp: get_eq_in_set)
  have v: "has_org d x \<Longrightarrow> is_valid_tenant_id x" for x by (rule org_valid [OF parts(1)])
  have refs: "opt_valid is_valid_tenant_id w" if "optional_id_ok w" "w \<noteq> Some ''''" for w
    using that by (cases w) (auto simp: optional_id_ok_def)
  have "\<forall>g \<in> snd ` set (orgs d). is_valid_tenant_id (og_id g) \<and> og_version g \<ge> 1"
    using entry [OF tabs(1)] parts(1) unfolding orgs_ok_def by metis
  moreover have "\<forall>u \<in> snd ` set (users d). is_valid_tenant_id (du_org u) \<and>
      is_valid_tenant_id (du_id u) \<and> display_name_ok (du_name u)"
    using entry [OF tabs(2)] parts(2) v unfolding users_ok_def by metis
  moreover have "\<forall>p \<in> snd ` set (projects d). is_valid_tenant_id (dp_org p) \<and>
      is_valid_tenant_id (dp_id p) \<and> display_name_ok (dp_name p)"
    using entry [OF tabs(3)] parts(3) v unfolding projects_ok_def by metis
  moreover have "\<forall>a \<in> snd ` set (agents d). is_valid_tenant_id (da_org a) \<and>
      is_valid_tenant_id (da_id a) \<and> opt_valid is_valid_tenant_id (da_user a) \<and>
      opt_valid is_valid_tenant_id (da_project a) \<and> display_name_ok (da_name a)"
  proof
    fix a assume a: "a \<in> snd ` set (agents d)"
    with entry [OF tabs(4)] obtain k where "map_of (agents d) k = Some a" by blast
    with parts(4) v have "is_valid_tenant_id (da_org a)" "is_valid_tenant_id (da_id a)"
      "optional_id_ok (da_user a)" "optional_id_ok (da_project a)" "display_name_ok (da_name a)"
      unfolding agents_ok_def by blast+
    moreover from a e have "da_user a \<noteq> Some ''''" "da_project a \<noteq> Some ''''"
      by (auto simp: no_empty_refs_def list_all_iff)
    ultimately show "is_valid_tenant_id (da_org a) \<and>
      is_valid_tenant_id (da_id a) \<and> opt_valid is_valid_tenant_id (da_user a) \<and>
      opt_valid is_valid_tenant_id (da_project a) \<and> display_name_ok (da_name a)"
      by (simp add: refs)
  qed
  moreover have "\<forall>m \<in> snd ` set (members d). is_valid_tenant_id (dm_org m) \<and>
      is_valid_tenant_id (dm_project m) \<and> is_valid_tenant_id (dm_user m) \<and> membership_role_ok (dm_role m)"
    using entry [OF tabs(5)] parts(5) v unfolding members_ok_def by metis
  moreover have "\<forall>g \<in> snd ` set (pagents d). is_valid_tenant_id (dg_org g) \<and>
      is_valid_tenant_id (dg_project g) \<and> is_valid_tenant_id (dg_agent g)"
    using entry [OF tabs(6)] parts(6) v unfolding pagents_ok_def by metis
  ultimately show ?thesis
    using w by (simp add: snapshot_schema_ok_def snapshot_of_def list_all_iff within_limits_def)
qed

text \<open>Each phase of the loader rebuilds one table.\<close>

lemma rebuild_orgs:
  assumes "dir_ok d"
  shows "fold_res load_org empty_directory (map snd (orgs d)) = Inr (empty_directory\<lparr>orgs := orgs d\<rparr>)"
proof -
  have "load_org (empty_directory\<lparr>orgs := pre\<rparr>) g = Inr (empty_directory\<lparr>orgs := pre @ [(k, g)]\<rparr>)"
    if m: "orgs d = pre @ (k, g) # post" for pre k g post
  proof -
    note ent = split_entry [OF dir_ok_tables(1) [OF assms] m]
    have "og_id g = k" using ent(1) dir_ok_parts(1) [OF assms] unfolding orgs_ok_def by blast
    with ent(2) show ?thesis by (simp add: load_org_def update_absent)
  qed
  from fold_res_rebuild [of "orgs d" load_org "\<lambda>m. empty_directory\<lparr>orgs := m\<rparr>", OF this]
  show ?thesis by (simp add: empty_directory_def)
qed

lemma require_of_has_org:
  assumes "dir_ok d" and "has_org d x" and "orgs d' = orgs d"
  shows "\<exists>g. require_organization d' x = Inr g"
  using assms org_valid [OF dir_ok_parts(1) [OF assms(1)] assms(2)]
  by (auto simp: require_organization_Inr has_org_def map_has_def)

lemma clear_absent:
  "users e = [] \<Longrightarrow> e\<lparr>users := []\<rparr> = e" "projects e = [] \<Longrightarrow> e\<lparr>projects := []\<rparr> = e"
  "agents e = [] \<Longrightarrow> e\<lparr>agents := []\<rparr> = e" "members e = [] \<Longrightarrow> e\<lparr>members := []\<rparr> = e"
  "pagents e = [] \<Longrightarrow> e\<lparr>pagents := []\<rparr> = e"
  by (cases e; simp)+

lemma rebuild_users:
  assumes "dir_ok d" and "orgs e = orgs d" and "users e = []"
  shows "fold_res load_user e (map snd (users d)) = Inr (e\<lparr>users := users d\<rparr>)"
proof -
  have "load_user (e\<lparr>users := pre\<rparr>) u = Inr (e\<lparr>users := pre @ [(k, u)]\<rparr>)"
    if m: "users d = pre @ (k, u) # post" for pre k u post
  proof -
    note ent = split_entry [OF dir_ok_tables(2) [OF assms(1)] m]
    have "k = entity_key (du_org u) (du_id u)" "has_org d (du_org u)"
      using ent(1) dir_ok_parts(2) [OF assms(1)] unfolding users_ok_def by blast+
    moreover from this(2) assms(2) obtain g where "require_organization (e\<lparr>users := pre\<rparr>) (du_org u) = Inr g"
      using require_of_has_org [OF assms(1), of "du_org u" "e\<lparr>users := pre\<rparr>"] by auto
    ultimately show ?thesis
      using ent(2) assms(2) by (auto simp: load_user_def Let_def update_absent)
  qed
  from fold_res_rebuild [of "users d" load_user "\<lambda>m. e\<lparr>users := m\<rparr>", OF this] assms(3)
  show ?thesis by (simp add: clear_absent)
qed

lemma rebuild_projects:
  assumes "dir_ok d" and "orgs e = orgs d" and "projects e = []"
  shows "fold_res load_project e (map snd (projects d)) = Inr (e\<lparr>projects := projects d\<rparr>)"
proof -
  have "load_project (e\<lparr>projects := pre\<rparr>) u = Inr (e\<lparr>projects := pre @ [(k, u)]\<rparr>)"
    if m: "projects d = pre @ (k, u) # post" for pre k u post
  proof -
    note ent = split_entry [OF dir_ok_tables(3) [OF assms(1)] m]
    have "k = entity_key (dp_org u) (dp_id u)" "has_org d (dp_org u)"
      using ent(1) dir_ok_parts(3) [OF assms(1)] unfolding projects_ok_def by blast+
    moreover from this(2) assms(2) obtain g where "require_organization (e\<lparr>projects := pre\<rparr>) (dp_org u) = Inr g"
      using require_of_has_org [OF assms(1), of "dp_org u" "e\<lparr>projects := pre\<rparr>"] by auto
    ultimately show ?thesis
      using ent(2) assms(2) by (auto simp: load_project_def Let_def update_absent)
  qed
  from fold_res_rebuild [of "projects d" load_project "\<lambda>m. e\<lparr>projects := m\<rparr>", OF this] assms(3)
  show ?thesis by (simp add: clear_absent)
qed

lemma rebuild_agents:
  assumes "dir_ok d" and "orgs e = orgs d" "users e = users d" "projects e = projects d" and "agents e = []"
  shows "fold_res load_agent e (map snd (agents d)) = Inr (e\<lparr>agents := agents d\<rparr>)"
proof -
  have "load_agent (e\<lparr>agents := pre\<rparr>) a = Inr (e\<lparr>agents := pre @ [(k, a)]\<rparr>)"
    if m: "agents d = pre @ (k, a) # post" for pre k a post
  proof -
    note ent = split_entry [OF dir_ok_tables(4) [OF assms(1)] m]
    have "k = entity_key (da_org a) (da_id a)" "has_org d (da_org a)"
      "ref_ok (users d) (da_org a) (da_user a)" "ref_ok (projects d) (da_org a) (da_project a)"
      using ent(1) dir_ok_parts(4) [OF assms(1)] unfolding agents_ok_def by blast+
    moreover from this(2) assms(2) obtain g where "require_organization (e\<lparr>agents := pre\<rparr>) (da_org a) = Inr g"
      using require_of_has_org [OF assms(1), of "da_org a" "e\<lparr>agents := pre\<rparr>"] by auto
    ultimately show ?thesis
      using ent(2) assms(2-4) by (auto simp: load_agent_def Let_def update_absent)
  qed
  from fold_res_rebuild [of "agents d" load_agent "\<lambda>m. e\<lparr>agents := m\<rparr>", OF this] assms(5)
  show ?thesis by (simp add: clear_absent)
qed

lemma rebuild_members:
  assumes "dir_ok d" and "orgs e = orgs d" "users e = users d" "projects e = projects d" and "members e = []"
  shows "fold_res load_member e (map snd (members d)) = Inr (e\<lparr>members := members d\<rparr>)"
proof -
  have "load_member (e\<lparr>members := pre\<rparr>) a = Inr (e\<lparr>members := pre @ [(k, a)]\<rparr>)"
    if m: "members d = pre @ (k, a) # post" for pre k a post
  proof -
    note ent = split_entry [OF dir_ok_tables(5) [OF assms(1)] m]
    have "k = membership_key (dm_org a) (dm_project a) (dm_user a)" "has_org d (dm_org a)"
      "map_has (projects d) (entity_key (dm_org a) (dm_project a))"
      "map_has (users d) (entity_key (dm_org a) (dm_user a))"
      using ent(1) dir_ok_parts(5) [OF assms(1)] unfolding members_ok_def by blast+
    moreover from this(2) assms(2) obtain g where "require_organization (e\<lparr>members := pre\<rparr>) (dm_org a) = Inr g"
      using require_of_has_org [OF assms(1), of "dm_org a" "e\<lparr>members := pre\<rparr>"] by auto
    ultimately show ?thesis
      using ent(2) assms(2-4) by (auto simp: load_member_def Let_def update_absent)
  qed
  from fold_res_rebuild [of "members d" load_member "\<lambda>m. e\<lparr>members := m\<rparr>", OF this] assms(5)
  show ?thesis by (simp add: clear_absent)
qed

lemma rebuild_pagents:
  assumes "dir_ok d" and "orgs e = orgs d" "agents e = agents d" "projects e = projects d" and "pagents e = []"
  shows "fold_res load_pagent e (map snd (pagents d)) = Inr (e\<lparr>pagents := pagents d\<rparr>)"
proof -
  have "load_pagent (e\<lparr>pagents := pre\<rparr>) a = Inr (e\<lparr>pagents := pre @ [(k, a)]\<rparr>)"
    if m: "pagents d = pre @ (k, a) # post" for pre k a post
  proof -
    note ent = split_entry [OF dir_ok_tables(6) [OF assms(1)] m]
    have "k = entity_key (dg_org a) (dg_agent a)" "has_org d (dg_org a)"
      "map_has (projects d) (entity_key (dg_org a) (dg_project a))"
      "\<exists>b. map_of (agents d) k = Some b \<and> da_project b = Some (dg_project a)"
      using ent(1) dir_ok_parts(6) [OF assms(1)] unfolding pagents_ok_def by blast+
    moreover from this(2) assms(2) obtain g where "require_organization (e\<lparr>pagents := pre\<rparr>) (dg_org a) = Inr g"
      using require_of_has_org [OF assms(1), of "dg_org a" "e\<lparr>pagents := pre\<rparr>"] by auto
    ultimately show ?thesis
      using ent(2) assms(2-4) by (auto simp: load_pagent_def Let_def update_absent)
  qed
  from fold_res_rebuild [of "pagents d" load_pagent "\<lambda>m. e\<lparr>pagents := m\<rparr>", OF this] assms(5)
  show ?thesis by (simp add: clear_absent)
qed

lemma associated_all:
  assumes "dir_ok d"
  shows "agents_associated d"
  unfolding agents_associated_def list_all_iff
proof (intro ballI impI)
  fix a assume "a \<in> set (map snd (agents d))" and t: "truthy (da_project a)"
  then obtain k where k: "map_of (agents d) k = Some a"
    using dir_ok_tables(4) [OF assms] by (auto simp: get_eq_in_set)
  with dir_ok_parts(4) [OF assms] have "k = entity_key (da_org a) (da_id a)"
    unfolding agents_ok_def by blast
  with k t dir_ok_parts(7) [OF assms] show "map_has (pagents d) (entity_key (da_org a) (da_id a))"
    by (auto simp: associated_def)
qed

lemma snapshot_fields [simp]:
  "sn_orgs (snapshot_of d) = map snd (orgs d)" "sn_users (snapshot_of d) = map snd (users d)"
  "sn_projects (snapshot_of d) = map snd (projects d)" "sn_agents (snapshot_of d) = map snd (agents d)"
  "sn_members (snapshot_of d) = map snd (members d)" "sn_pagents (snapshot_of d) = map snd (pagents d)"
  by (simp_all add: snapshot_of_def)

lemma snapshot_round_trip:
  assumes "dir_ok d" "no_empty_refs d" "within_limits d"
  shows "from_snapshot (snapshot_of d) = Inr d"
proof -
  let ?e1 = "empty_directory\<lparr>orgs := orgs d\<rparr>"
  let ?e2 = "?e1\<lparr>users := users d\<rparr>"
  let ?e3 = "?e2\<lparr>projects := projects d\<rparr>"
  let ?e4 = "?e3\<lparr>agents := agents d\<rparr>"
  let ?e5 = "?e4\<lparr>members := members d\<rparr>"
  have e: "?e5\<lparr>pagents := pagents d\<rparr> = d" by (cases d) simp
  have emp: "users empty_directory = []" "projects empty_directory = []" "agents empty_directory = []"
    "members empty_directory = []" "pagents empty_directory = []"
    by (simp_all add: empty_directory_def)
  have "fold_res load_user ?e1 (map snd (users d)) = Inr ?e2"
    "fold_res load_project ?e2 (map snd (projects d)) = Inr ?e3"
    "fold_res load_agent ?e3 (map snd (agents d)) = Inr ?e4"
    "fold_res load_member ?e4 (map snd (members d)) = Inr ?e5"
    using rebuild_users [OF assms(1), of ?e1] rebuild_projects [OF assms(1), of ?e2]
      rebuild_agents [OF assms(1), of ?e3] rebuild_members [OF assms(1), of ?e4] emp by simp_all
  moreover have "fold_res load_pagent ?e5 (map snd (pagents d)) = Inr d"
    using rebuild_pagents [OF assms(1), of ?e5] emp e by simp
  ultimately show ?thesis
    using schema_of_ok [OF assms] associated_all [OF assms(1)] rebuild_orgs [OF assms(1)]
    by (simp only: from_snapshot_def snapshot_fields and_then_simps if_True if_False simp_thms)
qed

section \<open>The file behind the directory\<close>

fun op_refs_ok :: "dir_op \<Rightarrow> bool" where
  "op_refs_ok (UpsertAgent a) \<longleftrightarrow> da_user a \<noteq> Some '''' \<and> da_project a \<noteq> Some ''''"
| "op_refs_ok op \<longleftrightarrow> True"

lemma no_empty_refs_agents: "no_empty_refs d \<longleftrightarrow>
    (\<forall>(k, a) \<in> set (agents d). da_user a \<noteq> Some '''' \<and> da_project a \<noteq> Some '''')"
  by (auto simp: no_empty_refs_def list_all_iff)

lemma no_empty_refs_guard:
  "no_empty_refs (snd r) \<Longrightarrow> no_empty_refs d \<Longrightarrow> no_empty_refs (snd (if b then (Inl e, d) else r))"
  by simp

lemma no_empty_refs_in_organization:
  "no_empty_refs (snd (k d)) \<Longrightarrow> no_empty_refs d \<Longrightarrow> no_empty_refs (snd (in_organization org d k))"
  by (simp add: in_organization_def split: sum.splits)

lemma no_empty_refs_bump: "no_empty_refs d \<Longrightarrow> no_empty_refs (snd (bump org d))"
  by (simp add: bump_def no_empty_refs_def split: sum.splits)

lemmas no_empty_refs_rules = no_empty_refs_guard no_empty_refs_in_organization no_empty_refs_bump

lemma in_update_cases: "(j, w) \<in> set (AList.update k v m) \<Longrightarrow> w = v \<or> (j, w) \<in> set m"
  by (induction m) (auto split: if_splits)

lemma in_delete: "p \<in> set (AList.delete k m) \<Longrightarrow> p \<in> set m"
  by (induction m) (auto split: if_splits)

lemma dir_step_no_empty_refs:
  assumes "no_empty_refs d" and "op_refs_ok op"
  shows "no_empty_refs (snd (dir_step op d))"
proof (cases op)
  case (CreateOrganization org)
  with assms(1) show ?thesis by (simp add: create_organization_def no_empty_refs_def)
next
  case (UpsertUser u)
  show ?thesis unfolding UpsertUser dir_step.simps upsert_user_def
    by (intro no_empty_refs_rules assms(1)) (use assms(1) in \<open>simp add: no_empty_refs_def\<close>)
next
  case (UpsertProject p)
  show ?thesis unfolding UpsertProject dir_step.simps upsert_project_def
    by (intro no_empty_refs_rules assms(1)) (use assms(1) in \<open>simp add: no_empty_refs_def\<close>)
next
  case (RemoveUser org user)
  show ?thesis unfolding RemoveUser dir_step.simps remove_user_def
    by (intro no_empty_refs_rules assms(1))
      (use assms(1) in \<open>auto simp: no_empty_refs_agents map_keep_def\<close>)
next
  case (RemoveProject org project)
  show ?thesis unfolding RemoveProject dir_step.simps remove_project_def
    by (intro no_empty_refs_rules assms(1))
      (use assms(1) in \<open>auto simp: no_empty_refs_agents map_vals_def split: if_splits\<close>)
next
  case (RemoveAgent org agent)
  show ?thesis unfolding RemoveAgent dir_step.simps remove_agent_def
    by (intro no_empty_refs_rules assms(1))
      (use assms(1) in \<open>auto simp: no_empty_refs_agents dest: in_delete\<close>)
next
  case (RevokeMembership org project user)
  show ?thesis unfolding RevokeMembership dir_step.simps revoke_membership_def
    by (intro no_empty_refs_rules) (use assms(1) in \<open>simp add: no_empty_refs_def\<close>)
next
  case (GrantMembership org project user role)
  show ?thesis unfolding GrantMembership dir_step.simps grant_membership_def
    by (intro no_empty_refs_rules assms(1)) (use assms(1) in \<open>simp add: no_empty_refs_def\<close>)
next
  case (UpsertAgent a)
  with assms(2) have a: "da_user a \<noteq> Some ''''" "da_project a \<noteq> Some ''''" by simp_all
  show ?thesis unfolding UpsertAgent dir_step.simps upsert_agent_def Let_def
    by (intro no_empty_refs_rules assms(1))
      (use assms(1) a in \<open>auto simp: no_empty_refs_agents dest: in_update_cases\<close>)
qed

definition coherent :: "file_directory \<Rightarrow> bool" where
  "coherent f \<longleftrightarrow> dir_ok (fd_state f) \<and> no_empty_refs (fd_state f) \<and> within_limits (fd_state f) \<and>
     reload f = Inr (fd_state f)"

lemma rollback_restores:
  "dir_ok d \<Longrightarrow> no_empty_refs d \<Longrightarrow> within_limits d \<Longrightarrow> rollback (snapshot_of d) c e = (Inl e, d)"
  by (simp add: rollback_def snapshot_round_trip)

section \<open>Properties\<close>

abbreviation reached :: "dir_op list \<Rightarrow> directory" where
  "reached ops \<equiv> dir_run empty_directory ops"

lemma reached_ok: "dir_ok (reached ops)"
  by (rule dir_run_ok [OF dir_ok_empty])

text \<open>C4. Referential integrity. Whatever methods are called, with whatever arguments and in whatever
  order, the directory keeps its keys distinct and equal to the rows they name, every row in an
  existing organization with valid ids, every membership and association between rows that exist,
  and an association for exactly the agents that carry a project.\<close>

theorem directory_stays_consistent: "dir_ok (dir_run empty_directory ops)"
  by (rule reached_ok)

text \<open>C5. A method that throws has no effect: after any run, when a call ends in an error the
  directory is exactly what it was, although revoking a membership deletes the row before it
  looks at the organization.\<close>

theorem failing_method_has_no_effect:
  assumes "fst (dir_step op (dir_run empty_directory ops)) = Inl e"
  shows "snd (dir_step op (dir_run empty_directory ops)) = dir_run empty_directory ops"
  by (rule dir_step_atomic [OF reached_ok assms])

theorem failing_method_has_no_effect_witness:
  "snd (dir_step (RevokeMembership ''other'' ''p'' ''u'')
      (dir_run empty_directory [CreateOrganization ''acme''])) =
    dir_run empty_directory [CreateOrganization ''acme'']"
  by (rule failing_method_has_no_effect [where e = NOT_FOUND]) code_simp

text \<open>C3. A revoked context stays revoked. After any successful change of an organization, a context
  that was accepted before is rejected, and no later sequence of calls makes it acceptable again:
  the membership version it carries is below the organization's for ever.\<close>

theorem stale_context_stays_rejected:
  assumes "verify_context (dir_run empty_directory ops) (Context p)"
    and "dir_op_org op = pr_organizationId p"
    and "fst (dir_step op (dir_run empty_directory ops)) = Inr ()"
  shows "\<not> verify_context (dir_run (snd (dir_step op (dir_run empty_directory ops))) later) (Context p)"
proof -
  let ?d = "reached ops" and ?x = "pr_organizationId p"
  from assms(1) obtain g where g: "map_of (orgs ?d) ?x = Some g"
    and v: "dec (og_version g) = pr_membershipVersion p"
    by (auto split: option.splits)
  from g have "version_of ?d ?x = Some (og_version g)" by (simp add: version_of_def)
  with dir_step_version [of op ?d] assms(2,3)
  have "version_of (snd (dir_step op ?d)) ?x = Some (Suc (og_version g))"
    by (simp add: versioned_def next_version_def)
  from version_monotone [OF dir_step_ok [OF reached_ok] this, of later]
  obtain m where "m > og_version g" "version_of (dir_run (snd (dir_step op ?d)) later) ?x = Some m"
    by auto
  then show ?thesis by (auto simp: version_of_def v [symmetric])
qed

definition sample_setup :: "dir_op list" where
  "sample_setup =
     [CreateOrganization ''acme'', UpsertUser \<lparr>du_org = ''acme'', du_id = ''u1'', du_name = None\<rparr>]"

definition sample_user_principal :: principal where
  "sample_user_principal =
     \<lparr>pr_organizationId = ''acme'', pr_userId = Some ''u1'', pr_projectId = None, pr_agentId = None,
      pr_membershipVersion = ''2'', pr_scopes = Some [''global''], pr_capabilities = None\<rparr>"

lemma sample_verified: "verify_context (dir_run empty_directory sample_setup) (Context sample_user_principal)"
  by code_simp

theorem stale_context_stays_rejected_witness:
  "\<not> verify_context (dir_run (snd (dir_step (RemoveUser ''acme'' ''u9'')
      (dir_run empty_directory sample_setup))) sample_setup) (Context sample_user_principal)"
  by (rule stale_context_stays_rejected [OF sample_verified]) code_simp+

text \<open>Organizations are isolated. No call on one organization, successful or not, changes the
  verdict on a context of another organization, although all organizations share the six tables
  and the string keys.\<close>

theorem other_organizations_undisturbed:
  assumes "parse_tenant_principal c = Inr p" and "dir_op_org op \<noteq> pr_organizationId p"
  shows "verify_context (snd (dir_step op (dir_run empty_directory ops))) (Context p) =
    verify_context (dir_run empty_directory ops) (Context p)"
  using parse_principal_ok [OF assms(1)] assms(2)
  by (intro verify_context_cong dir_step_same_for reached_ok) simp_all

theorem other_organizations_undisturbed_witness:
  "verify_context (snd (dir_step (RemoveProject ''other'' ''p1'') (dir_run empty_directory sample_setup)))
      (Context (to_principal sample_claims)) =
    verify_context (dir_run empty_directory sample_setup) (Context (to_principal sample_claims))"
  by (rule other_organizations_undisturbed [OF sample_claims_parse])
    (simp add: to_principal_def sample_claims_def)

text \<open>C6. What the loader accepts is consistent, and what is written is read back: a snapshot that
  loads gives a directory with full referential integrity, and the snapshot of a consistent
  directory within the size limits and without empty references loads to that directory, entry
  for entry and in the same order.\<close>

theorem snapshot_round_trips:
  assumes "from_snapshot s = Inr d" and "no_empty_refs d" and "within_limits d"
  shows "dir_ok d \<and> from_snapshot (snapshot_of d) = Inr d"
  using loaded_directory_ok [OF assms(1)] snapshot_round_trip [OF _ assms(2,3)] by blast

lemma sample_state: "dir_run empty_directory sample_setup =
    \<lparr>orgs = [(''acme'', \<lparr>og_id = ''acme'', og_version = 2\<rparr>)],
     users = [(entity_key ''acme'' ''u1'', \<lparr>du_org = ''acme'', du_id = ''u1'', du_name = None\<rparr>)],
     projects = [], agents = [], members = [], pagents = []\<rparr>"
  by code_simp

theorem snapshot_round_trips_witness:
  "dir_ok (dir_run empty_directory sample_setup) \<and>
    from_snapshot (snapshot_of (dir_run empty_directory sample_setup)) =
      Inr (dir_run empty_directory sample_setup)"
proof (rule snapshot_round_trips)
  show e: "no_empty_refs (dir_run empty_directory sample_setup)"
    and w: "within_limits (dir_run empty_directory sample_setup)"
    by (simp_all add: sample_state no_empty_refs_def within_limits_def)
  show "from_snapshot (snapshot_of (dir_run empty_directory sample_setup)) =
      Inr (dir_run empty_directory sample_setup)"
    by (rule snapshot_round_trip [OF reached_ok e w])
qed

text \<open>Durable mutations. From a state whose file reloads to what is in memory, a mutation of the
  file-backed directory either throws, and then neither memory nor file changed, whether the
  method or the publication failed; or it returns, and then the file reloads to the new state.\<close>

theorem file_mutation_all_or_nothing:
  assumes "coherent f" and "op_refs_ok op" and "within_limits (snd (dir_step op (fd_state f)))"
    and "file_mutate publish op f = (r, f')"
  shows "(case r of Inl e \<Rightarrow> f' = f
    | Inr u \<Rightarrow> reload f' = Inr (fd_state f') \<and> fd_state f' = snd (dir_step op (fd_state f)))"
proof -
  let ?d = "fd_state f" and ?n = "snd (dir_step op (fd_state f))"
  have ok: "dir_ok ?d" "no_empty_refs ?d" "within_limits ?d"
    using assms(1) by (simp_all add: coherent_def)
  have new: "from_snapshot (snapshot_of ?n) = Inr ?n"
    by (rule snapshot_round_trip [OF dir_step_ok [OF ok(1)] dir_step_no_empty_refs [OF ok(2) assms(2)] assms(3)])
  have undo: "rollback (snapshot_of ?d) c e = (Inl e, ?d)" for c e
    by (rule rollback_restores [OF ok])
  obtain q n where step: "dir_step op ?d = (q, n)" by fastforce
  then show ?thesis
    using assms(4) new
    by (cases q; cases publish) (auto simp: file_mutate_def undo reload_def Let_def)
qed

theorem file_mutation_all_or_nothing_witness:
  "(case fst (file_mutate (Inl IO_ERROR) (CreateOrganization ''acme'')
        \<lparr>fd_state = empty_directory, fd_disk = None\<rparr>) of
     Inl e \<Rightarrow> snd (file_mutate (Inl IO_ERROR) (CreateOrganization ''acme'')
        \<lparr>fd_state = empty_directory, fd_disk = None\<rparr>) = \<lparr>fd_state = empty_directory, fd_disk = None\<rparr>
   | Inr u \<Rightarrow> False)"
proof -
  let ?f = "\<lparr>fd_state = empty_directory, fd_disk = None\<rparr>"
  have c: "coherent ?f"
    using dir_ok_empty
    by (simp add: coherent_def reload_def no_empty_refs_def within_limits_def empty_directory_def)
  have w: "within_limits (snd (dir_step (CreateOrganization ''acme'') (fd_state ?f)))"
    by (simp add: create_organization_def within_limits_def empty_directory_def)
  have r: "fst (file_mutate (Inl IO_ERROR) (CreateOrganization ''acme'') ?f) = Inl IO_ERROR"
  proof -
    have "create_organization ''acme'' empty_directory =
        (Inr (), empty_directory\<lparr>orgs := [(''acme'', \<lparr>og_id = ''acme'', og_version = 1\<rparr>)]\<rparr>)"
      by code_simp
    moreover have "rollback (snapshot_of empty_directory) x e = (Inl e, empty_directory)" for x e
      using c by (intro rollback_restores) (simp_all add: coherent_def)
    ultimately show ?thesis by (simp add: file_mutate_def)
  qed
  from file_mutation_all_or_nothing [OF c _ w prod.collapse [symmetric], of "Inl IO_ERROR"] r
  show ?thesis by simp
qed

definition nameless_agent :: "string \<Rightarrow> string \<Rightarrow> string \<Rightarrow> dir_agent" where
  "nameless_agent org agent user =
     \<lparr>da_org = org, da_id = agent, da_user = Some user, da_project = None, da_name = None\<rparr>"

text \<open>A gap in the checks of \<open>upsertAgent\<close>: an agent whose user is the empty string passes every
  check of the method (they are skipped for a falsy id) and is published, but the file it was
  written to is refused by the loader, so the next process cannot open the directory.\<close>

theorem empty_user_reference_breaks_reload:
  assumes "is_valid_tenant_id org" and "is_valid_tenant_id agent"
    and "file_mutate (Inr ()) (UpsertAgent (nameless_agent org agent ''''))
      \<lparr>fd_state = dir_run empty_directory [CreateOrganization org], fd_disk = None\<rparr> = (r, f)"
  shows "r = Inr () \<and> reload f = Inl INVALID_INPUT"
proof -
  have e: "\<not> is_valid_tenant_id ''''" by (simp add: is_valid_tenant_id_def)
  let ?d = "\<lparr>orgs = [(org, \<lparr>og_id = org, og_version = 1\<rparr>)], users = [], projects = [], agents = [],
      members = [], pagents = []\<rparr>"
  let ?a = "nameless_agent org agent ''''"
  have d: "dir_run empty_directory [CreateOrganization org] = ?d"
    using assms(1) by (simp add: create_organization_def empty_directory_def map_has_def)
  have "upsert_agent ?a ?d = bump org (?d\<lparr>agents := [(entity_key org agent, ?a)]\<rparr>)"
    using assms(1,2)
    by (simp add: upsert_agent_def nameless_agent_def optional_id_ok_def display_name_ok_def
        in_organization_def require_organization_def ref_ok_def)
  also have "\<dots> = (Inr (), ?d\<lparr>orgs := [(org, \<lparr>og_id = org, og_version = 2\<rparr>)],
      agents := [(entity_key org agent, ?a)]\<rparr>)"
    using assms(1) by (simp add: bump_def require_organization_def)
  finally have step: "upsert_agent ?a ?d = (Inr (), ?d\<lparr>orgs := [(org, \<lparr>og_id = org, og_version = 2\<rparr>)],
      agents := [(entity_key org agent, ?a)]\<rparr>)" .
  have rf: "r = Inr ()" "fd_disk f = Some (snapshot_of (?d\<lparr>orgs := [(org, \<lparr>og_id = org, og_version = 2\<rparr>)],
      agents := [(entity_key org agent, ?a)]\<rparr>))"
    using assms(3) unfolding d by (auto simp: file_mutate_def step Let_def simp del: One_nat_def)
  have "\<not> snapshot_schema_ok (snapshot_of (?d\<lparr>orgs := [(org, \<lparr>og_id = org, og_version = 2\<rparr>)],
      agents := [(entity_key org agent, ?a)]\<rparr>))"
    by (simp add: snapshot_schema_ok_def nameless_agent_def e)
  with rf show ?thesis by (simp add: reload_def from_snapshot_def)
qed

theorem empty_user_reference_breaks_reload_witness:
  "fst (file_mutate (Inr ()) (UpsertAgent (nameless_agent ''acme'' ''a1'' ''''))
      \<lparr>fd_state = dir_run empty_directory [CreateOrganization ''acme''], fd_disk = None\<rparr>) = Inr () \<and>
   reload (snd (file_mutate (Inr ()) (UpsertAgent (nameless_agent ''acme'' ''a1'' ''''))
      \<lparr>fd_state = dir_run empty_directory [CreateOrganization ''acme''], fd_disk = None\<rparr>)) = Inl INVALID_INPUT"
  by (rule empty_user_reference_breaks_reload [OF _ _ prod.collapse [symmetric]]) code_simp+

end
