(* ===== verification/PolicyV6.thy ===== *)
theory PolicyV6
  imports Tenant
begin

text \<open>
  \<open>src/v6-policy.ts\<close> and \<open>src/v6-policy-evaluator.ts\<close>: the closed vocabularies, the resolution of
  explicit policy layers, the two evaluators and the parser of policy documents. The vocabularies
  are string unions that exist at run time only as lists of strings, so every label is a string
  and its rank is its index in the list, -1 when it is absent, as \<open>indexOf\<close> gives it. A number that
  may be \<open>NaN\<close> or infinite is \<open>NotFinite\<close> when it is.
\<close>

section \<open>Vocabularies\<close>

datatype js_number = Finite int | NotFinite

fun is_finite_number :: "js_number \<Rightarrow> bool" where
  "is_finite_number (Finite n) = True"
| "is_finite_number NotFinite = False"

text \<open>\<open>now >= t\<close>, false when either side is not a number.\<close>

fun at_least :: "js_number \<Rightarrow> js_number \<Rightarrow> bool" where
  "at_least (Finite a) (Finite b) = (b \<le> a)"
| "at_least a b = False"

definition sensitivity_order :: "string list" where
  "sensitivity_order = [''public'', ''internal'', ''confidential'', ''secret'']"

definition trust_levels :: "string list" where
  "trust_levels = [''unverified'', ''trusted'', ''verified'', ''system'']"

definition retention_modes :: "string list" where
  "retention_modes = [''pinned'', ''persistent'', ''ephemeral'', ''decaying'', ''neverExpire'']"

definition precedence_order :: "string list" where
  "precedence_order = [''system'', ''tenant'', ''resource'', ''principal'', ''memory'', ''provider'']"

definition policy_origins :: "string list" where
  "policy_origins = [''builtin'', ''host'', ''policy_file'']"

definition decision_reasons :: "string list" where
  "decision_reasons =
     [''authorized'', ''tenant_mismatch'', ''project_mismatch'', ''sensitivity_denied'', ''expired'',
      ''retention_denied'', ''trust_restricted'', ''policy_invalid'', ''provider_not_permitted'',
      ''legal_hold'', ''capability_missing'', ''injection_detected'']"

definition decision_effects :: "string list" where
  "decision_effects = [''allow'', ''deny'', ''redact'', ''quarantine'']"

definition policy_version :: string where
  "policy_version = ''v6-policy/1.0.0''"

fun index_of :: "'a list \<Rightarrow> 'a \<Rightarrow> int" where
  "index_of [] x = -1"
| "index_of (y # ys) x =
     (if y = x then 0 else let i = index_of ys x in if i < 0 then -1 else i + 1)"

definition sensitivity_rank :: "string \<Rightarrow> int" where
  "sensitivity_rank level = index_of sensitivity_order level"

fun effect_rank :: "string \<Rightarrow> int option" where
  "effect_rank e =
     (if e = ''allow'' then Some 0 else if e = ''redact'' then Some 1
      else if e = ''quarantine'' then Some 2 else if e = ''deny'' then Some 3 else None)"

text \<open>\<open>EFFECT_RANK[a] > EFFECT_RANK[b]\<close>; a comparison with \<open>undefined\<close> is false.\<close>

definition more_restrictive :: "string \<Rightarrow> string \<Rightarrow> bool" where
  "more_restrictive a b =
     (case effect_rank a of None \<Rightarrow> False
      | Some i \<Rightarrow> (case effect_rank b of None \<Rightarrow> False | Some j \<Rightarrow> i > j))"

section \<open>Inputs and decisions\<close>

record policy_layer =
  ly_source :: string
  ly_effect :: string
  ly_reason :: string
  ly_unknownKeys :: "string list"

record policy_decision =
  pd_effect :: string
  pd_reason :: string
  pd_version :: string

record policy_principal =
  pp_organizationId :: string
  pp_projectId :: "string option"
  pp_capabilities :: "string list"
  pp_clearance :: "string option"

record policy_memory =
  pm_organizationId :: "string option"
  pm_projectId :: "string option"
  pm_sensitivity :: string
  pm_trust :: string
  pm_retention :: string
  pm_legalHold :: bool
  pm_expiresAt :: "js_number option"

definition layer_valid :: "policy_layer \<Rightarrow> bool" where
  "layer_valid l \<longleftrightarrow> ly_source l \<in> set precedence_order \<and> ly_effect l \<in> set decision_effects \<and>
     ly_reason l \<in> set decision_reasons \<and> ly_unknownKeys l = []"

definition decide :: "string \<Rightarrow> string \<Rightarrow> policy_decision" where
  "decide e r = \<lparr>pd_effect = e, pd_reason = r, pd_version = policy_version\<rparr>"

abbreviation refuse :: "string \<Rightarrow> policy_decision" where
  "refuse r \<equiv> decide ''deny'' r"

definition clearance_of :: "policy_principal \<Rightarrow> string" where
  "clearance_of p = (case pp_clearance p of None \<Rightarrow> ''public'' | Some c \<Rightarrow> c)"

section \<open>Resolving explicit layers\<close>

definition precedes :: "policy_layer \<Rightarrow> policy_layer \<Rightarrow> bool" where
  "precedes a b \<longleftrightarrow>
     index_of precedence_order (ly_source a) \<le> index_of precedence_order (ly_source b)"

fun most_restrictive :: "policy_layer option \<Rightarrow> policy_layer list \<Rightarrow> policy_layer option" where
  "most_restrictive best [] = best"
| "most_restrictive best (l # ls) =
     (case best of
        None \<Rightarrow> most_restrictive (Some l) ls
      | Some b \<Rightarrow> most_restrictive (Some (if more_restrictive (ly_effect l) (ly_effect b) then l else b)) ls)"

definition resolve_layers :: "policy_layer list \<Rightarrow> (string \<times> string) option" where
  "resolve_layers layers =
     (if layers = [] then None
      else case most_restrictive None (sort_by precedes layers) of
          None \<Rightarrow> None
        | Some l \<Rightarrow> Some (ly_effect l, ly_reason l))"

section \<open>The evaluator of \<open>v6-policy.ts\<close>\<close>

fun policy_capability :: "string \<Rightarrow> string option" where
  "policy_capability op =
     (if op = ''read'' then Some ''tenant:read''
      else if op = ''write'' \<or> op = ''update'' \<or> op = ''delete'' then Some ''tenant:write''
      else if op = ''export'' then Some ''tenant:export''
      else if op = ''provider_transmit'' then Some ''provider:transmit''
      else None)"

definition lacks :: "policy_principal \<Rightarrow> string option \<Rightarrow> bool" where
  "lacks p required = (case required of None \<Rightarrow> True | Some c \<Rightarrow> c \<notin> set (pp_capabilities p))"

definition other_tenant :: "policy_principal \<Rightarrow> policy_memory \<Rightarrow> bool" where
  "other_tenant p m \<longleftrightarrow> pm_organizationId m \<noteq> None \<and> pm_organizationId m \<noteq> Some (pp_organizationId p)"

definition other_project :: "policy_principal \<Rightarrow> policy_memory \<Rightarrow> bool" where
  "other_project p m \<longleftrightarrow> pm_projectId m \<noteq> None \<and> pm_projectId m \<noteq> pp_projectId p"

definition egress_denied :: "string \<Rightarrow> policy_principal \<Rightarrow> bool" where
  "egress_denied op p \<longleftrightarrow>
     op = ''provider_transmit'' \<and> sensitivity_rank (clearance_of p) < sensitivity_rank ''internal''"

definition above_clearance :: "policy_principal \<Rightarrow> policy_memory \<Rightarrow> bool" where
  "above_clearance p m \<longleftrightarrow> sensitivity_rank (pm_sensitivity m) > sensitivity_rank (clearance_of p)"

definition is_expired :: "js_number \<Rightarrow> policy_memory \<Rightarrow> bool" where
  "is_expired now m = (case pm_expiresAt m of None \<Rightarrow> False | Some t \<Rightarrow> is_finite_number t \<and> at_least now t)"

definition evaluate_policy ::
  "string \<Rightarrow> policy_principal \<Rightarrow> policy_memory \<Rightarrow> policy_layer list option \<Rightarrow> js_number option \<Rightarrow>
    policy_decision result" where
  "evaluate_policy op p m layers clock =
     (let now = (case clock of None \<Rightarrow> Finite 0 | Some t \<Rightarrow> t);
          supplied = (case layers of None \<Rightarrow> [] | Some ls \<Rightarrow> ls)
      in if \<not> is_finite_number now then Inl INVALID_INPUT
         else if \<not> list_all layer_valid supplied then Inl INVALID_INPUT
         else if other_tenant p m then Inr (refuse ''tenant_mismatch'')
         else if other_project p m then Inr (refuse ''project_mismatch'')
         else if lacks p (policy_capability op) then Inr (refuse ''capability_missing'')
         else if egress_denied op p then Inr (refuse ''provider_not_permitted'')
         else if above_clearance p m then Inr (refuse ''sensitivity_denied'')
         else if is_expired now m then Inr (refuse ''expired'')
         else if pm_legalHold m \<and> op = ''delete'' then Inr (refuse ''legal_hold'')
         else if pm_trust m = ''unverified'' then Inr (refuse ''trust_restricted'')
         else if egress_denied op p then Inr (refuse ''provider_not_permitted'')
         else case resolve_layers supplied of
             Some (e, r) \<Rightarrow> Inr (decide e r)
           | None \<Rightarrow> Inr (decide ''allow'' ''authorized''))"

section \<open>The evaluator of \<open>v6-policy-evaluator.ts\<close>\<close>

fun v6_capability :: "string \<Rightarrow> string option" where
  "v6_capability op =
     (if op = ''read'' \<or> op = ''context_read'' \<or> op = ''history_read'' then Some ''tenant:read''
      else if op = ''write'' \<or> op = ''update'' \<or> op = ''delete'' \<or> op = ''relation_write''
        then Some ''tenant:write''
      else if op = ''export'' \<or> op = ''snapshot_export'' then Some ''tenant:export''
      else if op = ''provider_transmit'' then Some ''provider:transmit''
      else if op = ''policy_admin'' then Some ''policy:admin''
      else None)"

definition input_malformed :: "policy_principal \<Rightarrow> policy_memory \<Rightarrow> js_number \<Rightarrow> bool" where
  "input_malformed p m now \<longleftrightarrow>
     \<not> is_finite_number now \<or>
     \<not> is_valid_tenant_id (pp_organizationId p) \<or>
     clearance_of p \<notin> set sensitivity_order \<or>
     pm_sensitivity m \<notin> set sensitivity_order \<or>
     pm_trust m \<notin> set trust_levels \<or>
     pm_retention m \<notin> set retention_modes \<or>
     (case pm_expiresAt m of None \<Rightarrow> False | Some t \<Rightarrow> \<not> is_finite_number t)"

text \<open>The checks between the explicit denials and the answer, in the code's order.\<close>

definition v6_denial :: "string \<Rightarrow> policy_principal \<Rightarrow> policy_memory \<Rightarrow> js_number \<Rightarrow> string option" where
  "v6_denial op p m now =
     (if lacks p (v6_capability op) then Some ''capability_missing''
      else if egress_denied op p then Some ''provider_not_permitted''
      else if is_expired now m then Some ''expired''
      else if above_clearance p m then Some ''sensitivity_denied''
      else if pm_legalHold m \<and> op = ''delete'' then Some ''legal_hold''
      else if pm_trust m = ''unverified'' then Some ''trust_restricted''
      else None)"

definition evaluate_v6_policy ::
  "string \<Rightarrow> policy_principal \<Rightarrow> policy_memory \<Rightarrow> policy_layer list option \<Rightarrow> js_number \<Rightarrow>
    policy_decision" where
  "evaluate_v6_policy op p m layers now =
     (if input_malformed p m now then refuse ''policy_invalid''
      else if other_tenant p m then refuse ''tenant_mismatch''
      else if other_project p m then refuse ''project_mismatch''
      else
        let layer = (case layers of None \<Rightarrow> None | Some ls \<Rightarrow> resolve_layers ls);
            answer = (case v6_denial op p m now of
                Some r \<Rightarrow> refuse r
              | None \<Rightarrow> (case layer of Some (e, r) \<Rightarrow> decide e r | None \<Rightarrow> decide ''allow'' ''authorized''))
        in case layer of
            Some (e, r) \<Rightarrow> if e = ''deny'' then refuse r else answer
          | None \<Rightarrow> answer)"

section \<open>Policy documents\<close>

record policy_document =
  doc_version :: string
  doc_source :: string
  doc_layers :: "policy_layer list"
  doc_unknownKeys :: "string list"

definition is_policy_version :: "string \<Rightarrow> bool" where
  "is_policy_version s \<longleftrightarrow>
     take 10 s = ''v6-policy/'' \<and>
     (let parts = split_on (CHR ''.'') (drop 10 s)
      in length parts = 3 \<and> list_all (\<lambda>w. w \<noteq> [] \<and> list_all is_digit w) parts)"

definition document_ok :: "policy_document \<Rightarrow> bool" where
  "document_ok d \<longleftrightarrow> is_policy_version (doc_version d) \<and> doc_source d \<in> set policy_origins \<and>
     list_all layer_valid (doc_layers d) \<and> length (doc_layers d) \<le> 64 \<and> doc_unknownKeys d = []"

text \<open>\<open>None\<close> is a refusal; its message is not modelled.\<close>

definition parse_policy_document :: "policy_document \<Rightarrow> policy_document option" where
  "parse_policy_document d =
     (if \<not> document_ok d then None
      else if doc_version d \<noteq> policy_version then None
      else Some d)"

declare policy_capability.simps [simp del] v6_capability.simps [simp del]

section \<open>Facts about layers\<close>

lemma index_of_absent: "x \<notin> set xs \<Longrightarrow> index_of xs x = -1"
  by (induction xs) auto

lemma index_of_bounds: "-1 \<le> index_of xs x"
  by (induction xs) (auto simp: Let_def)

lemma index_of_present: "x \<in> set xs \<Longrightarrow> 0 \<le> index_of xs x"
  by (induction xs) (auto simp: Let_def)

lemma index_of_inject:
  "x \<in> set xs \<Longrightarrow> y \<in> set xs \<Longrightarrow> index_of xs x = index_of xs y \<longleftrightarrow> x = y"
proof (induction xs)
  case Nil
  then show ?case by simp
next
  case (Cons z xs)
  have "z \<noteq> x \<Longrightarrow> 0 \<le> index_of xs x" "z \<noteq> y \<Longrightarrow> 0 \<le> index_of xs y"
    using Cons.prems by (auto intro: index_of_present)
  with Cons show ?case by (cases "z = x"; cases "z = y") (auto simp: Let_def)
qed

definition well_formed_layers :: "policy_layer list \<Rightarrow> bool" where
  "well_formed_layers ls \<longleftrightarrow>
     (\<forall>l \<in> set ls. ly_source l \<in> set precedence_order \<and> ly_effect l \<in> set decision_effects)"

definition rank_of :: "policy_layer \<Rightarrow> int" where
  "rank_of l = (case effect_rank (ly_effect l) of None \<Rightarrow> 0 | Some r \<Rightarrow> r)"

lemma effect_cases:
  "e \<in> set decision_effects \<longleftrightarrow> e = ''allow'' \<or> e = ''deny'' \<or> e = ''redact'' \<or> e = ''quarantine''"
  by (simp add: decision_effects_def)

lemma rank_of_effect:
  "ly_effect a \<in> set decision_effects \<Longrightarrow> ly_effect b \<in> set decision_effects \<Longrightarrow>
    rank_of a = rank_of b \<longleftrightarrow> ly_effect a = ly_effect b"
  by (auto simp: effect_cases rank_of_def)

lemma more_restrictive_rank:
  "ly_effect a \<in> set decision_effects \<Longrightarrow> ly_effect b \<in> set decision_effects \<Longrightarrow>
    more_restrictive (ly_effect a) (ly_effect b) \<longleftrightarrow> rank_of b < rank_of a"
  by (auto simp: effect_cases rank_of_def more_restrictive_def)

lemma rank_of_deny:
  "ly_effect l \<in> set decision_effects \<Longrightarrow> rank_of l \<le> 3 \<and> (rank_of l = 3 \<longleftrightarrow> ly_effect l = ''deny'')"
  by (auto simp: effect_cases rank_of_def)

text \<open>The layer that survives: the first of the list among those of the highest rank.\<close>

definition survivor :: "policy_layer \<Rightarrow> policy_layer list \<Rightarrow> bool" where
  "survivor r ls \<longleftrightarrow> (\<exists>pre post. ls = pre @ r # post \<and>
     (\<forall>l \<in> set pre. rank_of l < rank_of r) \<and> (\<forall>l \<in> set post. rank_of l \<le> rank_of r))"

lemma most_restrictive_survivor:
  assumes "well_formed_layers (b # ls)"
  shows "\<exists>r. most_restrictive (Some b) ls = Some r \<and> survivor r (b # ls)"
  using assms
proof (induction ls arbitrary: b)
  case Nil
  have "survivor b [b]" unfolding survivor_def by (rule exI [of _ "[]"]) simp
  then show ?case by simp
next
  case (Cons l ls)
  let ?c = "if more_restrictive (ly_effect l) (ly_effect b) then l else b"
  have wf: "well_formed_layers (?c # ls)" using Cons.prems by (simp add: well_formed_layers_def)
  from Cons.IH [OF wf] obtain r where r: "most_restrictive (Some ?c) ls = Some r" "survivor r (?c # ls)"
    by blast
  from r(2) obtain pre post where sp: "?c # ls = pre @ r # post"
    and lt: "\<forall>l \<in> set pre. rank_of l < rank_of r" and le: "\<forall>l \<in> set post. rank_of l \<le> rank_of r"
    by (auto simp: survivor_def)
  have mr: "more_restrictive (ly_effect l) (ly_effect b) \<longleftrightarrow> rank_of b < rank_of l"
    using Cons.prems by (simp add: more_restrictive_rank well_formed_layers_def)
  have "survivor r (b # l # ls)"
  proof (cases "rank_of b < rank_of l")
    case True
    with mr have c: "?c = l" by simp
    from sp c lt le have "rank_of l \<le> rank_of r" by (cases pre) auto
    with sp c True have "b # l # ls = (b # pre) @ r # post" "\<forall>x \<in> set (b # pre). rank_of x < rank_of r"
      using lt by auto
    with le show ?thesis unfolding survivor_def by blast
  next
    case False
    with mr have c: "?c = b" by simp
    show ?thesis
    proof (cases pre)
      case Nil
      with sp c have "r = b" "ls = post" by auto
      with False le have "\<forall>x \<in> set (l # ls). rank_of x \<le> rank_of r" by auto
      with \<open>r = b\<close> show ?thesis unfolding survivor_def by (metis append_Nil empty_iff list.set(1))
    next
      case (Cons q pre')
      with sp c have "ls = pre' @ r # post" "q = b" by auto
      with Cons lt False have "b # l # ls = (b # l # pre') @ r # post"
        "\<forall>x \<in> set (b # l # pre'). rank_of x < rank_of r" by auto
      with le show ?thesis unfolding survivor_def by blast
    qed
  qed
  moreover have "most_restrictive (Some b) (l # ls) = Some r" using r(1) by simp
  ultimately show ?case by blast
qed

lemma precedes_order: "total_order_by precedes"
  unfolding total_order_by_def precedes_def by auto

lemma resolve_layers_survivor:
  assumes "well_formed_layers ls" and "ls \<noteq> []"
  obtains r where "resolve_layers ls = Some (ly_effect r, ly_reason r)" "r \<in> set ls"
    "\<forall>l \<in> set ls. rank_of l \<le> rank_of r"
    "\<forall>l \<in> set ls. rank_of l = rank_of r \<longrightarrow> precedes r l"
proof -
  let ?s = "sort_by precedes ls"
  have ne: "?s \<noteq> []" using assms(2) by simp
  then obtain b t where bt: "?s = b # t" by (cases ?s) auto
  have "well_formed_layers ?s" using assms(1) by (simp add: well_formed_layers_def)
  with bt most_restrictive_survivor obtain r where
    r: "most_restrictive None ?s = Some r" "survivor r ?s" by fastforce
  from r(2) obtain pre post where sp: "?s = pre @ r # post"
    "\<forall>l \<in> set pre. rank_of l < rank_of r" "\<forall>l \<in> set post. rank_of l \<le> rank_of r"
    by (auto simp: survivor_def)
  have set: "set ls = set pre \<union> {r} \<union> set post"
    using sp(1) set_sort_by [of precedes ls] by auto
  have "sorted_wrt precedes ?s" by (rule sorted_sort_by [OF precedes_order])
  with sp(1) have "\<forall>l \<in> set post. precedes r l" by (simp add: sorted_wrt_append)
  moreover have "precedes r r" by (simp add: precedes_def)
  ultimately have "\<forall>l \<in> set ls. rank_of l = rank_of r \<longrightarrow> precedes r l"
    using set sp(2) by auto
  moreover have "resolve_layers ls = Some (ly_effect r, ly_reason r)"
    using assms(2) r(1) by (simp add: resolve_layers_def)
  ultimately show ?thesis using that set sp(2,3) by (metis UnCI UnE insertI1 less_imp_le order_refl singletonD)
qed

lemma resolve_layers_effect_deny:
  assumes "well_formed_layers ls"
  shows "(\<exists>r. resolve_layers ls = Some (''deny'', r)) \<longleftrightarrow> (\<exists>l \<in> set ls. ly_effect l = ''deny'')"
proof (cases "ls = []")
  case True
  then show ?thesis by (simp add: resolve_layers_def)
next
  case False
  obtain r where
    r: "resolve_layers ls = Some (ly_effect r, ly_reason r)" "r \<in> set ls"
    "\<forall>l \<in> set ls. rank_of l \<le> rank_of r" by (rule resolve_layers_survivor [OF assms False])
  from assms have eff: "\<forall>l \<in> set ls. ly_effect l \<in> set decision_effects"
    by (simp add: well_formed_layers_def)
  have "ly_effect r = ''deny''" if "l \<in> set ls" "ly_effect l = ''deny''" for l
    using that r(2,3) eff rank_of_deny by (metis antisym)
  with r(1,2) show ?thesis by auto
qed

text \<open>The surviving effect, and the source it comes from, depend on the set of layers only.\<close>

lemma resolve_layers_permutation:
  assumes "well_formed_layers ls" and "mset ls = mset ls'"
  shows "map_option fst (resolve_layers ls) = map_option fst (resolve_layers ls')"
    and "(\<forall>a \<in> set ls. \<forall>b \<in> set ls. ly_source a = ly_source b \<longrightarrow> ly_effect a = ly_effect b \<longrightarrow>
        ly_reason a = ly_reason b) \<Longrightarrow> resolve_layers ls = resolve_layers ls'"
proof -
  have sets: "set ls' = set ls" using assms(2) by (metis set_mset_mset)
  have "map_option fst (resolve_layers ls) = map_option fst (resolve_layers ls') \<and>
    ((\<forall>a \<in> set ls. \<forall>b \<in> set ls. ly_source a = ly_source b \<longrightarrow> ly_effect a = ly_effect b \<longrightarrow>
        ly_reason a = ly_reason b) \<longrightarrow> resolve_layers ls = resolve_layers ls')"
  proof (cases "ls = []")
    case True
    with assms(2) show ?thesis by simp
  next
    case False
    with assms(2) have ne: "ls' \<noteq> []" by auto
    have wf': "well_formed_layers ls'" using assms(1) sets by (simp add: well_formed_layers_def)
    from resolve_layers_survivor [OF assms(1) False] obtain r where
      r: "resolve_layers ls = Some (ly_effect r, ly_reason r)" "r \<in> set ls"
      "\<forall>l \<in> set ls. rank_of l \<le> rank_of r" "\<forall>l \<in> set ls. rank_of l = rank_of r \<longrightarrow> precedes r l"
      by blast
    from resolve_layers_survivor [OF wf' ne] obtain q where
      q: "resolve_layers ls' = Some (ly_effect q, ly_reason q)" "q \<in> set ls"
      "\<forall>l \<in> set ls. rank_of l \<le> rank_of q" "\<forall>l \<in> set ls. rank_of l = rank_of q \<longrightarrow> precedes q l"
      unfolding sets by blast
    from r(2,3) q(2,3) have eq: "rank_of r = rank_of q" by (meson antisym)
    have wfrq: "ly_source r \<in> set precedence_order" "ly_source q \<in> set precedence_order"
      "ly_effect r \<in> set decision_effects" "ly_effect q \<in> set decision_effects"
      using assms(1) r(2) q(2) by (simp_all add: well_formed_layers_def)
    from eq rank_of_effect wfrq have eff: "ly_effect r = ly_effect q" by simp
    have "precedes r q" "precedes q r" using r(4)[rule_format, OF q(2)] q(4)[rule_format, OF r(2)] eq by simp_all
    then have "index_of precedence_order (ly_source r) = index_of precedence_order (ly_source q)"
      unfolding precedes_def by (rule antisym)
    then have src: "ly_source r = ly_source q" by (rule iffD1 [OF index_of_inject [OF wfrq(1,2)]])
    have "ly_reason r = ly_reason q"
      if "\<forall>a \<in> set ls. \<forall>b \<in> set ls. ly_source a = ly_source b \<longrightarrow> ly_effect a = ly_effect b \<longrightarrow>
        ly_reason a = ly_reason b"
      using that r(2) q(2) src eff by blast
    then show ?thesis unfolding r(1) q(1) by (simp only: option.map fst_conv eff) blast
  qed
  then show "map_option fst (resolve_layers ls) = map_option fst (resolve_layers ls')"
    and "(\<forall>a \<in> set ls. \<forall>b \<in> set ls. ly_source a = ly_source b \<longrightarrow> ly_effect a = ly_effect b \<longrightarrow>
        ly_reason a = ly_reason b) \<Longrightarrow> resolve_layers ls = resolve_layers ls'"
    by blast+
qed

lemma decide_sel [simp]: "pd_effect (decide e r) = e" "pd_reason (decide e r) = r"
  by (simp_all add: decide_def)

definition opt_layers :: "policy_layer list option \<Rightarrow> policy_layer list" where
  "opt_layers v = (case v of None \<Rightarrow> [] | Some ls \<Rightarrow> ls)"

lemma evaluate_v6_unfold: "evaluate_v6_policy op p m layers now =
    (if input_malformed p m now then refuse ''policy_invalid''
     else if other_tenant p m then refuse ''tenant_mismatch''
     else if other_project p m then refuse ''project_mismatch''
     else case resolve_layers (opt_layers layers) of
        Some (e, r) \<Rightarrow> if e = ''deny'' then refuse r
          else (case v6_denial op p m now of Some x \<Rightarrow> refuse x | None \<Rightarrow> decide e r)
      | None \<Rightarrow> (case v6_denial op p m now of Some x \<Rightarrow> refuse x | None \<Rightarrow> decide ''allow'' ''authorized''))"
  by (auto simp: evaluate_v6_policy_def opt_layers_def resolve_layers_def split: option.splits)

lemma v6_denial_None: "v6_denial op p m now = None \<longleftrightarrow>
    \<not> lacks p (v6_capability op) \<and> \<not> egress_denied op p \<and> \<not> is_expired now m \<and>
    \<not> above_clearance p m \<and> \<not> (pm_legalHold m \<and> op = ''delete'') \<and> pm_trust m \<noteq> ''unverified''"
  by (simp add: v6_denial_def)

lemma v6_not_denied:
  assumes "well_formed_layers (opt_layers layers)"
  shows "pd_effect (evaluate_v6_policy op p m layers now) \<noteq> ''deny'' \<longleftrightarrow>
    \<not> input_malformed p m now \<and> \<not> other_tenant p m \<and> \<not> other_project p m \<and>
    (\<forall>l \<in> set (opt_layers layers). ly_effect l \<noteq> ''deny'') \<and> v6_denial op p m now = None"
proof -
  have "(\<forall>l \<in> set (opt_layers layers). ly_effect l \<noteq> ''deny'') \<longleftrightarrow>
      (case resolve_layers (opt_layers layers) of None \<Rightarrow> True | Some (e, r) \<Rightarrow> e \<noteq> ''deny'')"
    using resolve_layers_effect_deny [OF assms] by (auto split: option.splits)
  then show ?thesis
    by (auto simp: evaluate_v6_unfold split: option.splits prod.splits if_splits)
qed

lemma common_capability:
  "policy_capability op \<noteq> None \<Longrightarrow> v6_capability op = policy_capability op"
  by (auto simp: policy_capability.simps v6_capability.simps split: if_splits)

section \<open>Properties\<close>

text \<open>C7. Deny wins. The V6 evaluator denies exactly when the input is malformed, the memory belongs to
  another tenant or project, some explicit layer (of whatever precedence) denies, the capability
  of the operation is missing, a third party would receive data without an internal clearance,
  the memory is expired, labelled above the clearance, on legal hold for a deletion, or
  unverified. No permissive layer rescues any of these.\<close>

theorem v6_deny_wins:
  assumes "well_formed_layers (opt_layers layers)"
  shows "pd_effect (evaluate_v6_policy op p m layers (Finite now)) = ''deny'' \<longleftrightarrow>
    input_malformed p m (Finite now) \<or> other_tenant p m \<or> other_project p m \<or>
    (\<exists>l \<in> set (opt_layers layers). ly_effect l = ''deny'') \<or>
    (\<forall>c. v6_capability op = Some c \<longrightarrow> c \<notin> set (pp_capabilities p)) \<or>
    (op = ''provider_transmit'' \<and> clearance_of p = ''public'') \<or>
    (\<exists>t. pm_expiresAt m = Some (Finite t) \<and> t \<le> now) \<or>
    sensitivity_rank (clearance_of p) < sensitivity_rank (pm_sensitivity m) \<or>
    (pm_legalHold m \<and> op = ''delete'') \<or> pm_trust m = ''unverified''"
proof -
  have egress: "egress_denied op p \<longleftrightarrow> op = ''provider_transmit'' \<and> clearance_of p = ''public''"
    if "\<not> input_malformed p m (Finite now)"
    using that by (auto simp: egress_denied_def input_malformed_def sensitivity_order_def sensitivity_rank_def)
  have expired: "is_expired (Finite now) m \<longleftrightarrow> (\<exists>t. pm_expiresAt m = Some (Finite t) \<and> t \<le> now)"
    by (cases "pm_expiresAt m"; cases "the (pm_expiresAt m)") (auto simp: is_expired_def)
  have lacks: "lacks p (v6_capability op) \<longleftrightarrow> (\<forall>c. v6_capability op = Some c \<longrightarrow> c \<notin> set (pp_capabilities p))"
    unfolding lacks_def by (cases "v6_capability op") auto
  show ?thesis
    using v6_not_denied [OF assms, of op p m "Finite now"] egress
    unfolding v6_denial_None expired lacks above_clearance_def by blast
qed

definition sample_policy_principal :: policy_principal where
  "sample_policy_principal =
     \<lparr>pp_organizationId = ''acme'', pp_projectId = None, pp_capabilities = [''tenant:read'', ''tenant:write''],
      pp_clearance = Some ''internal''\<rparr>"

definition sample_policy_memory :: policy_memory where
  "sample_policy_memory =
     \<lparr>pm_organizationId = Some ''acme'', pm_projectId = None, pm_sensitivity = ''internal'',
      pm_trust = ''trusted'', pm_retention = ''decaying'', pm_legalHold = True, pm_expiresAt = None\<rparr>"

abbreviation layer :: "string \<Rightarrow> string \<Rightarrow> string \<Rightarrow> policy_layer" where
  "layer src e r \<equiv> \<lparr>ly_source = src, ly_effect = e, ly_reason = r, ly_unknownKeys = []\<rparr>"

theorem v6_deny_wins_witness:
  "pd_effect (evaluate_v6_policy ''read'' sample_policy_principal sample_policy_memory
      (Some [layer ''system'' ''allow'' ''authorized'', layer ''provider'' ''deny'' ''trust_restricted''])
      (Finite 5)) = ''deny''"
  by (subst v6_deny_wins) (auto simp: well_formed_layers_def opt_layers_def precedence_order_def decision_effects_def)

text \<open>The decision does not depend on the order in which the layers are supplied: any permutation
  gives the same effect, and the same decision altogether unless two layers of the same source
  and effect give different reasons.\<close>

theorem v6_layer_order_irrelevant:
  assumes "well_formed_layers ls" and "mset ls = mset ls'"
  shows "pd_effect (evaluate_v6_policy op p m (Some ls) now) =
      pd_effect (evaluate_v6_policy op p m (Some ls') now) \<and>
    ((\<forall>a \<in> set ls. \<forall>b \<in> set ls. ly_source a = ly_source b \<longrightarrow> ly_effect a = ly_effect b \<longrightarrow>
        ly_reason a = ly_reason b) \<longrightarrow>
      evaluate_v6_policy op p m (Some ls) now = evaluate_v6_policy op p m (Some ls') now)"
proof -
  have same: "evaluate_v6_policy op p m (Some xs) now = evaluate_v6_policy op p m (Some ys) now"
    if "resolve_layers xs = resolve_layers ys" for xs ys
    unfolding evaluate_v6_unfold by (simp add: opt_layers_def that)
  have "pd_effect (evaluate_v6_policy op p m (Some xs) now) = pd_effect (evaluate_v6_policy op p m (Some ys) now)"
    if "map_option fst (resolve_layers xs) = map_option fst (resolve_layers ys)" for xs ys
  proof (cases "resolve_layers xs")
    case None
    with that same [of xs ys] show ?thesis by simp
  next
    case (Some a)
    with that obtain b where "resolve_layers ys = Some b" "fst b = fst a"
      by (cases "resolve_layers ys") auto
    with Some show ?thesis
      unfolding evaluate_v6_unfold
      by (cases a; cases b; cases "v6_denial op p m now") (simp_all add: opt_layers_def)
  qed
  with same resolve_layers_permutation [OF assms] show ?thesis by metis
qed

theorem v6_layer_order_irrelevant_witness:
  "evaluate_v6_policy ''read'' sample_policy_principal sample_policy_memory
      (Some [layer ''system'' ''redact'' ''authorized'', layer ''memory'' ''quarantine'' ''trust_restricted'']) (Finite 5) =
   evaluate_v6_policy ''read'' sample_policy_principal sample_policy_memory
      (Some [layer ''memory'' ''quarantine'' ''trust_restricted'', layer ''system'' ''redact'' ''authorized'']) (Finite 5)"
  using v6_layer_order_irrelevant [of "[layer ''system'' ''redact'' ''authorized'', layer ''memory'' ''quarantine'' ''trust_restricted'']"
      "[layer ''memory'' ''quarantine'' ''trust_restricted'', layer ''system'' ''redact'' ''authorized'']"
      "''read''" sample_policy_principal sample_policy_memory "Finite 5"]
  by (simp add: well_formed_layers_def precedence_order_def decision_effects_def add_mset_commute)

text \<open>The reported reason can depend on the order of the layers, although the code states that it
  does not: with two denying layers of the same source, swapping them changes the reason.\<close>

theorem v6_reason_depends_on_layer_order:
  "evaluate_v6_policy ''read'' sample_policy_principal sample_policy_memory
      (Some [layer ''tenant'' ''deny'' ''expired'', layer ''tenant'' ''deny'' ''legal_hold'']) (Finite 5) \<noteq>
   evaluate_v6_policy ''read'' sample_policy_principal sample_policy_memory
      (Some [layer ''tenant'' ''deny'' ''legal_hold'', layer ''tenant'' ''deny'' ''expired'']) (Finite 5)"
  by code_simp



text \<open>A memory whose label is outside the vocabulary is not denied by the evaluator of
  \<open>v6-policy.ts\<close>: an unknown sensitivity ranks below every clearance and an unknown trust level is
  not the unverified one, so a reader with no clearance at all is allowed, where the V6 evaluator
  refuses the same input.\<close>

theorem unknown_labels_allowed:
  assumes "''tenant:read'' \<in> set (pp_capabilities p)" and "is_valid_tenant_id (pp_organizationId p)"
    and "pm_sensitivity m \<notin> set sensitivity_order" and "pm_trust m \<notin> set trust_levels"
    and "\<not> other_tenant p m" and "\<not> other_project p m" and "pm_expiresAt m = None"
  shows "evaluate_policy ''read'' p m None (Some (Finite now)) = Inr (decide ''allow'' ''authorized'') \<and>
    evaluate_v6_policy ''read'' p m None (Finite now) = decide ''deny'' ''policy_invalid''"
proof -
  have "sensitivity_rank (pm_sensitivity m) = -1"
    using assms(3) by (simp add: sensitivity_rank_def index_of_absent)
  with index_of_bounds [of sensitivity_order "clearance_of p"]
  have "\<not> above_clearance p m" by (simp add: above_clearance_def sensitivity_rank_def)
  moreover have "pm_trust m \<noteq> ''unverified''" using assms(4) by (auto simp: trust_levels_def)
  ultimately show ?thesis
    using assms
    by (simp add: evaluate_policy_def evaluate_v6_policy_def input_malformed_def lacks_def
        egress_denied_def is_expired_def resolve_layers_def policy_capability.simps)
qed

theorem unknown_labels_allowed_witness:
  "evaluate_policy ''read'' sample_policy_principal
      (sample_policy_memory\<lparr>pm_sensitivity := ''restricted'', pm_trust := ''unknown''\<rparr>) None (Some (Finite 0)) =
    Inr (decide ''allow'' ''authorized'') \<and>
   evaluate_v6_policy ''read'' sample_policy_principal
      (sample_policy_memory\<lparr>pm_sensitivity := ''restricted'', pm_trust := ''unknown''\<rparr>) None (Finite 0) =
    decide ''deny'' ''policy_invalid''"
  by (rule unknown_labels_allowed) code_simp+

end
