(* ===== verification/LifecycleV6.thy ===== *)
theory LifecycleV6
  imports Errors Complex_Main
begin

text \<open>
  \<open>src/v6-lifecycle.ts\<close>: parsing of expiry instants, evaluation of expiration against an explicit
  clock, the five lifecycle actions and the bounded, tenant-scoped job. Instants are integers in
  milliseconds. \<open>Date.parse\<close> is a parameter of the parser, its \<open>NaN\<close> is \<open>None\<close>; a number that is not
  finite is \<open>None\<close> too.
\<close>

section \<open>Records\<close>

record lifecycle_record =
  lr_id :: string
  lr_organizationId :: string
  lr_projectId :: "string option"
  lr_content :: string
  lr_expiresAt :: "int option"
  lr_retention :: string
  lr_legalHold :: bool
  lr_archived :: bool
  lr_deleted :: bool
  lr_supersededBy :: "string option"
  lr_renewals :: nat
  lr_version :: nat

datatype lifecycle_action = Expire | Archive | Delete | Supersede | Renew

section \<open>Parsing an expiry\<close>

datatype expiry_input = NoExpiry | NumericExpiry "rat option" | TextExpiry string

text \<open>\<open>/(Z|[+-]\d{2}:?\d{2})$/\<close>, read from the end of the text.\<close>

definition has_zone :: "string \<Rightarrow> bool" where
  "has_zone s \<longleftrightarrow>
     (case rev s of
        [] \<Rightarrow> False
      | c # cs \<Rightarrow> c = CHR ''Z'' \<or>
          (case c # cs of
             m2 # m1 # x # h # g # rest \<Rightarrow>
               is_digit m2 \<and> is_digit m1 \<and>
               (is_digit x \<and> is_digit h \<and> (g = CHR ''+'' \<or> g = CHR ''-'') \<or>
                x = CHR '':'' \<and> is_digit h \<and> is_digit g \<and>
                  (case rest of [] \<Rightarrow> False | f # _ \<Rightarrow> f = CHR ''+'' \<or> f = CHR ''-''))
           | _ \<Rightarrow> False))"

definition math_trunc :: "rat \<Rightarrow> int" where
  "math_trunc q = (if 0 \<le> q then \<lfloor>q\<rfloor> else \<lceil>q\<rceil>)"

fun parse_expiry :: "(string \<Rightarrow> int option) \<Rightarrow> expiry_input \<Rightarrow> int option result" where
  "parse_expiry date_parse NoExpiry = Inr None"
| "parse_expiry date_parse (NumericExpiry v) =
     (case v of
        None \<Rightarrow> Inl INVALID_INPUT
      | Some q \<Rightarrow> if q < 0 then Inl INVALID_INPUT else Inr (Some (math_trunc q)))"
| "parse_expiry date_parse (TextExpiry s) =
     (let t = trim s in
      if t = '''' then Inl INVALID_INPUT
      else if \<not> has_zone t then Inl INVALID_INPUT
      else case date_parse t of None \<Rightarrow> Inl INVALID_INPUT | Some ms \<Rightarrow> Inr (Some ms))"

section \<open>Expiration\<close>

datatype expiration_state = Active | Expiring | Expired | NeverExpires

datatype disposition =
  Retrievable | Expirable | BlockedByHold | DispArchived | DispSuperseded | DispDeleted

record expiration =
  ev_state :: expiration_state
  ev_include :: bool
  ev_disposition :: disposition
  ev_expiresIn :: "int option"

definition evaluate_expiration ::
  "lifecycle_record \<Rightarrow> int \<Rightarrow> int option \<Rightarrow> bool option \<Rightarrow> expiration" where
  "evaluate_expiration r now skew_tolerance include_expired =
     (let skew = (case skew_tolerance of None \<Rightarrow> 0 | Some k \<Rightarrow> k) in
      if lr_deleted r then
        \<lparr>ev_state = NeverExpires, ev_include = False, ev_disposition = DispDeleted, ev_expiresIn = None\<rparr>
      else if lr_supersededBy r \<noteq> None then
        \<lparr>ev_state = NeverExpires, ev_include = False, ev_disposition = DispSuperseded, ev_expiresIn = None\<rparr>
      else if lr_archived r then
        \<lparr>ev_state = NeverExpires, ev_include = False, ev_disposition = DispArchived, ev_expiresIn = None\<rparr>
      else case lr_expiresAt r of
          None \<Rightarrow>
            \<lparr>ev_state = NeverExpires, ev_include = True,
             ev_disposition = (if lr_legalHold r then BlockedByHold else Retrievable), ev_expiresIn = None\<rparr>
        | Some t \<Rightarrow>
            (let left = t - now in
             if left \<le> 0 then
               \<lparr>ev_state = Expired, ev_include = (include_expired = Some True),
                ev_disposition = (if lr_legalHold r then BlockedByHold else Expirable),
                ev_expiresIn = Some left\<rparr>
             else if left \<le> skew then
               \<lparr>ev_state = Expiring, ev_include = True, ev_disposition = Retrievable, ev_expiresIn = Some left\<rparr>
             else
               \<lparr>ev_state = Active, ev_include = True, ev_disposition = Retrievable, ev_expiresIn = Some left\<rparr>))"

section \<open>Actions\<close>

datatype blocked = LegalHold | AlreadyDeleted | AlreadyApplied | NotExpired | RenewalLimit

datatype applied_as = AsExpired | AsArchived | AsDeleted | AsSuperseded | AsRenewed

record action_result =
  ar_applied :: bool
  ar_record :: lifecycle_record
  ar_blockedBy :: "blocked option"
  ar_disposition :: "applied_as option"

text \<open>The renewal duration is \<open>None\<close> inside \<open>Some\<close> when it is not finite.\<close>

record action_options =
  ao_now :: int
  ao_supersededBy :: "string option"
  ao_renewForMs :: "int option option"
  ao_maxRenewals :: "int option"

definition blocked_by :: "lifecycle_record \<Rightarrow> blocked \<Rightarrow> action_result" where
  "blocked_by r b = \<lparr>ar_applied = False, ar_record = r, ar_blockedBy = Some b, ar_disposition = None\<rparr>"

definition applied_to :: "lifecycle_record \<Rightarrow> applied_as \<Rightarrow> action_result" where
  "applied_to r d = \<lparr>ar_applied = True, ar_record = r, ar_blockedBy = None, ar_disposition = Some d\<rparr>"

definition bump_version :: "lifecycle_record \<Rightarrow> lifecycle_record" where
  "bump_version r = r\<lparr>lr_version := lr_version r + 1\<rparr>"

definition expired_now :: "lifecycle_record \<Rightarrow> int \<Rightarrow> bool" where
  "expired_now r now \<longleftrightarrow> ev_state (evaluate_expiration r now None None) = Expired"

fun perform :: "lifecycle_record \<Rightarrow> lifecycle_action \<Rightarrow> action_options \<Rightarrow> action_result result" where
  "perform r Delete opt =
     (if \<not> expired_now r (ao_now opt) then Inr (blocked_by r NotExpired)
      else Inr (applied_to (bump_version (r\<lparr>lr_deleted := True\<rparr>)) AsDeleted))"
| "perform r Archive opt =
     (if lr_archived r then Inr (blocked_by r AlreadyApplied)
      else Inr (applied_to (bump_version (r\<lparr>lr_archived := True\<rparr>)) AsArchived))"
| "perform r Supersede opt =
     (case ao_supersededBy opt of
        None \<Rightarrow> Inl INVALID_INPUT
      | Some i \<Rightarrow>
          (if i = lr_id r then Inl INVALID_INPUT
           else Inr (applied_to (bump_version (r\<lparr>lr_supersededBy := Some i\<rparr>)) AsSuperseded)))"
| "perform r Renew opt =
     (let max_renewals = (case ao_maxRenewals opt of None \<Rightarrow> 3 | Some n \<Rightarrow> n);
          duration = (case ao_renewForMs opt of None \<Rightarrow> Some 0 | Some v \<Rightarrow> v)
      in if int (lr_renewals r) \<ge> max_renewals then Inr (blocked_by r RenewalLimit)
         else case duration of
             None \<Rightarrow> Inl INVALID_INPUT
           | Some n \<Rightarrow>
               (if n \<le> 0 then Inl INVALID_INPUT
                else Inr (applied_to (bump_version (r\<lparr>lr_expiresAt := Some (ao_now opt + n),
                    lr_renewals := lr_renewals r + 1\<rparr>)) AsRenewed)))"
| "perform r Expire opt =
     (if \<not> expired_now r (ao_now opt) then Inr (blocked_by r NotExpired)
      else Inr (applied_to (bump_version (r\<lparr>lr_archived := False\<rparr>)) AsExpired))"

definition apply_lifecycle_action ::
  "lifecycle_record option \<Rightarrow> lifecycle_action \<Rightarrow> action_options \<Rightarrow> action_result result" where
  "apply_lifecycle_action record_opt action opt =
     (case record_opt of
        None \<Rightarrow> Inl NOT_FOUND
      | Some r \<Rightarrow>
          (if lr_deleted r then Inr (blocked_by r AlreadyDeleted)
           else if lr_legalHold r \<and> action \<noteq> Supersede then Inr (blocked_by r LegalHold)
           else perform r action opt))"

text \<open>A caller that keeps the record an action returns, and its own when the action throws.\<close>

definition after_action :: "lifecycle_record \<Rightarrow> lifecycle_action \<times> action_options \<Rightarrow> lifecycle_record" where
  "after_action r x =
     (case apply_lifecycle_action (Some r) (fst x) (snd x) of
        Inl e \<Rightarrow> r
      | Inr res \<Rightarrow> ar_record res)"

section \<open>The job\<close>

record job_audit =
  ja_memoryId :: string
  ja_organizationId :: string
  ja_applied :: bool
  ja_blockedBy :: "blocked option"
  ja_at :: int

record job_state =
  jb_processed :: nat
  jb_deleted :: nat
  jb_archived :: nat
  jb_skippedLegalHold :: nat
  jb_skippedForeignTenant :: nat
  jb_exceededLimit :: bool
  jb_audit :: "job_audit list"
  jb_updated :: "lifecycle_record list"

record job_options =
  jo_now :: int
  jo_batchLimit :: "int option"
  jo_organizationId :: "string option"

definition job_start :: job_state where
  "job_start =
     \<lparr>jb_processed = 0, jb_deleted = 0, jb_archived = 0, jb_skippedLegalHold = 0,
      jb_skippedForeignTenant = 0, jb_exceededLimit = False, jb_audit = [], jb_updated = []\<rparr>"

definition foreign_to :: "job_options \<Rightarrow> lifecycle_record \<Rightarrow> bool" where
  "foreign_to opt r \<longleftrightarrow>
     jo_organizationId opt \<noteq> None \<and> Some (lr_organizationId r) \<noteq> jo_organizationId opt"

definition job_limit :: "job_options \<Rightarrow> int" where
  "job_limit opt = (case jo_batchLimit opt of None \<Rightarrow> 100 | Some n \<Rightarrow> n)"

definition audit_entry :: "lifecycle_record \<Rightarrow> bool \<Rightarrow> blocked option \<Rightarrow> int \<Rightarrow> job_audit" where
  "audit_entry r ok b now =
     \<lparr>ja_memoryId = lr_id r, ja_organizationId = lr_organizationId r, ja_applied = ok,
      ja_blockedBy = b, ja_at = now\<rparr>"

abbreviation keep :: "lifecycle_record \<Rightarrow> job_state \<Rightarrow> job_state" where
  "keep r s \<equiv> s\<lparr>jb_updated := jb_updated s @ [r]\<rparr>"

text \<open>One iteration of the loop; deleting never throws, so the exception branch keeps the state.\<close>

definition job_step :: "job_options \<Rightarrow> lifecycle_record \<Rightarrow> job_state \<Rightarrow> job_state" where
  "job_step opt r s =
     (if foreign_to opt r then
        keep r (s\<lparr>jb_skippedForeignTenant := jb_skippedForeignTenant s + 1\<rparr>)
      else if int (jb_processed s) \<ge> job_limit opt then
        keep r (s\<lparr>jb_exceededLimit := True\<rparr>)
      else
        let s = s\<lparr>jb_processed := jb_processed s + 1\<rparr> in
        if lr_legalHold r then
          keep r (s\<lparr>jb_skippedLegalHold := jb_skippedLegalHold s + 1,
            jb_audit := jb_audit s @ [audit_entry r False (Some LegalHold) (jo_now opt)]\<rparr>)
        else if \<not> expired_now r (jo_now opt) then keep r s
        else case apply_lifecycle_action (Some r) Delete
              \<lparr>ao_now = jo_now opt, ao_supersededBy = None, ao_renewForMs = None, ao_maxRenewals = None\<rparr> of
            Inl e \<Rightarrow> s
          | Inr res \<Rightarrow>
              (let s = s\<lparr>jb_audit := jb_audit s @
                     [audit_entry r (ar_applied res) (ar_blockedBy res) (jo_now opt)]\<rparr>
               in if ar_applied res then keep (ar_record res) (s\<lparr>jb_deleted := jb_deleted s + 1\<rparr>)
                  else keep r s))"

definition run_lifecycle_job :: "lifecycle_record list \<Rightarrow> job_options \<Rightarrow> job_state" where
  "run_lifecycle_job records opt = fold (job_step opt) records job_start"

section \<open>Facts about single actions\<close>

lemma result_sel [simp]:
  "ar_record (blocked_by r b) = r" "ar_applied (blocked_by r b) = False"
  "ar_blockedBy (blocked_by r b) = Some b"
  "ar_record (applied_to r d) = r" "ar_applied (applied_to r d)" "ar_blockedBy (applied_to r d) = None"
  by (simp_all add: blocked_by_def applied_to_def)

lemma bump_version_sel [simp]:
  "lr_id (bump_version r) = lr_id r" "lr_organizationId (bump_version r) = lr_organizationId r"
  "lr_content (bump_version r) = lr_content r" "lr_expiresAt (bump_version r) = lr_expiresAt r"
  "lr_legalHold (bump_version r) = lr_legalHold r" "lr_archived (bump_version r) = lr_archived r"
  "lr_deleted (bump_version r) = lr_deleted r" "lr_supersededBy (bump_version r) = lr_supersededBy r"
  "lr_renewals (bump_version r) = lr_renewals r" "lr_version (bump_version r) = Suc (lr_version r)"
  by (simp_all add: bump_version_def)

lemma expired_now_iff: "expired_now r now \<longleftrightarrow>
    \<not> lr_deleted r \<and> lr_supersededBy r = None \<and> \<not> lr_archived r \<and>
    (\<exists>t. lr_expiresAt r = Some t \<and> t \<le> now)"
  by (auto simp: expired_now_def evaluate_expiration_def Let_def split: option.splits)

lemma after_action_deleted: "lr_deleted r \<Longrightarrow> after_action r x = r"
  by (simp add: after_action_def apply_lifecycle_action_def)

lemma after_action_held:
  "lr_legalHold r \<Longrightarrow> after_action r x = r \<or>
    (\<exists>i. \<not> lr_deleted r \<and> fst x = Supersede \<and> after_action r x = bump_version (r\<lparr>lr_supersededBy := Some i\<rparr>))"
  by (cases "fst x") (auto simp: after_action_def apply_lifecycle_action_def split: option.splits)

lemma after_action_deletes:
  "\<not> lr_deleted r \<Longrightarrow> lr_deleted (after_action r x) \<longleftrightarrow>
    fst x = Delete \<and> \<not> lr_legalHold r \<and> expired_now r (ao_now (snd x))"
  by (cases "fst x") (auto simp: after_action_def apply_lifecycle_action_def Let_def split: option.splits)

lemma after_action_hold [simp]: "lr_legalHold (after_action r x) = lr_legalHold r"
  by (cases "fst x") (auto simp: after_action_def apply_lifecycle_action_def Let_def split: option.splits)

lemma delete_applies:
  "expired_now r now \<Longrightarrow> \<not> lr_legalHold r \<Longrightarrow> ao_now opt = now \<Longrightarrow>
    apply_lifecycle_action (Some r) Delete opt =
      Inr (applied_to (bump_version (r\<lparr>lr_deleted := True\<rparr>)) AsDeleted)"
  by (simp add: apply_lifecycle_action_def expired_now_iff)

lemma run_held:
  "lr_legalHold r \<Longrightarrow> \<not> lr_deleted r \<Longrightarrow>
    (let r' = foldl after_action r xs in
      lr_legalHold r' \<and> \<not> lr_deleted r' \<and> lr_archived r' = lr_archived r \<and>
      lr_expiresAt r' = lr_expiresAt r \<and> lr_content r' = lr_content r \<and> lr_renewals r' = lr_renewals r)"
proof (induction xs arbitrary: r)
  case Nil
  then show ?case by simp
next
  case (Cons x xs)
  from after_action_held [OF Cons.prems(1), of x]
  have keep: "lr_archived (after_action r x) = lr_archived r \<and> lr_expiresAt (after_action r x) = lr_expiresAt r \<and>
      lr_content (after_action r x) = lr_content r \<and> lr_renewals (after_action r x) = lr_renewals r"
    by auto
  have "lr_legalHold (after_action r x)" "\<not> lr_deleted (after_action r x)"
    using Cons.prems after_action_deletes [OF Cons.prems(2), of x] by simp_all
  from Cons.IH [OF this] keep show ?case by (simp add: Let_def)
qed

lemma run_deleted: "lr_deleted r \<Longrightarrow> foldl after_action r xs = r"
  by (induction xs) (simp_all add: after_action_deleted)

section \<open>Facts about the job\<close>

definition disposed :: "job_options \<Rightarrow> lifecycle_record \<Rightarrow> bool" where
  "disposed opt r \<longleftrightarrow> \<not> lr_legalHold r \<and> expired_now r (jo_now opt)"

definition tombstone :: "lifecycle_record \<Rightarrow> lifecycle_record" where
  "tombstone r = bump_version (r\<lparr>lr_deleted := True\<rparr>)"

fun window :: "job_options \<Rightarrow> nat \<Rightarrow> lifecycle_record list \<Rightarrow> lifecycle_record list" where
  "window opt n [] = []"
| "window opt n (r # rs) =
     (if foreign_to opt r \<or> int n \<ge> job_limit opt then r # window opt n rs
      else (if disposed opt r then tombstone r else r) # window opt (Suc n) rs)"

fun tally :: "job_options \<Rightarrow> nat \<Rightarrow> lifecycle_record list \<Rightarrow> nat" where
  "tally opt n [] = 0"
| "tally opt n (r # rs) =
     (if foreign_to opt r \<or> int n \<ge> job_limit opt then tally opt n rs
      else (if disposed opt r then 1 else 0) + tally opt (Suc n) rs)"

lemma job_step_effect:
  "jb_updated (job_step opt r s) = jb_updated s @
     [if foreign_to opt r \<or> int (jb_processed s) \<ge> job_limit opt then r
      else if disposed opt r then tombstone r else r]"
  "jb_processed (job_step opt r s) =
     (if foreign_to opt r \<or> int (jb_processed s) \<ge> job_limit opt then jb_processed s else Suc (jb_processed s))"
  "jb_deleted (job_step opt r s) = jb_deleted s +
     (if \<not> foreign_to opt r \<and> int (jb_processed s) < job_limit opt \<and> disposed opt r then 1 else 0)"
  by (auto simp: job_step_def disposed_def tombstone_def Let_def delete_applies)

lemma run_job_window:
  "jb_updated (fold (job_step opt) rs s) = jb_updated s @ window opt (jb_processed s) rs \<and>
   jb_deleted (fold (job_step opt) rs s) = jb_deleted s + tally opt (jb_processed s) rs"
  by (induction rs arbitrary: s) (simp_all add: job_step_effect)

lemma run_lifecycle_job_window:
  "jb_updated (run_lifecycle_job rs opt) = window opt 0 rs"
  "jb_deleted (run_lifecycle_job rs opt) = tally opt 0 rs"
  using run_job_window [of opt rs job_start] by (simp_all add: run_lifecycle_job_def job_start_def)

lemma tombstone_sel [simp]:
  "lr_deleted (tombstone r)" "lr_id (tombstone r) = lr_id r" "lr_content (tombstone r) = lr_content r"
  "lr_organizationId (tombstone r) = lr_organizationId r" "lr_version (tombstone r) = Suc (lr_version r)"
  by (simp_all add: tombstone_def)

lemma tombstone_not_disposed [simp]: "\<not> disposed opt (tombstone r)"
  by (simp add: disposed_def expired_now_iff)

lemma tombstone_foreign [simp]: "foreign_to opt (tombstone r) = foreign_to opt r"
  by (simp add: foreign_to_def)

lemma window_twice: "window opt n (window opt n rs) = window opt n rs \<and> tally opt n (window opt n rs) = 0"
  by (induction rs arbitrary: n) auto

lemma length_window [simp]: "length (window opt n rs) = length rs"
  by (induction rs arbitrary: n) auto

text \<open>How many of the first records belong to the job's tenant.\<close>

definition in_tenant_before :: "job_options \<Rightarrow> lifecycle_record list \<Rightarrow> nat \<Rightarrow> nat" where
  "in_tenant_before opt rs i = length (filter (\<lambda>r. \<not> foreign_to opt r) (take i rs))"

lemma window_nth:
  assumes "i < length rs"
  shows "window opt n rs ! i =
    (if \<not> foreign_to opt (rs ! i) \<and> int (n + in_tenant_before opt rs i) < job_limit opt \<and> disposed opt (rs ! i)
     then tombstone (rs ! i) else rs ! i)"
  using assms
proof (induction rs arbitrary: n i)
  case Nil
  then show ?case by simp
next
  case (Cons r rs)
  show ?case
  proof (cases i)
    case 0
    then show ?thesis by (simp add: in_tenant_before_def)
  next
    case (Suc j)
    have over: "int n \<ge> job_limit opt \<Longrightarrow> \<not> int (n + k) < job_limit opt" for k by simp
    from Suc Cons.prems Cons.IH [of j n] Cons.IH [of j "Suc n"] over
    show ?thesis by (auto simp: in_tenant_before_def)
  qed
qed

lemma tally_count:
  "tally opt n rs = card {i. i < length rs \<and> window opt n rs ! i \<noteq> rs ! i}"
proof (induction rs arbitrary: n)
  case Nil
  then show ?case by simp
next
  case (Cons r rs)
  have ne: "tombstone r \<noteq> r"
    using tombstone_sel(5) [of r] by (metis n_not_Suc_n)
  have split: "{i. i < length (r # rs) \<and> P i} = (if P 0 then {0} else {}) \<union> Suc ` {i. i < length rs \<and> P (Suc i)}"
    for P :: "nat \<Rightarrow> bool"
  proof -
    have "x \<in> Suc ` {i. i < length rs \<and> P (Suc i)}" if "x < length (r # rs)" "P x" "x \<noteq> 0" for x
      using that by (cases x) auto
    then show ?thesis by auto
  qed
  have zero: "0 \<notin> Suc ` A" for A :: "nat set" by auto
  show ?case
    unfolding split
    using Cons.IH [of n] Cons.IH [of "Suc n"] ne
    by (simp add: card_image zero)
qed

text \<open>Repeated passes of a job with the same tenant and limit, each on the records the pass before
  returned and at its own time.\<close>

definition job_passes :: "string option \<Rightarrow> int option \<Rightarrow> int list \<Rightarrow> lifecycle_record list \<Rightarrow> lifecycle_record list" where
  "job_passes org limit clocks rs =
     foldl (\<lambda>rs now. jb_updated (run_lifecycle_job rs
       \<lparr>jo_now = now, jo_batchLimit = limit, jo_organizationId = org\<rparr>)) rs clocks"

lemma foreign_window:
  assumes "jo_organizationId o1 = jo_organizationId o2"
  shows "map (foreign_to o1) (window o2 n rs) = map (foreign_to o1) rs"
proof -
  have "foreign_to o1 (tombstone r) = foreign_to o1 r" for r by (rule tombstone_foreign)
  then show ?thesis by (induction rs arbitrary: n) auto
qed

lemma length_filter_map_cong:
  "map p xs = map p ys \<Longrightarrow> length (filter (\<lambda>x. \<not> p x) xs) = length (filter (\<lambda>x. \<not> p x) ys)"
proof (induction xs arbitrary: ys)
  case Nil
  then show ?case by simp
next
  case (Cons x xs)
  then show ?case by (cases ys) auto
qed

lemma in_tenant_before_window:
  "in_tenant_before opt (window opt n rs) i = in_tenant_before opt rs i"
proof -
  have "map (foreign_to opt) (take i (window opt n rs)) = map (foreign_to opt) (take i rs)"
    using foreign_window [of opt opt n rs] by (metis take_map)
  then show ?thesis unfolding in_tenant_before_def by (rule length_filter_map_cong)
qed

lemma passes_skip_overflow:
  assumes "i < length rs"
    and "job_limit \<lparr>jo_now = 0, jo_batchLimit = limit, jo_organizationId = org\<rparr> \<le>
      int (in_tenant_before \<lparr>jo_now = 0, jo_batchLimit = limit, jo_organizationId = org\<rparr> rs i)"
  shows "job_passes org limit clocks rs ! i = rs ! i"
  using assms
proof (induction clocks arbitrary: rs)
  case Nil
  then show ?case by (simp add: job_passes_def)
next
  case (Cons now clocks)
  let ?o = "\<lambda>t. \<lparr>jo_now = t, jo_batchLimit = limit, jo_organizationId = org\<rparr>"
  have same: "in_tenant_before (?o now) = in_tenant_before (?o 0)" "job_limit (?o now) = job_limit (?o 0)"
    by (simp_all add: in_tenant_before_def foreign_to_def job_limit_def fun_eq_iff)
  let ?w = "window (?o now) 0 rs"
  have "in_tenant_before (?o 0) ?w i = in_tenant_before (?o 0) rs i"
    using in_tenant_before_window [of "?o now" 0 rs i] unfolding same .
  with Cons.prems have "job_passes org limit clocks ?w ! i = ?w ! i"
    by (intro Cons.IH) simp_all
  moreover have "?w ! i = rs ! i"
    using Cons.prems same by (simp add: window_nth)
  ultimately show ?case by (simp add: job_passes_def run_lifecycle_job_window)
qed

section \<open>Properties\<close>

definition sample_lifecycle_record :: lifecycle_record where
  "sample_lifecycle_record =
     \<lparr>lr_id = ''m1'', lr_organizationId = ''acme'', lr_projectId = None, lr_content = ''x'',
      lr_expiresAt = Some 100, lr_retention = ''ephemeral'', lr_legalHold = False, lr_archived = False,
      lr_deleted = False, lr_supersededBy = None, lr_renewals = 0, lr_version = 1\<rparr>"

definition at_time :: "int \<Rightarrow> action_options" where
  "at_time t = \<lparr>ao_now = t, ao_supersededBy = None, ao_renewForMs = None, ao_maxRenewals = None\<rparr>"

text \<open>C9. A legal hold is absolute for destruction: no sequence of actions, at whatever times and with
  whatever options, deletes, archives, renews or changes the expiry or the content of a held
  record, and the hold itself stays.\<close>

theorem held_record_survives:
  assumes "lr_legalHold r" and "\<not> lr_deleted r"
  shows "lr_legalHold (foldl after_action r xs) \<and> \<not> lr_deleted (foldl after_action r xs) \<and>
    lr_archived (foldl after_action r xs) = lr_archived r \<and>
    lr_expiresAt (foldl after_action r xs) = lr_expiresAt r \<and>
    lr_content (foldl after_action r xs) = lr_content r \<and>
    lr_renewals (foldl after_action r xs) = lr_renewals r"
  using run_held [OF assms, of xs] by (simp add: Let_def)

theorem held_record_survives_witness:
  "\<not> lr_deleted (foldl after_action (sample_lifecycle_record\<lparr>lr_legalHold := True\<rparr>)
      [(Delete, at_time 500), (Archive, at_time 600)])"
  using held_record_survives [of "sample_lifecycle_record\<lparr>lr_legalHold := True\<rparr>"
      "[(Delete, at_time 500), (Archive, at_time 600)]"]
  by (simp add: sample_lifecycle_record_def)

text \<open>A record is deleted only after it expired, and deletion is terminal. When a sequence of
  actions ends in a deleted record, one of them was a deletion at or after the expiry the record
  then had, while it was neither held nor archived nor superseded, and nothing after it changed
  the record.\<close>

theorem deletion_needs_expiry:
  assumes "\<not> lr_deleted r" and "lr_deleted (foldl after_action r xs)"
  shows "\<exists>pre opt post t. xs = pre @ (Delete, opt) # post \<and>
    \<not> lr_deleted (foldl after_action r pre) \<and> \<not> lr_legalHold r \<and>
    lr_expiresAt (foldl after_action r pre) = Some t \<and> t \<le> ao_now opt \<and>
    \<not> lr_archived (foldl after_action r pre) \<and> lr_supersededBy (foldl after_action r pre) = None \<and>
    foldl after_action r xs = after_action (foldl after_action r pre) (Delete, opt)"
  using assms
proof (induction xs rule: rev_induct)
  case Nil
  then show ?case by simp
next
  case (snoc x xs)
  let ?q = "foldl after_action r xs"
  have hold: "lr_legalHold (foldl after_action r ys) = lr_legalHold r" for ys
    by (induction ys rule: rev_induct) simp_all
  show ?case
  proof (cases "lr_deleted ?q")
    case True
    from snoc.IH [OF snoc.prems(1) True] obtain pre opt post t where
      p: "xs = pre @ (Delete, opt) # post" "\<not> lr_deleted (foldl after_action r pre)" "\<not> lr_legalHold r"
      "lr_expiresAt (foldl after_action r pre) = Some t" "t \<le> ao_now opt"
      "\<not> lr_archived (foldl after_action r pre)" "lr_supersededBy (foldl after_action r pre) = None"
      "?q = after_action (foldl after_action r pre) (Delete, opt)" by blast
    have "foldl after_action r (xs @ [x]) = ?q" using True by (simp add: after_action_deleted)
    moreover from p(1) have "xs @ [x] = pre @ (Delete, opt) # (post @ [x])" by simp
    ultimately show ?thesis using p(2-8) by metis
  next
    case False
    obtain a opt where x: "x = (a, opt)" by (cases x)
    from snoc.prems(2) after_action_deletes [OF False, of x] x
    have d: "a = Delete" "\<not> lr_legalHold ?q" "expired_now ?q (ao_now opt)" by simp_all
    from d(3) obtain t where "lr_expiresAt ?q = Some t" "t \<le> ao_now opt" "\<not> lr_archived ?q"
      "lr_supersededBy ?q = None" by (auto simp: expired_now_iff)
    with d x False hold [of xs] show ?thesis
      by (intro exI [of _ xs] exI [of _ opt] exI [of _ "[]"] exI [of _ t]) simp
  qed
qed

theorem deletion_needs_expiry_witness:
  "\<exists>pre opt post t. [(Delete, at_time 50), (Delete, at_time 500)] = pre @ (Delete, opt) # post \<and>
    lr_expiresAt (foldl after_action sample_lifecycle_record pre) = Some t \<and> t \<le> ao_now opt"
proof -
  have "\<not> lr_deleted sample_lifecycle_record"
    "lr_deleted (foldl after_action sample_lifecycle_record [(Delete, at_time 50), (Delete, at_time 500)])"
    by code_simp+
  from deletion_needs_expiry [OF this] show ?thesis by blast
qed

text \<open>C10. What one pass of the job does, record by record. The result has the records of the input in
  their order; a record is replaced by its tombstone exactly when it belongs to the tenant, is
  within the batch limit, is not held and is expired at the job's time; every other record is
  returned untouched, the foreign ones and the overflow included. The deletions counted are the
  records changed, and never more than the limit allows.\<close>

theorem job_deletes_exactly:
  "length (jb_updated (run_lifecycle_job rs opt)) = length rs \<and>
   (\<forall>i < length rs. jb_updated (run_lifecycle_job rs opt) ! i =
      (if \<not> foreign_to opt (rs ! i) \<and> int (in_tenant_before opt rs i) < job_limit opt \<and>
          \<not> lr_legalHold (rs ! i) \<and> expired_now (rs ! i) (jo_now opt)
       then tombstone (rs ! i) else rs ! i)) \<and>
   jb_deleted (run_lifecycle_job rs opt) =
     card {i. i < length rs \<and> jb_updated (run_lifecycle_job rs opt) ! i \<noteq> rs ! i}"
  by (simp add: run_lifecycle_job_window window_nth tally_count disposed_def)

theorem job_deletes_exactly_witness:
  "jb_updated (run_lifecycle_job [sample_lifecycle_record]
      \<lparr>jo_now = 100, jo_batchLimit = None, jo_organizationId = Some ''acme''\<rparr>) ! 0 = tombstone sample_lifecycle_record"
  using job_deletes_exactly [of "[sample_lifecycle_record]"
      "\<lparr>jo_now = 100, jo_batchLimit = None, jo_organizationId = Some ''acme''\<rparr>"]
  by (simp add: sample_lifecycle_record_def foreign_to_def in_tenant_before_def job_limit_def expired_now_iff)

text \<open>The job is idempotent: run again on the records it returned, with the same options, it deletes
  nothing and returns them unchanged, so a restarted job deletes no record twice.\<close>

theorem job_idempotent:
  "jb_updated (run_lifecycle_job (jb_updated (run_lifecycle_job rs opt)) opt) =
     jb_updated (run_lifecycle_job rs opt) \<and>
   jb_deleted (run_lifecycle_job (jb_updated (run_lifecycle_job rs opt)) opt) = 0"
  by (simp add: run_lifecycle_job_window window_twice)

text \<open>C11. The job never gets past its batch limit. Every record of the tenant counts towards the limit,
  deleted, active and held ones too, so a record that comes after as many records of its tenant
  as the limit allows is never processed, however often the job runs on what it returned and
  however long ago that record expired.\<close>

theorem overflow_never_processed:
  assumes "i < length rs" and "0 \<le> n"
    and "n \<le> int (length (filter (\<lambda>r. org = None \<or> Some (lr_organizationId r) = org) (take i rs)))"
  shows "job_passes org (Some n) clocks rs ! i = rs ! i"
proof -
  have "in_tenant_before \<lparr>jo_now = 0, jo_batchLimit = Some n, jo_organizationId = org\<rparr> rs i =
      length (filter (\<lambda>r. org = None \<or> Some (lr_organizationId r) = org) (take i rs))"
    unfolding in_tenant_before_def foreign_to_def by (rule arg_cong [where f = length], rule filter_cong) auto
  with assms(1,3) show ?thesis by (intro passes_skip_overflow) (simp_all add: job_limit_def)
qed

theorem overflow_never_processed_witness:
  "job_passes (Some ''acme'') (Some 1) [1000, 2000, 3000]
      [sample_lifecycle_record\<lparr>lr_expiresAt := None\<rparr>, sample_lifecycle_record] ! 1 = sample_lifecycle_record"
  using overflow_never_processed [of 1 "[sample_lifecycle_record\<lparr>lr_expiresAt := None\<rparr>, sample_lifecycle_record]"
      1 "Some ''acme''" "[1000, 2000, 3000]"]
  by (simp add: sample_lifecycle_record_def)

end
