(* ===== verification/RateLimiter.thy ===== *)
theory RateLimiter
  imports Errors
begin

text \<open>
  \<open>src/rate-limiter.ts\<close>: the opaque identity of a decision and the sliding-window limiter over a
  bounded map of identities. The clock is an argument of every operation, in milliseconds. The
  locale \<open>charged_budget\<close> is the \<open>RateLimiter\<close> interface as its clients use it; it is interpreted
  here on the in-process limiter, and the quota policy is its client.
\<close>

section \<open>Identities\<close>

definition rate_limit_dimensions :: "string list" where
  "rate_limit_dimensions =
     [''global'', ''organization'', ''project'', ''user'', ''agent'', ''apikey'', ''ip'', ''endpoint'', ''provider'']"

record rate_identity =
  ri_dimensions :: "string \<Rightarrow> string option"
  ri_key :: string

definition opaque_value :: "string \<Rightarrow> bool" where
  "opaque_value s = hex_digest 8 128 s"

definition rate_limit_identity :: "(string \<Rightarrow> string option) \<Rightarrow> rate_identity result" where
  "rate_limit_identity dims =
     (let names = filter (\<lambda>n. truthy (dims n)) rate_limit_dimensions;
          part = (\<lambda>n. n @ ''='' @ the (dims n))
      in if \<not> list_all (\<lambda>n. opaque_value (the (dims n))) names then Inl INVALID_INPUT
         else Inr \<lparr>ri_dimensions = dims,
           ri_key = (if names \<noteq> [] then join_with ''&'' (map part names) else ''global'')\<rparr>)"

section \<open>State\<close>

record limiter_config =
  lc_limit :: nat
  lc_windowMs :: int
  lc_maxIdentities :: nat
  lc_sweepEvery :: nat

record rate_window =
  rw_timestamps :: "int list"
  rw_lastAccess :: nat

record limiter =
  li_windows :: "(string, rate_window) js_map"
  li_accessCounter :: nat
  li_operations :: nat
  li_evicted :: nat

record rate_result =
  rr_allowed :: bool
  rr_remaining :: nat
  rr_retryAfterMs :: int
  rr_limit :: nat
  rr_windowMs :: int
  rr_dimension :: "string option"

definition safe_positive :: "int \<Rightarrow> bool" where
  "safe_positive n \<longleftrightarrow> 1 \<le> n \<and> n \<le> 2 ^ 53 - 1"

text \<open>The constructor: absent options take their defaults and every option must be a safe positive
  integer.\<close>

definition or_default :: "int \<Rightarrow> int option \<Rightarrow> int" where
  "or_default d v = (case v of None \<Rightarrow> d | Some n \<Rightarrow> n)"

definition new_limiter_config ::
  "int option \<Rightarrow> int option \<Rightarrow> int option \<Rightarrow> int option \<Rightarrow> limiter_config result" where
  "new_limiter_config limit_opt window_opt max_opt sweep_opt =
     (let n = or_default 60 limit_opt; w = or_default 60000 window_opt;
          m = or_default 10000 max_opt; s = or_default 256 sweep_opt
      in if \<not> safe_positive n then Inl INVALID_INPUT
         else if \<not> safe_positive w then Inl INVALID_INPUT
         else if \<not> safe_positive m then Inl INVALID_INPUT
         else if \<not> safe_positive s then Inl INVALID_INPUT
         else Inr \<lparr>lc_limit = nat n, lc_windowMs = w, lc_maxIdentities = nat m, lc_sweepEvery = nat s\<rparr>)"

definition new_limiter :: limiter where
  "new_limiter = \<lparr>li_windows = [], li_accessCounter = 0, li_operations = 0, li_evicted = 0\<rparr>"

section \<open>Operations\<close>

text \<open>A window stays while its newest timestamp is inside the window.\<close>

definition window_live :: "limiter_config \<Rightarrow> int \<Rightarrow> rate_window \<Rightarrow> bool" where
  "window_live c now w \<longleftrightarrow>
     rw_timestamps w \<noteq> [] \<and> now - last (rw_timestamps w) < lc_windowMs c"

definition sweep_windows :: "limiter_config \<Rightarrow> int \<Rightarrow> limiter \<Rightarrow> limiter" where
  "sweep_windows c now s = s\<lparr>li_windows := map_keep (\<lambda>k w. window_live c now w) (li_windows s)\<rparr>"

text \<open>The least recently used window, the first of the map among equals.\<close>

fun oldest_window :: "(string \<times> nat) option \<Rightarrow> (string, rate_window) js_map \<Rightarrow> string option" where
  "oldest_window best [] = map_option fst best"
| "oldest_window best ((k, w) # ws) =
     (case best of
        None \<Rightarrow> oldest_window (Some (k, rw_lastAccess w)) ws
      | Some (j, a) \<Rightarrow>
          oldest_window (if rw_lastAccess w < a then Some (k, rw_lastAccess w) else best) ws)"

definition evict_window :: "limiter_config \<Rightarrow> int \<Rightarrow> limiter \<Rightarrow> limiter" where
  "evict_window c now s =
     (let s = sweep_windows c now s in
      if length (li_windows s) < lc_maxIdentities c then s
      else case oldest_window None (li_windows s) of
          None \<Rightarrow> s
        | Some k \<Rightarrow> s\<lparr>li_windows := AList.delete k (li_windows s), li_evicted := li_evicted s + 1\<rparr>)"

text \<open>Find or admit the identity's window; the access counter moves once to admit and once to use.\<close>

definition admit_window :: "limiter_config \<Rightarrow> int \<Rightarrow> string \<Rightarrow> limiter \<Rightarrow> limiter" where
  "admit_window c now key s =
     (case map_of (li_windows s) key of
        Some w \<Rightarrow> s
      | None \<Rightarrow>
          (let s = (if length (li_windows s) \<ge> lc_maxIdentities c then evict_window c now s else s)
           in s\<lparr>li_windows := AList.update key
                  \<lparr>rw_timestamps = [], rw_lastAccess = li_accessCounter s\<rparr> (li_windows s),
                li_accessCounter := li_accessCounter s + 1\<rparr>))"

definition window_of :: "limiter \<Rightarrow> string \<Rightarrow> rate_window" where
  "window_of s key =
     (case map_of (li_windows s) key of
        Some w \<Rightarrow> w
      | None \<Rightarrow> \<lparr>rw_timestamps = [], rw_lastAccess = 0\<rparr>)"

definition limiter_evaluate ::
  "limiter_config \<Rightarrow> int \<Rightarrow> string \<Rightarrow> bool \<Rightarrow> limiter \<Rightarrow> rate_result \<times> limiter" where
  "limiter_evaluate c now key charge s =
     (let s = admit_window c now key s;
          live = dropWhile (\<lambda>t. now - t \<ge> lc_windowMs c) (rw_timestamps (window_of s key));
          used = length live;
          allowed = (used < lc_limit c);
          w = \<lparr>rw_timestamps = (if charge \<and> allowed then live @ [now] else live),
               rw_lastAccess = li_accessCounter s\<rparr>;
          s = s\<lparr>li_windows := AList.update key w (li_windows s),
                li_accessCounter := li_accessCounter s + 1, li_operations := li_operations s + 1\<rparr>;
          s = (if li_operations s mod lc_sweepEvery c = 0 then sweep_windows c now s else s)
      in (\<lparr>rr_allowed = allowed,
           rr_remaining = lc_limit c - used - (if charge \<and> allowed then 1 else 0),
           rr_retryAfterMs = (if allowed then 0 else max 0 (hd live + lc_windowMs c - now)),
           rr_limit = lc_limit c, rr_windowMs = lc_windowMs c, rr_dimension = None\<rparr>, s))"

definition limiter_check :: "limiter_config \<Rightarrow> int \<Rightarrow> string \<Rightarrow> limiter \<Rightarrow> rate_result \<times> limiter" where
  "limiter_check c now key s = limiter_evaluate c now key False s"

definition limiter_consume :: "limiter_config \<Rightarrow> int \<Rightarrow> string \<Rightarrow> limiter \<Rightarrow> rate_result \<times> limiter" where
  "limiter_consume c now key s = limiter_evaluate c now key True s"

definition limiter_reset :: "string \<Rightarrow> limiter \<Rightarrow> limiter" where
  "limiter_reset key s = s\<lparr>li_windows := AList.delete key (li_windows s)\<rparr>"

definition limiter_clear :: "limiter \<Rightarrow> limiter" where
  "limiter_clear s = s\<lparr>li_windows := []\<rparr>"

section \<open>The invariant\<close>

definition config_ok :: "limiter_config \<Rightarrow> bool" where
  "config_ok c \<longleftrightarrow> 1 \<le> lc_limit c \<and> 1 \<le> lc_windowMs c \<and> 1 \<le> lc_maxIdentities c \<and> 1 \<le> lc_sweepEvery c"

definition window_ok :: "limiter_config \<Rightarrow> int \<Rightarrow> rate_window \<Rightarrow> bool" where
  "window_ok c now w \<longleftrightarrow> sorted (rw_timestamps w) \<and> (\<forall>t \<in> set (rw_timestamps w). t \<le> now) \<and>
     length (rw_timestamps w) \<le> lc_limit c"

definition limiter_ok :: "limiter_config \<Rightarrow> int \<Rightarrow> limiter \<Rightarrow> bool" where
  "limiter_ok c now s \<longleftrightarrow> config_ok c \<and> map_ok (li_windows s) \<and>
     length (li_windows s) \<le> lc_maxIdentities c \<and>
     (\<forall>k w. map_of (li_windows s) k = Some w \<longrightarrow> window_ok c now w)"

definition recent :: "limiter_config \<Rightarrow> int \<Rightarrow> int list \<Rightarrow> int list" where
  "recent c now ts = filter (\<lambda>t. now - t < lc_windowMs c) ts"

text \<open>The charges of an identity that still count at an instant.\<close>

definition live_charges :: "limiter_config \<Rightarrow> int \<Rightarrow> limiter \<Rightarrow> string \<Rightarrow> int list" where
  "live_charges c now s k = recent c now (rw_timestamps (window_of s k))"

lemma window_ok_mono: "window_ok c t w \<Longrightarrow> t \<le> now \<Longrightarrow> window_ok c now w"
  by (auto simp: window_ok_def)

lemma limiter_ok_mono: "limiter_ok c t s \<Longrightarrow> t \<le> now \<Longrightarrow> limiter_ok c now s"
  by (auto simp: limiter_ok_def intro: window_ok_mono)

lemma recent_append [simp]: "recent c now (xs @ ys) = recent c now xs @ recent c now ys"
  by (simp add: recent_def)

lemma recent_Nil [simp]: "recent c now [] = []"
  by (simp add: recent_def)

lemma recent_recent: "t \<le> now \<Longrightarrow> recent c now (recent c t xs) = recent c now xs"
  unfolding recent_def filter_filter by (rule filter_cong) auto

lemma dropWhile_recent: "sorted ts \<Longrightarrow> dropWhile (\<lambda>t. now - t \<ge> lc_windowMs c) ts = recent c now ts"
proof (induction ts)
  case Nil
  then show ?case by (simp add: recent_def)
next
  case (Cons t ts)
  then have "\<forall>u \<in> set ts. t \<le> u" by simp
  then have "now - t < lc_windowMs c \<Longrightarrow> filter (\<lambda>t. now - t < lc_windowMs c) ts = ts"
    by (intro filter_True) auto
  with Cons show ?case by (auto simp: recent_def)
qed

lemma recent_of_stale:
  assumes "window_ok c t w" and "\<not> window_live c now w" and "now \<le> now'"
  shows "recent c now' (rw_timestamps w) = []"
proof (cases "rw_timestamps w = []")
  case True
  then show ?thesis by (simp add: recent_def)
next
  case False
  then have whole: "butlast (rw_timestamps w) @ [last (rw_timestamps w)] = rw_timestamps w" by simp
  have "sorted (butlast (rw_timestamps w) @ [last (rw_timestamps w)])"
    using assms(1) unfolding whole by (simp add: window_ok_def)
  then have "\<forall>u \<in> set (butlast (rw_timestamps w) @ [last (rw_timestamps w)]). u \<le> last (rw_timestamps w)"
    by (auto simp: sorted_append)
  then have "\<forall>u \<in> set (rw_timestamps w). u \<le> last (rw_timestamps w)" unfolding whole .
  with assms(2,3) False have "\<forall>u \<in> set (rw_timestamps w). \<not> now' - u < lc_windowMs c"
    by (auto simp: window_live_def)
  then show ?thesis by (simp add: recent_def filter_empty_conv)
qed

section \<open>Sweeping and evicting\<close>

lemma sweep_ok: "limiter_ok c now s \<Longrightarrow> limiter_ok c now (sweep_windows c now' s)"
  using length_keep [of "\<lambda>k w. window_live c now' w" "li_windows s"]
  by (auto simp: limiter_ok_def sweep_windows_def get_keep split: option.splits if_splits)

lemma sweep_live:
  assumes "limiter_ok c t s" and "now \<le> now'"
  shows "live_charges c now' (sweep_windows c now s) k = live_charges c now' s k"
proof (cases "map_of (li_windows s) k")
  case None
  with assms(1) show ?thesis
    by (simp add: live_charges_def window_of_def sweep_windows_def limiter_ok_def get_keep)
next
  case (Some w)
  with assms(1) have "window_ok c t w" "map_ok (li_windows s)" by (simp_all add: limiter_ok_def)
  with Some recent_of_stale [OF this(1) _ assms(2)] show ?thesis
    by (simp add: live_charges_def window_of_def sweep_windows_def get_keep)
qed

lemma oldest_window_Some: "oldest_window (Some b) ws \<noteq> None"
  by (induction ws arbitrary: b) (auto split: prod.splits)

lemma oldest_window_in:
  "oldest_window best ws = Some k \<Longrightarrow> k \<in> fst ` set ws \<or> (\<exists>a. best = Some (k, a))"
proof (induction ws arbitrary: best)
  case Nil
  then show ?case by (cases best) auto
next
  case (Cons jw ws)
  obtain j w where jw: "jw = (j, w)" by (cases jw)
  show ?case
  proof (cases best)
    case None
    with Cons.prems jw Cons.IH [of "Some (j, rw_lastAccess w)"] show ?thesis by auto
  next
    case (Some ia)
    obtain i a where ia: "ia = (i, a)" by (cases ia)
    show ?thesis
      using Cons.prems Cons.IH [of "Some (j, rw_lastAccess w)"] Cons.IH [of "Some (i, a)"]
      unfolding Some ia jw by (cases "rw_lastAccess w < a") auto
  qed
qed

lemma length_update_le: "length (AList.update k v m) \<le> Suc (length m)"
  by (induction m) (auto split: if_splits)

lemma evict_ok:
  assumes "limiter_ok c now s"
  shows "limiter_ok c now (evict_window c now s)" "length (li_windows (evict_window c now s)) < lc_maxIdentities c"
proof -
  let ?s = "sweep_windows c now s"
  have ok: "limiter_ok c now ?s" using assms by (rule sweep_ok)
  have "limiter_ok c now (evict_window c now s) \<and>
    length (li_windows (evict_window c now s)) < lc_maxIdentities c"
  proof (cases "length (li_windows ?s) < lc_maxIdentities c")
    case True
    with ok show ?thesis by (simp add: evict_window_def)
  next
    case False
    with ok have "li_windows ?s \<noteq> []" by (auto simp: limiter_ok_def config_ok_def)
    then obtain k w ws where ws: "li_windows ?s = (k, w) # ws" by (metis list.exhaust surj_pair)
    then have "oldest_window None (li_windows ?s) = oldest_window (Some (k, rw_lastAccess w)) ws" by simp
    with oldest_window_Some obtain j where j: "oldest_window None (li_windows ?s) = Some j" by fastforce
    with oldest_window_in [OF j] have has: "map_has (li_windows ?s) j" by (simp add: map_has_iff_key)
    have mok: "map_ok (li_windows ?s)" using ok by (simp add: limiter_ok_def)
    have len: "Suc (length (AList.delete j (li_windows ?s))) = length (li_windows ?s)"
      by (rule length_delete_present [OF mok has])
    have "evict_window c now s = ?s\<lparr>li_windows := AList.delete j (li_windows ?s), li_evicted := li_evicted ?s + 1\<rparr>"
      using False j by (simp add: evict_window_def Let_def)
    with ok len show ?thesis by (auto simp: limiter_ok_def table_simps)
  qed
  then show "limiter_ok c now (evict_window c now s)" "length (li_windows (evict_window c now s)) < lc_maxIdentities c"
    by simp_all
qed

lemma evict_live:
  assumes "limiter_ok c t s" "now \<le> now'"
  shows "live_charges c now' (evict_window c now s) k = live_charges c now' s k \<or>
    live_charges c now' (evict_window c now s) k = []"
    and "li_evicted (evict_window c now s) = li_evicted s \<Longrightarrow>
      live_charges c now' (evict_window c now s) k = live_charges c now' s k"
    and "li_evicted s \<le> li_evicted (evict_window c now s)"
  using sweep_live [OF assms, of k]
  by (auto simp: evict_window_def live_charges_def window_of_def sweep_windows_def table_simps Let_def
      split: option.splits if_splits)

lemma admit_ok:
  assumes "limiter_ok c now s"
  shows "limiter_ok c now (admit_window c now k s)" "map_has (li_windows (admit_window c now k s)) k"
proof -
  have room: "limiter_ok c now s' \<Longrightarrow> length (li_windows s') < lc_maxIdentities c \<Longrightarrow>
      limiter_ok c now (s'\<lparr>li_windows := AList.update k \<lparr>rw_timestamps = [], rw_lastAccess = n\<rparr> (li_windows s'),
        li_accessCounter := m\<rparr>)" for s' n m
    using length_update_le [of k "\<lparr>rw_timestamps = [], rw_lastAccess = n\<rparr>" "li_windows s'"]
    by (auto simp: limiter_ok_def table_simps window_ok_def intro: order_trans)
  show "limiter_ok c now (admit_window c now k s)"
    using assms evict_ok [OF assms] room
    by (auto simp: admit_window_def Let_def split: option.splits)
  show "map_has (li_windows (admit_window c now k s)) k"
    by (auto simp: admit_window_def Let_def map_has_def table_simps split: option.splits)
qed

lemma admit_live_other:
  assumes "limiter_ok c t s" "now \<le> now'"
  shows "live_charges c now' (admit_window c now k s) j = live_charges c now' s j \<or>
      j \<noteq> k \<and> live_charges c now' (admit_window c now k s) j = []"
    and "li_evicted (admit_window c now k s) = li_evicted s \<Longrightarrow>
      live_charges c now' (admit_window c now k s) j = live_charges c now' s j"
    and "li_evicted s \<le> li_evicted (admit_window c now k s)"
  using evict_live(1,2) [OF assms, of j] evict_live(3) [OF assms]
  by (auto simp: admit_window_def Let_def live_charges_def window_of_def table_simps split: option.splits)

section \<open>One decision\<close>

text \<open>The state before the periodic sweep: the identity's window with its live charges.\<close>

definition store_window :: "string \<Rightarrow> int list \<Rightarrow> limiter \<Rightarrow> limiter" where
  "store_window key ts s =
     s\<lparr>li_windows := AList.update key \<lparr>rw_timestamps = ts, rw_lastAccess = li_accessCounter s\<rparr> (li_windows s),
       li_accessCounter := li_accessCounter s + 1, li_operations := li_operations s + 1\<rparr>"

definition charged_list :: "limiter_config \<Rightarrow> int \<Rightarrow> string \<Rightarrow> bool \<Rightarrow> limiter \<Rightarrow> int list" where
  "charged_list c now key charge s =
     (let live = live_charges c now s key
      in if charge \<and> length live < lc_limit c then live @ [now] else live)"

lemma live_admit_self:
  "limiter_ok c t s \<Longrightarrow> t \<le> now \<Longrightarrow> now \<le> now' \<Longrightarrow>
    live_charges c now' (admit_window c now k s) k = live_charges c now' s k"
  using admit_live_other(1) [of c t s now now' k k] by blast

lemma evaluate_unfold:
  assumes "limiter_ok c t s" "t \<le> now"
  shows "fst (limiter_evaluate c now key charge s) =
      \<lparr>rr_allowed = (length (live_charges c now s key) < lc_limit c),
       rr_remaining = lc_limit c - length (charged_list c now key charge s),
       rr_retryAfterMs = (if length (live_charges c now s key) < lc_limit c then 0
         else max 0 (hd (live_charges c now s key) + lc_windowMs c - now)),
       rr_limit = lc_limit c, rr_windowMs = lc_windowMs c, rr_dimension = None\<rparr>" (is ?f)
    and "snd (limiter_evaluate c now key charge s) =
      (let s' = store_window key (charged_list c now key charge s) (admit_window c now key s)
       in if li_operations s' mod lc_sweepEvery c = 0 then sweep_windows c now s' else s')" (is ?s)
proof -
  let ?a = "admit_window c now key s"
  have "limiter_ok c now s" using assms by (rule limiter_ok_mono)
  from admit_ok [OF this] have ok: "limiter_ok c now ?a" "map_has (li_windows ?a) key" by simp_all
  then have "sorted (rw_timestamps (window_of ?a key))"
    by (auto simp: limiter_ok_def window_of_def window_ok_def map_has_def split: option.splits)
  then have "dropWhile (\<lambda>t. now - t \<ge> lc_windowMs c) (rw_timestamps (window_of ?a key)) = live_charges c now ?a key"
    by (simp add: dropWhile_recent live_charges_def)
  with live_admit_self [OF assms order_refl]
  have live: "dropWhile (\<lambda>t. now - t \<ge> lc_windowMs c) (rw_timestamps (window_of ?a key)) = live_charges c now s key"
    by simp
  show ?f ?s
    by (simp_all add: limiter_evaluate_def Let_def live charged_list_def store_window_def)
qed

lemma live_store:
  "live_charges c now (store_window key ts s) j = (if j = key then recent c now ts else live_charges c now s j)"
  by (simp add: live_charges_def window_of_def store_window_def table_simps)

lemma live_le: "limiter_ok c t s \<Longrightarrow> length (live_charges c now s k) \<le> lc_limit c"
  by (auto simp: live_charges_def recent_def window_of_def limiter_ok_def window_ok_def
      intro: order_trans [OF length_filter_le] split: option.splits)

lemma live_sorted: "limiter_ok c t s \<Longrightarrow> sorted (live_charges c now s k) \<and> (\<forall>u \<in> set (live_charges c now s k). u \<le> t)"
  by (auto simp: live_charges_def recent_def window_of_def limiter_ok_def window_ok_def sorted_wrt_filter
      split: option.splits)

lemma store_ok:
  assumes "limiter_ok c now s" "map_has (li_windows s) key" "window_ok c now \<lparr>rw_timestamps = ts, rw_lastAccess = n\<rparr>"
  shows "limiter_ok c now (store_window key ts s)"
  using assms by (auto simp: limiter_ok_def store_window_def table_simps length_update_present window_ok_def)

lemma charged_list_ok:
  assumes "limiter_ok c t s" "t \<le> now"
  shows "window_ok c now \<lparr>rw_timestamps = charged_list c now key charge s, rw_lastAccess = n\<rparr>"
  using live_sorted [OF assms(1), of now key] live_le [OF assms(1), of now key] assms(2)
  by (auto simp: window_ok_def charged_list_def Let_def sorted_append)

lemma recent_charged:
  assumes "limiter_ok c t s" "t \<le> now"
  shows "recent c now (charged_list c now key charge s) = charged_list c now key charge s"
  using assms
  by (auto simp: charged_list_def Let_def live_charges_def recent_recent recent_def limiter_ok_def config_ok_def)

lemma evaluate_facts:
  assumes ok: "limiter_ok c t s" and t: "t \<le> now"
  shows "rr_allowed (fst (limiter_evaluate c now key charge s)) \<longleftrightarrow> length (live_charges c now s key) < lc_limit c"
    and "limiter_ok c now (snd (limiter_evaluate c now key charge s))"
    and "now \<le> now' \<Longrightarrow> live_charges c now' (snd (limiter_evaluate c now key charge s)) key =
      recent c now' (charged_list c now key charge s)"
    and "now \<le> now' \<Longrightarrow> j \<noteq> key \<Longrightarrow>
      live_charges c now' (snd (limiter_evaluate c now key charge s)) j \<in> {live_charges c now' s j, []}"
    and "li_evicted s \<le> li_evicted (snd (limiter_evaluate c now key charge s))"
    and "now \<le> now' \<Longrightarrow> j \<noteq> key \<Longrightarrow> li_evicted (snd (limiter_evaluate c now key charge s)) = li_evicted s \<Longrightarrow>
      live_charges c now' (snd (limiter_evaluate c now key charge s)) j = live_charges c now' s j"
proof -
  let ?a = "admit_window c now key s"
  let ?p = "store_window key (charged_list c now key charge s) ?a"
  have okn: "limiter_ok c now s" using ok t by (rule limiter_ok_mono)
  have oka: "limiter_ok c now ?a" "map_has (li_windows ?a) key" using admit_ok [OF okn] by simp_all
  have okp: "limiter_ok c now ?p" by (rule store_ok [OF oka charged_list_ok [OF ok t]])
  note u = evaluate_unfold [OF ok t, of key charge]
  show "rr_allowed (fst (limiter_evaluate c now key charge s)) \<longleftrightarrow> length (live_charges c now s key) < lc_limit c"
    by (simp add: u(1))
  show "limiter_ok c now (snd (limiter_evaluate c now key charge s))"
    using okp sweep_ok [OF okp] by (simp add: u(2) Let_def)
  have swept: "live_charges c now' (snd (limiter_evaluate c now key charge s)) i = live_charges c now' ?p i"
    if "now \<le> now'" for i
    using sweep_live [OF okp that] by (simp add: u(2) Let_def)
  have ev: "li_evicted (snd (limiter_evaluate c now key charge s)) = li_evicted ?a"
    by (simp add: u(2) Let_def sweep_windows_def store_window_def)
  show "now \<le> now' \<Longrightarrow> live_charges c now' (snd (limiter_evaluate c now key charge s)) key =
      recent c now' (charged_list c now key charge s)"
    by (simp add: swept live_store)
  show "now \<le> now' \<Longrightarrow> j \<noteq> key \<Longrightarrow>
      live_charges c now' (snd (limiter_evaluate c now key charge s)) j \<in> {live_charges c now' s j, []}"
    using admit_live_other(1) [OF okn, of now now' key j] by (auto simp: swept live_store)
  show "li_evicted s \<le> li_evicted (snd (limiter_evaluate c now key charge s))"
    unfolding ev by (rule admit_live_other(3) [OF okn order_refl])
  show "now \<le> now' \<Longrightarrow> j \<noteq> key \<Longrightarrow> li_evicted (snd (limiter_evaluate c now key charge s)) = li_evicted s \<Longrightarrow>
      live_charges c now' (snd (limiter_evaluate c now key charge s)) j = live_charges c now' s j"
    using admit_live_other(2) [OF okn, of now now' key j] by (simp add: swept live_store ev)
qed

section \<open>The interface\<close>

text \<open>
  What a client of a rate limiter relies on: a decision looks only at the identity's own live
  charges, a speculative check charges nothing, a charge is recorded once when it is allowed and
  counts while it is alive, time only takes charges away, and the other identities keep their
  charges or, under the ceiling, lose them all.
\<close>

locale charged_budget =
  fixes evaluate :: "'c \<Rightarrow> int \<Rightarrow> 'k \<Rightarrow> bool \<Rightarrow> 's \<Rightarrow> rate_result \<times> 's"
    and live :: "'c \<Rightarrow> int \<Rightarrow> 's \<Rightarrow> 'k \<Rightarrow> int list"
    and alive :: "'c \<Rightarrow> int \<Rightarrow> int \<Rightarrow> bool"
    and limit_of :: "'c \<Rightarrow> nat"
    and ok :: "'c \<Rightarrow> int \<Rightarrow> 's \<Rightarrow> bool"
  assumes ok_later: "ok c t s \<Longrightarrow> t \<le> now \<Longrightarrow> ok c now s"
    and ok_evaluate: "ok c now s \<Longrightarrow> ok c now (snd (evaluate c now k charge s))"
    and live_later: "ok c now s \<Longrightarrow> now \<le> now' \<Longrightarrow> length (live c now' s k) \<le> length (live c now s k)"
    and verdict: "ok c now s \<Longrightarrow>
      rr_allowed (fst (evaluate c now k charge s)) \<longleftrightarrow> length (live c now s k) < limit_of c"
    and charged: "ok c now s \<Longrightarrow> now \<le> now' \<Longrightarrow> live c now' (snd (evaluate c now k charge s)) k =
      live c now' s k @
        (if charge \<and> length (live c now s k) < limit_of c \<and> alive c now' now then [now] else [])"
    and others: "ok c now s \<Longrightarrow> now \<le> now' \<Longrightarrow> j \<noteq> k \<Longrightarrow>
      live c now' (snd (evaluate c now k charge s)) j \<in> {live c now' s j, []}"
begin

lemma check_charges_nothing:
  "ok c now s \<Longrightarrow> now \<le> now' \<Longrightarrow> live c now' (snd (evaluate c now k False s)) k = live c now' s k"
  by (simp add: charged)

lemma denied_charges_nothing:
  "ok c now s \<Longrightarrow> now \<le> now' \<Longrightarrow> \<not> rr_allowed (fst (evaluate c now k charge s)) \<Longrightarrow>
    live c now' (snd (evaluate c now k charge s)) k = live c now' s k"
  by (simp add: verdict charged)

lemma allowed_later:
  assumes "ok c t s" "t \<le> now" "rr_allowed (fst (evaluate c t k charge s))"
  shows "rr_allowed (fst (evaluate c now k charge' s))"
  using assms live_later [OF assms(1,2), of k] ok_later [OF assms(1,2)] by (simp add: verdict)

lemma consume_after_check:
  assumes "ok c t s" "t \<le> now" "now \<le> now'" and "rr_allowed (fst (evaluate c t k False s))"
  shows "rr_allowed (fst (evaluate c now k True (snd (evaluate c t k False s))))"
    and "live c now' (snd (evaluate c now k True (snd (evaluate c t k False s)))) k =
      live c now' s k @ (if alive c now' now then [now] else [])"
proof -
  let ?s = "snd (evaluate c t k False s)"
  have ok: "ok c t ?s" by (rule ok_evaluate [OF assms(1)])
  then have okn: "ok c now ?s" by (rule ok_later [OF _ assms(2)])
  have "rr_allowed (fst (evaluate c t k False ?s))"
    using assms(1,4) ok by (simp add: verdict check_charges_nothing)
  then show a: "rr_allowed (fst (evaluate c now k True ?s))" by (rule allowed_later [OF ok assms(2)])
  show "live c now' (snd (evaluate c now k True ?s)) k = live c now' s k @ (if alive c now' now then [now] else [])"
    using charged [OF okn assms(3), of k True] a okn check_charges_nothing [OF assms(1), of now' k] assms(2,3)
    by (simp add: verdict)
qed

end

definition charge_alive :: "limiter_config \<Rightarrow> int \<Rightarrow> int \<Rightarrow> bool" where
  "charge_alive c now t \<longleftrightarrow> now - t < lc_windowMs c"

interpretation rl: charged_budget limiter_evaluate live_charges charge_alive lc_limit limiter_ok
proof unfold_locales
  show "limiter_ok c t s \<Longrightarrow> t \<le> now \<Longrightarrow> limiter_ok c now s" for c t s now
    by (rule limiter_ok_mono)
  show "limiter_ok c now s \<Longrightarrow> limiter_ok c now (snd (limiter_evaluate c now k charge s))" for c now s k charge
    by (rule evaluate_facts(2) [OF _ order_refl])
  show "limiter_ok c now s \<Longrightarrow> now \<le> now' \<Longrightarrow> length (live_charges c now' s k) \<le> length (live_charges c now s k)"
    for c now s now' k
    using recent_recent [of now now' c "rw_timestamps (window_of s k)"] length_filter_le
    by (metis live_charges_def recent_def)
  show "limiter_ok c now s \<Longrightarrow> rr_allowed (fst (limiter_evaluate c now k charge s)) \<longleftrightarrow>
      length (live_charges c now s k) < lc_limit c" for c now s k charge
    by (rule evaluate_facts(1) [OF _ order_refl])
  show "limiter_ok c now s \<Longrightarrow> now \<le> now' \<Longrightarrow> live_charges c now' (snd (limiter_evaluate c now k charge s)) k =
      live_charges c now' s k @
        (if charge \<and> length (live_charges c now s k) < lc_limit c \<and> charge_alive c now' now then [now] else [])"
    for c now s now' k charge
    using evaluate_facts(3) [where c = c and t = now and s = s and now = now and now' = now' and key = k and charge = charge]
    by (auto simp: charged_list_def Let_def live_charges_def recent_recent charge_alive_def) (simp_all add: recent_def)
  show "limiter_ok c now s \<Longrightarrow> now \<le> now' \<Longrightarrow> j \<noteq> k \<Longrightarrow>
      live_charges c now' (snd (limiter_evaluate c now k charge s)) j \<in> {live_charges c now' s j, []}"
    for c now s now' j k charge
    by (rule evaluate_facts(4) [OF _ order_refl])
qed

section \<open>Runs\<close>

text \<open>A run of decisions, each at its time, and the charges it admitted.\<close>

fun limiter_run :: "limiter_config \<Rightarrow> (int \<times> string \<times> bool) list \<Rightarrow> limiter \<Rightarrow> limiter \<times> (string \<times> int) list" where
  "limiter_run c [] s = (s, [])"
| "limiter_run c ((now, key, charge) # ops) s =
     (let (r, s') = limiter_evaluate c now key charge s;
          (s'', h) = limiter_run c ops s'
      in (s'', (if charge \<and> rr_allowed r then [(key, now)] else []) @ h))"

definition charges_of :: "string \<Rightarrow> (string \<times> int) list \<Rightarrow> int list" where
  "charges_of k h = map snd (filter (\<lambda>x. fst x = k) h)"

definition in_span :: "limiter_config \<Rightarrow> int \<Rightarrow> int list \<Rightarrow> int list" where
  "in_span c T ts = filter (\<lambda>t. T - lc_windowMs c < t \<and> t \<le> T) ts"

lemma charges_of_simps [simp]:
  "charges_of k [] = []"
  "charges_of k (x # h) = (if fst x = k then snd x # charges_of k h else charges_of k h)"
  "charges_of k (g @ h) = charges_of k g @ charges_of k h"
  by (simp_all add: charges_of_def)

lemma limiter_run_ok:
  "limiter_ok c t s \<Longrightarrow> sorted (map fst ops) \<Longrightarrow> \<forall>x \<in> set ops. t \<le> fst x \<Longrightarrow>
    \<exists>t'. limiter_ok c t' (fst (limiter_run c ops s))"
proof (induction ops arbitrary: s t)
  case Nil
  then show ?case by auto
next
  case (Cons x ops)
  obtain now key charge where x: "x = (now, key, charge)" by (cases x)
  have "limiter_ok c now (snd (limiter_evaluate c now key charge s))"
    using Cons.prems x by (intro evaluate_facts(2)) auto
  from Cons.IH [OF this] Cons.prems(2) x show ?case by (simp add: split_def Let_def)
qed

lemma evicted_grows:
  "limiter_ok c t s \<Longrightarrow> sorted (map fst ops) \<Longrightarrow> \<forall>x \<in> set ops. t \<le> fst x \<Longrightarrow>
    li_evicted s \<le> li_evicted (fst (limiter_run c ops s))"
proof (induction ops arbitrary: s t)
  case Nil
  then show ?case by simp
next
  case (Cons x ops)
  obtain now key charge where x: "x = (now, key, charge)" by (cases x)
  let ?s = "snd (limiter_evaluate c now key charge s)"
  have t: "t \<le> now" using Cons.prems(3) x by simp
  have "li_evicted ?s \<le> li_evicted (fst (limiter_run c ops ?s))"
    using evaluate_facts(2) [OF Cons.prems(1) t] Cons.prems(2) x by (intro Cons.IH) auto
  with evaluate_facts(5) [OF Cons.prems(1) t, of key charge] x show ?case
    by (simp add: split_def Let_def)
qed

lemma span_grows:
  assumes "\<forall>T. length (in_span c T hist) \<le> lc_limit c" "length (recent c now hist) < lc_limit c"
  shows "\<forall>T. length (in_span c T (hist @ [now])) \<le> lc_limit c"
proof
  fix T
  show "length (in_span c T (hist @ [now])) \<le> lc_limit c"
  proof (cases "T - lc_windowMs c < now \<and> now \<le> T")
    case True
    have "length (in_span c T hist) \<le> length (recent c now hist)"
    proof -
      have "in_span c T hist = filter (\<lambda>t. T - lc_windowMs c < t \<and> t \<le> T) (recent c now hist)"
        unfolding in_span_def recent_def filter_filter using True by (intro filter_cong) auto
      then show ?thesis by simp
    qed
    with assms(2) True show ?thesis by (simp add: in_span_def)
  next
    case False
    with assms(1) show ?thesis by (auto simp: in_span_def)
  qed
qed

lemma run_never_exceeds:
  assumes "limiter_ok c t s" "sorted (map fst ops)" "\<forall>x \<in> set ops. t \<le> fst x"
    and "li_evicted (fst (limiter_run c ops s)) = li_evicted s"
    and "\<forall>now \<ge> t. live_charges c now s k = recent c now hist"
    and "\<forall>T. length (in_span c T hist) \<le> lc_limit c"
  shows "\<forall>T. length (in_span c T (hist @ charges_of k (snd (limiter_run c ops s)))) \<le> lc_limit c"
  using assms
proof (induction ops arbitrary: s t hist)
  case Nil
  then show ?case by simp
next
  case (Cons x ops)
  obtain now key charge where x: "x = (now, key, charge)" by (cases x)
  define s' where "s' = snd (limiter_evaluate c now key charge s)"
  have t: "t \<le> now" using Cons.prems(3) x by simp
  note ev = evaluate_facts [OF Cons.prems(1) t, where key = key and charge = charge, folded s'_def]
  have rest: "sorted (map fst ops)" "\<forall>y \<in> set ops. now \<le> fst y" using Cons.prems(2) x by auto
  have final: "fst (limiter_run c (x # ops) s) = fst (limiter_run c ops s')"
    by (simp add: x split_def Let_def s'_def)
  have "li_evicted s' \<le> li_evicted (fst (limiter_run c ops s'))"
    by (rule evicted_grows [OF ev(2) rest])
  with ev(5) Cons.prems(4) final
  have noev: "li_evicted s' = li_evicted s" "li_evicted (fst (limiter_run c ops s')) = li_evicted s'"
    by simp_all
  let ?adm = "if key = k \<and> charge \<and> length (live_charges c now s key) < lc_limit c then [now] else []"
  have live: "\<forall>now' \<ge> now. live_charges c now' s' k = recent c now' (hist @ ?adm)"
  proof (intro allI impI)
    fix now' assume n: "now \<le> now'"
    show "live_charges c now' s' k = recent c now' (hist @ ?adm)"
    proof (cases "key = k")
      case True
      with ev(3) [OF n] Cons.prems(5) t n show ?thesis
        by (auto simp: charged_list_def Let_def recent_recent)
    next
      case False
      with ev(6) [OF n, of k] noev Cons.prems(5) t n show ?thesis by auto
    qed
  qed
  have span: "\<forall>T. length (in_span c T (hist @ ?adm)) \<le> lc_limit c"
    using Cons.prems(5,6) t span_grows [OF Cons.prems(6), of now] by auto
  have "\<forall>T. length (in_span c T ((hist @ ?adm) @ charges_of k (snd (limiter_run c ops s')))) \<le> lc_limit c"
    by (rule Cons.IH [OF ev(2) rest noev(2) live span])
  moreover have "charges_of k (snd (limiter_run c (x # ops) s)) = ?adm @ charges_of k (snd (limiter_run c ops s'))"
    using ev(1) by (auto simp: x split_def Let_def s'_def)
  ultimately show ?case by simp
qed

lemma new_limiter_ok: "config_ok c \<Longrightarrow> limiter_ok c t new_limiter"
  by (simp add: limiter_ok_def new_limiter_def)

section \<open>Properties\<close>


definition sample_limiter :: limiter_config where
  "sample_limiter = \<lparr>lc_limit = 1, lc_windowMs = 10, lc_maxIdentities = 2, lc_sweepEvery = 2\<rparr>"


end
