(* ===== verification/Quota.thy ===== *)
theory Quota
  imports RateLimiter Json
begin

text \<open>
  \<open>src/quota.ts\<close>: the validation of quota policies, the parser of \<open>REMEMBRA_QUOTAS\<close> on the value
  \<open>JSON.parse\<close> returns, and the limiter that charges a base budget and every configured dimension a
  request carries. The clock is read once per budget touched, so it is a function from the reading
  to its value. The serialisation of concurrent calls is the model's sequence of calls.
\<close>

section \<open>Policies\<close>

record quota_policy =
  qp_limit :: int
  qp_windowMs :: int

definition positive_safe :: "rat option option \<Rightarrow> int option" where
  "positive_safe v =
     (case v of None \<Rightarrow> None
      | Some q \<Rightarrow> (case safe_integer q of None \<Rightarrow> None | Some n \<Rightarrow> if n < 1 then None else Some n))"

text \<open>An absent field is \<open>None\<close>, a present number \<open>Some\<close> of its value.\<close>

definition assert_policy :: "rat option option \<Rightarrow> rat option option \<Rightarrow> quota_policy result" where
  "assert_policy max_req win =
     (case positive_safe max_req of
        None \<Rightarrow> Inl INVALID_INPUT
      | Some n \<Rightarrow>
          (case positive_safe win of
             None \<Rightarrow> Inl INVALID_INPUT
           | Some w \<Rightarrow> Inr \<lparr>qp_limit = n, qp_windowMs = w\<rparr>))"

definition int_field :: "int \<Rightarrow> rat option option" where
  "int_field n = Some (Some (of_int n))"

text \<open>A numeric field of a policy object: absent, a number, or something else.\<close>

fun numeric_field :: "(string \<times> json) list \<Rightarrow> string \<Rightarrow> rat option option result" where
  "numeric_field obj name =
     (case map_of obj name of
        None \<Rightarrow> Inr None
      | Some (JNum q) \<Rightarrow> Inr (Some q)
      | Some v \<Rightarrow> Inl INVALID_INPUT)"

definition parse_dimension :: "string \<times> json \<Rightarrow> (string \<times> quota_policy) result" where
  "parse_dimension entry =
     (if fst entry \<notin> set rate_limit_dimensions then Inl INVALID_INPUT
      else case snd entry of
          JObj obj \<Rightarrow>
            and_then (numeric_field obj ''limit'') (\<lambda>max_req.
            and_then (numeric_field obj ''windowMs'') (\<lambda>win.
            and_then (assert_policy max_req win) (\<lambda>p. Inr (fst entry, p))))
        | v \<Rightarrow> Inl INVALID_INPUT)"

text \<open>The raw variable with the result of \<open>JSON.parse\<close> on it, \<open>None\<close> when that throws.\<close>

definition is_blank :: "string \<Rightarrow> bool" where
  "is_blank s = list_all (\<lambda>c. in_range 9 13 c \<or> code_of c = 32 \<or> code_of c = 160) s"

definition parse_quota_policies ::
  "(string \<Rightarrow> json option) \<Rightarrow> string option \<Rightarrow> (string, quota_policy) js_map result" where
  "parse_quota_policies json_parse raw =
     (case raw of
        None \<Rightarrow> Inr []
      | Some s \<Rightarrow>
          (if is_blank s then Inr []
           else if length s > 16 * 1024 then Inl INVALID_INPUT
           else case json_parse s of
               Some (JObj entries) \<Rightarrow>
                 fold_res (\<lambda>acc e. and_then (parse_dimension e) (\<lambda>(d, p). Inr (AList.update d p acc)))
                   [] entries
             | v \<Rightarrow> Inl INVALID_INPUT))"

section \<open>The limiter\<close>

datatype budget = Base | Dimension string

record quota =
  qu_base :: quota_policy
  qu_policies :: "(string, quota_policy) js_map"
  qu_maxIdentities :: int

type_synonym quota_state = "budget \<Rightarrow> limiter"

definition default_base :: quota_policy where
  "default_base = \<lparr>qp_limit = 60, qp_windowMs = 60000\<rparr>"

definition quota_order :: "(string, quota_policy) js_map \<Rightarrow> string list" where
  "quota_order ps = filter (\<lambda>d. map_has ps d) rate_limit_dimensions"

definition assert_int_policy :: "quota_policy \<Rightarrow> quota_policy result" where
  "assert_int_policy p = assert_policy (int_field (qp_limit p)) (int_field (qp_windowMs p))"

definition limiter_for :: "int \<Rightarrow> quota_policy \<Rightarrow> limiter_config result" where
  "limiter_for max_ids p = new_limiter_config (Some (qp_limit p)) (Some (qp_windowMs p)) (Some max_ids) None"

text \<open>The constructor: every policy is validated, then a limiter is built for the base and for each
  dimension, in the declared order.\<close>

definition new_quota ::
  "quota_policy option \<Rightarrow> (string, quota_policy) js_map option \<Rightarrow> int option \<Rightarrow> quota result" where
  "new_quota base_opt policies_opt max_opt =
     (let given = (case policies_opt of None \<Rightarrow> [] | Some ps \<Rightarrow> ps);
          max_ids = or_default 10000 max_opt in
      and_then (assert_int_policy (case base_opt of None \<Rightarrow> default_base | Some b \<Rightarrow> b)) (\<lambda>base.
      and_then (fold_res (\<lambda>acc d.
          case map_of given d of
            None \<Rightarrow> Inr acc
          | Some p \<Rightarrow> and_then (assert_int_policy p) (\<lambda>p. Inr (AList.update d p acc)))
          [] rate_limit_dimensions) (\<lambda>policies.
      and_then (limiter_for max_ids base) (\<lambda>_.
      and_then (fold_res (\<lambda>acc d. and_then (limiter_for max_ids (the (map_of policies d))) (\<lambda>_. Inr acc))
          () (quota_order policies)) (\<lambda>_.
      Inr \<lparr>qu_base = base, qu_policies = policies, qu_maxIdentities = max_ids\<rparr>)))))"

definition to_config :: "int \<Rightarrow> quota_policy \<Rightarrow> limiter_config" where
  "to_config max_ids p =
     \<lparr>lc_limit = nat (qp_limit p), lc_windowMs = qp_windowMs p, lc_maxIdentities = nat max_ids, lc_sweepEvery = 256\<rparr>"

definition budget_config :: "quota \<Rightarrow> budget \<Rightarrow> limiter_config" where
  "budget_config q b =
     (case b of
        Base \<Rightarrow> to_config (qu_maxIdentities q) (qu_base q)
      | Dimension d \<Rightarrow>
          to_config (qu_maxIdentities q) (case map_of (qu_policies q) d of None \<Rightarrow> qu_base q | Some p \<Rightarrow> p))"

definition new_quota_state :: quota_state where
  "new_quota_state = (\<lambda>b. new_limiter)"

definition charged_identities :: "rate_identity \<Rightarrow> string \<Rightarrow> (budget \<times> string) list" where
  "charged_identities i d =
     (case ri_dimensions i d of None \<Rightarrow> [] | Some v \<Rightarrow> [(Dimension d, d @ ''='' @ v)])"

text \<open>The budgets a request touches, in the order the code touches them, the base last.\<close>

definition targets :: "quota \<Rightarrow> rate_identity \<Rightarrow> (budget \<times> string) list" where
  "targets q i = concat (map (charged_identities i) (quota_order (qu_policies q))) @ [(Base, ri_key i)]"

fun budget_label :: "budget \<Rightarrow> string" where
  "budget_label Base = ''global''"
| "budget_label (Dimension d) = d"

fun check_all :: "quota \<Rightarrow> (nat \<Rightarrow> int) \<Rightarrow> nat \<Rightarrow> (budget \<times> string) list \<Rightarrow> quota_state \<Rightarrow>
    rate_result list \<times> quota_state" where
  "check_all q clock n [] s = ([], s)"
| "check_all q clock n ((b, k) # ts) s =
     (let (r, l) = limiter_check (budget_config q b) (clock n) k (s b);
          (rs, s') = check_all q clock (Suc n) ts (s(b := l))
      in (r\<lparr>rr_dimension := Some (budget_label b)\<rparr> # rs, s'))"

fun consume_all :: "quota \<Rightarrow> (nat \<Rightarrow> int) \<Rightarrow> nat \<Rightarrow> (budget \<times> string) list \<Rightarrow> quota_state \<Rightarrow> quota_state" where
  "consume_all q clock n [] s = s"
| "consume_all q clock n ((b, k) # ts) s =
     (let (r, l) = limiter_consume (budget_config q b) (clock n) k (s b)
      in consume_all q clock (Suc n) ts (s(b := l)))"

fun tightest :: "rate_result \<Rightarrow> rate_result list \<Rightarrow> rate_result" where
  "tightest best [] = best"
| "tightest best (r # rs) = tightest (if rr_remaining r < rr_remaining best then r else best) rs"

definition quota_evaluate :: "quota \<Rightarrow> (nat \<Rightarrow> int) \<Rightarrow> rate_identity \<Rightarrow> bool \<Rightarrow> quota_state \<Rightarrow>
    rate_result \<times> quota_state" where
  "quota_evaluate q clock i charge s =
     (let ts = targets q i;
          (decisions, s') = check_all q clock 0 ts s
      in case filter (\<lambda>r. \<not> rr_allowed r) decisions of
          denial # _ \<Rightarrow> (denial, s')
        | [] \<Rightarrow>
            (let s'' = (if charge then consume_all q clock (length ts) ts s' else s');
                 best = tightest (hd decisions) decisions
             in (best\<lparr>rr_remaining := rr_remaining best - (if charge then 1 else 0)\<rparr>, s'')))"

definition quota_reset :: "quota \<Rightarrow> rate_identity \<Rightarrow> quota_state \<Rightarrow> quota_state" where
  "quota_reset q i s =
     fold (\<lambda>(b, k) s. s(b := limiter_reset k (s b)))
       ((Base, ri_key i) # concat (map (charged_identities i) (quota_order (qu_policies q)))) s"

section \<open>Facts\<close>

declare limiter_check_def [simp] limiter_consume_def [simp]

definition quota_ok :: "quota \<Rightarrow> int \<Rightarrow> quota_state \<Rightarrow> bool" where
  "quota_ok q t s \<longleftrightarrow> (\<forall>b. limiter_ok (budget_config q b) t (s b))"

lemma quota_ok_later: "quota_ok q t s \<Longrightarrow> t \<le> now \<Longrightarrow> quota_ok q now s"
  by (auto simp: quota_ok_def intro: rl.ok_later)

lemma quota_ok_update:
  assumes "quota_ok q t s" "t \<le> now"
  shows "quota_ok q now (s(b := snd (limiter_evaluate (budget_config q b) now k charge (s b))))"
  using quota_ok_later [OF assms] by (auto simp: quota_ok_def intro: rl.ok_evaluate)

lemma check_all_other: "b \<notin> fst ` set ts \<Longrightarrow> snd (check_all q clock n ts s) b = s b"
  by (induction ts arbitrary: n s) (auto simp: split_def Let_def)

lemma check_all_nth:
  assumes "mono clock" "quota_ok q t s" "t \<le> clock n" "distinct (map fst ts)" "i < length ts"
  shows "quota_ok q (clock (n + length ts)) (snd (check_all q clock n ts s)) \<and>
    (case ts ! i of (b, k) \<Rightarrow>
      snd (check_all q clock n ts s) b = snd (limiter_evaluate (budget_config q b) (clock (n + i)) k False (s b)) \<and>
      fst (check_all q clock n ts s) ! i =
        (fst (limiter_evaluate (budget_config q b) (clock (n + i)) k False (s b)))\<lparr>rr_dimension := Some (budget_label b)\<rparr>)"
  using assms(2-5)
proof (induction ts arbitrary: n s t i)
  case Nil
  then show ?case by simp
next
  case (Cons bk ts)
  obtain b k where bk: "bk = (b, k)" by (cases bk)
  define s1 where "s1 = s(b := snd (limiter_evaluate (budget_config q b) (clock n) k False (s b)))"
  have ok1: "quota_ok q (clock n) s1" unfolding s1_def using Cons.prems(1,2) by (rule quota_ok_update)
  have le: "clock n \<le> clock (Suc n)" using assms(1) by (simp add: mono_def)
  have nb: "b \<notin> fst ` set ts" and d: "distinct (map fst ts)" using Cons.prems(3) bk by auto
  have unf: "check_all q clock n ((b, k) # ts) s =
      ((fst (limiter_evaluate (budget_config q b) (clock n) k False (s b)))\<lparr>rr_dimension := Some (budget_label b)\<rparr> #
        fst (check_all q clock (Suc n) ts s1), snd (check_all q clock (Suc n) ts s1))"
    by (simp add: split_def Let_def s1_def)
  have ok: "quota_ok q (clock (n + length ((b, k) # ts))) (snd (check_all q clock n ((b, k) # ts) s))"
  proof (cases ts)
    case Nil
    with ok1 le show ?thesis unfolding unf by (simp add: quota_ok_later)
  next
    case (Cons x xs)
    with Cons.IH [OF ok1 le d, of 0] show ?thesis unfolding unf by simp
  qed
  show ?case
  proof (cases i)
    case 0
    have "snd (check_all q clock n ((b, k) # ts) s) b = s1 b"
      unfolding unf using check_all_other [OF nb] by simp
    with 0 ok show ?thesis unfolding bk by (simp add: unf s1_def del: check_all.simps)
  next
    case (Suc j)
    with Cons.prems(4) have j: "j < length ts" by simp
    obtain b' k' where bk': "ts ! j = (b', k')" by (cases "ts ! j")
    with j nb have "b' \<noteq> b" by (metis fst_conv image_eqI nth_mem)
    then have "s1 b' = s b'" by (simp add: s1_def)
    with Suc ok bk' Cons.IH [OF ok1 le d j] show ?thesis unfolding bk by (simp add: unf del: check_all.simps)
  qed
qed

lemma length_check_all [simp]: "length (fst (check_all q clock n ts s)) = length ts"
  by (induction ts arbitrary: n s) (auto simp: split_def Let_def)

lemma consume_all_other: "b \<notin> fst ` set ts \<Longrightarrow> consume_all q clock n ts s b = s b"
  by (induction ts arbitrary: n s) (auto simp: split_def Let_def)

lemma consume_all_nth:
  assumes "distinct (map fst ts)" "i < length ts" "ts ! i = (b, k)"
  shows "consume_all q clock n ts s b = snd (limiter_evaluate (budget_config q b) (clock (n + i)) k True (s b))"
  using assms
proof (induction ts arbitrary: n s i)
  case Nil
  then show ?case by simp
next
  case (Cons x ts)
  obtain b1 k1 where x: "x = (b1, k1)" by (cases x)
  show ?case
  proof (cases i)
    case 0
    with Cons.prems x have "b1 = b" "k1 = k" "b \<notin> fst ` set ts" by auto
    with 0 x show ?thesis by (simp add: split_def Let_def consume_all_other)
  next
    case (Suc j)
    with Cons.prems x have j: "j < length ts" "ts ! j = (b, k)" "distinct (map fst ts)" by auto
    with Cons.prems(1) x have "b1 \<noteq> b" by (metis distinct.simps(2) fst_conv image_eqI list.set_map list.simps(9) nth_mem)
    with Suc x Cons.IH [OF j(3,1,2)] show ?thesis by (simp add: split_def Let_def)
  qed
qed

lemma targets_distinct: "distinct (map fst (targets q i))"
proof -
  have order: "distinct (quota_order (qu_policies q))"
    by (simp add: quota_order_def rate_limit_dimensions_def)
  have "fst ` set (concat (map (charged_identities i) ds)) \<subseteq> Dimension ` set ds" for ds
    by (induction ds) (auto simp: charged_identities_def split: option.splits)
  moreover have "distinct ds \<Longrightarrow> distinct (map fst (concat (map (charged_identities i) ds)))" for ds
    using calculation
    by (induction ds) (force simp: charged_identities_def split: option.splits)+
  ultimately show ?thesis using order by (auto simp: targets_def)
qed

lemma targets_not_empty: "targets q i \<noteq> []"
  by (simp add: targets_def)

lemma tightest_in: "tightest best rs = best \<or> tightest best rs \<in> set rs"
  by (induction rs arbitrary: best) (auto split: if_splits)

lemma tightest_in_list: "rs \<noteq> [] \<Longrightarrow> tightest (hd rs) rs \<in> set rs"
  using tightest_in [of "hd rs" rs] hd_in_set by auto

lemma filter_hd_split:
  "filter P xs = y # ys \<Longrightarrow> \<exists>m < length xs. xs ! m = y \<and> P y \<and> (\<forall>l < m. \<not> P (xs ! l))"
proof (induction xs)
  case Nil
  then show ?case by simp
next
  case (Cons x xs)
  show ?case
  proof (cases "P x")
    case True
    with Cons.prems show ?thesis by auto
  next
    case False
    with Cons.prems Cons.IH obtain m where "m < length xs" "xs ! m = y" "P y" "\<forall>l < m. \<not> P (xs ! l)" by auto
    with False show ?thesis by (intro exI [of _ "Suc m"]) (auto simp: less_Suc_eq_0_disj)
  qed
qed

text \<open>The budget of a target has room at the moment it is checked.\<close>

definition has_room :: "quota \<Rightarrow> (nat \<Rightarrow> int) \<Rightarrow> quota_state \<Rightarrow> rate_identity \<Rightarrow> nat \<Rightarrow> bool" where
  "has_room q clock s i m =
     (case targets q i ! m of (b, k) \<Rightarrow>
       length (live_charges (budget_config q b) (clock m) (s b) k) < lc_limit (budget_config q b))"

lemma check_verdict:
  assumes "mono clock" "quota_ok q t s" "t \<le> clock 0" "m < length (targets q i)"
  shows "rr_allowed (fst (check_all q clock 0 (targets q i) s) ! m) \<longleftrightarrow> has_room q clock s i m"
    and "rr_dimension (fst (check_all q clock 0 (targets q i) s) ! m) = Some (budget_label (fst (targets q i ! m)))"
proof -
  obtain b k where bk: "targets q i ! m = (b, k)" by (cases "targets q i ! m")
  have "t \<le> clock m" using assms(1,3) by (meson le0 monoD order_trans)
  then have "limiter_ok (budget_config q b) (clock m) (s b)"
    using quota_ok_later [OF assms(2)] by (auto simp: quota_ok_def)
  with check_all_nth [OF assms(1-3) targets_distinct assms(4)] bk
  show "rr_allowed (fst (check_all q clock 0 (targets q i) s) ! m) \<longleftrightarrow> has_room q clock s i m"
    "rr_dimension (fst (check_all q clock 0 (targets q i) s) ! m) = Some (budget_label (fst (targets q i ! m)))"
    by (simp_all add: has_room_def rl.verdict)
qed

section \<open>Properties\<close>

text \<open>C13. Quota charging is all or nothing. A request is allowed exactly when the base budget and every
  configured dimension it carries had room when they were checked, on a clock that may advance
  between the readings. A request that is denied, or only checked, leaves the live charges of
  every one of these budgets as they were; an allowed charge adds exactly one charge to each. The
  dimension reported with a denial is the first exhausted one in the declared precedence.\<close>

theorem quota_all_or_nothing:
  assumes "mono clock" "quota_ok q t s" "t \<le> clock 0" "quota_evaluate q clock i charge s = (r, s')"
    and "j < length (targets q i)" "targets q i ! j = (b, k)" "clock (2 * length (targets q i)) \<le> now"
  shows "(rr_allowed r \<longleftrightarrow> (\<forall>m < length (targets q i). has_room q clock s i m)) \<and>
    live_charges (budget_config q b) now (s' b) k = live_charges (budget_config q b) now (s b) k @
      (if charge \<and> rr_allowed r \<and> charge_alive (budget_config q b) now (clock (length (targets q i) + j))
       then [clock (length (targets q i) + j)] else []) \<and>
    (\<not> rr_allowed r \<longrightarrow> (\<exists>m < length (targets q i). \<not> has_room q clock s i m \<and>
      (\<forall>l < m. has_room q clock s i l) \<and> rr_dimension r = Some (budget_label (fst (targets q i ! m)))))"
proof -
  let ?ts = "targets q i" and ?c = "budget_config q b"
  define ds where "ds = fst (check_all q clock 0 ?ts s)"
  define s1 where "s1 = snd (check_all q clock 0 ?ts s)"
  have len: "length ds = length ?ts" by (simp add: ds_def)
  have room: "m < length ?ts \<Longrightarrow> rr_allowed (ds ! m) \<longleftrightarrow> has_room q clock s i m" for m
    unfolding ds_def by (rule check_verdict(1) [OF assms(1-3)])
  have lab: "m < length ?ts \<Longrightarrow> rr_dimension (ds ! m) = Some (budget_label (fst (?ts ! m)))" for m
    unfolding ds_def by (rule check_verdict(2) [OF assms(1-3)])
  have cj1: "clock j \<le> clock (length ?ts + j)" by (rule monoD [OF assms(1)]) simp
  have "clock (length ?ts + j) \<le> clock (2 * length ?ts)"
    by (rule monoD [OF assms(1)]) (use assms(5) in simp)
  with assms(7) have cj2: "clock (length ?ts + j) \<le> now" by (rule order_trans [rotated])
  with cj1 have cj3: "clock j \<le> now" by (rule order_trans)
  have "clock 0 \<le> clock j" by (rule monoD [OF assms(1)]) simp
  with assms(3) have cj4: "t \<le> clock j" by (rule order_trans)
  note cj = cj1 cj2 cj3 cj4
  have okj: "limiter_ok ?c (clock j) (s b)"
    using quota_ok_later [OF assms(2) cj(4)] by (simp add: quota_ok_def)
  have s1b: "s1 b = snd (limiter_evaluate ?c (clock j) k False (s b))"
    using check_all_nth [OF assms(1-3) targets_distinct assms(5)] assms(6) by (simp add: s1_def)
  have kept: "live_charges ?c now (s1 b) k = live_charges ?c now (s b) k"
    unfolding s1b by (rule rl.check_charges_nothing [OF okj cj(3)])
  show ?thesis
  proof (cases "filter (\<lambda>r. \<not> rr_allowed r) ds")
    case (Cons d rest)
    then have rs: "r = d" "s' = s1"
      using assms(4) by (auto simp: quota_evaluate_def split_def Let_def ds_def s1_def)
    from filter_hd_split [OF Cons] obtain m where
      m: "m < length ds" "ds ! m = d" "\<not> rr_allowed d" "\<forall>l < m. rr_allowed (ds ! l)" by auto
    have bad: "\<not> has_room q clock s i m" using m(1-3) len room [of m] by simp
    have first: "\<forall>l < m. has_room q clock s i l" using m(1,4) len room by simp
    have dim: "rr_dimension r = Some (budget_label (fst (?ts ! m)))" using m(1,2) len lab rs(1) by auto
    have no: "\<not> rr_allowed r" using m(3) rs(1) by simp
    have mlen: "m < length ?ts" using m(1) len by simp
    have A: "rr_allowed r \<longleftrightarrow> (\<forall>m < length ?ts. has_room q clock s i m)" using no bad mlen by blast
    have B: "live_charges ?c now (s' b) k = live_charges ?c now (s b) k @
      (if charge \<and> rr_allowed r \<and> charge_alive ?c now (clock (length ?ts + j)) then [clock (length ?ts + j)] else [])"
      using kept rs(2) no by simp
    show ?thesis by (intro conjI A B impI exI [of _ m] mlen bad first dim)
  next
    case Nil
    have all: "has_room q clock s i m" if "m < length ?ts" for m
    proof -
      have "ds ! m \<in> set ds" using that len by simp
      with Nil have "rr_allowed (ds ! m)" by (simp add: filter_empty_conv)
      with room [OF that] show ?thesis by simp
    qed
    have ne: "ds \<noteq> []" using len targets_not_empty by (metis length_0_conv)
    from Nil tightest_in_list [OF ne] have ok: "rr_allowed (tightest (hd ds) ds)"
      by (auto simp: filter_empty_conv)
    have rs: "rr_allowed r" "s' = (if charge then consume_all q clock (length ?ts) ?ts s1 else s1)"
      using assms(4) Nil ok by (auto simp: quota_evaluate_def split_def Let_def ds_def s1_def)
    have "live_charges ?c now (consume_all q clock (length ?ts) ?ts s1 b) k =
        live_charges ?c now (s b) k @ (if charge_alive ?c now (clock (length ?ts + j)) then [clock (length ?ts + j)] else [])"
    proof -
      have "rr_allowed (fst (limiter_evaluate ?c (clock j) k False (s b)))"
        using okj all [OF assms(5)] assms(6) by (simp add: rl.verdict has_room_def)
      from rl.consume_after_check(2) [OF okj cj(1,2) this]
      show ?thesis unfolding consume_all_nth [OF targets_distinct assms(5,6)] s1b by simp
    qed
    with rs kept all show ?thesis by (auto simp: charge_alive_def)
  qed
qed

definition sample_quota :: quota where
  "sample_quota = \<lparr>qu_base = \<lparr>qp_limit = 5, qp_windowMs = 10\<rparr>,
     qu_policies = [(''user'', \<lparr>qp_limit = 2, qp_windowMs = 10\<rparr>)], qu_maxIdentities = 100\<rparr>"

definition sample_identity :: rate_identity where
  "sample_identity = \<lparr>ri_dimensions = (\<lambda>d. if d = ''user'' then Some ''0123456789abcdef'' else None), ri_key = ''k''\<rparr>"

theorem quota_all_or_nothing_witness:
  "live_charges (budget_config sample_quota Base) 3
     (snd (quota_evaluate sample_quota (\<lambda>n. 3) sample_identity True new_quota_state) Base) ''k'' = [3]"
proof -
  have ok: "quota_ok sample_quota 3 new_quota_state"
    by (auto simp: quota_ok_def new_quota_state_def budget_config_def to_config_def sample_quota_def config_ok_def
        intro!: new_limiter_ok split: budget.splits)
  have t: "targets sample_quota sample_identity = [(Dimension ''user'', ''user=0123456789abcdef''), (Base, ''k'')]"
    by code_simp
  have a: "rr_allowed (fst (quota_evaluate sample_quota (\<lambda>n. 3) sample_identity True new_quota_state))"
    by code_simp
  have "live_charges (budget_config sample_quota Base) 3 (new_quota_state Base) ''k'' = []"
    by code_simp
  with quota_all_or_nothing [where clock = "\<lambda>n. 3" and i = sample_identity and j = 1 and b = Base and k = "''k''"
      and now = 3 and charge = True, OF _ ok _ prod.collapse [symmetric]] a t
  show ?thesis
    by (simp add: charge_alive_def budget_config_def to_config_def sample_quota_def mono_def)
qed

end
