(* ===== verification/LeaseLock.thy ===== *)
theory LeaseLock
  imports Errors
begin

text \<open>
  The in-process part of \<open>src/lock.ts\<close>: leases with an owner and an absolute expiry, the operations
  of the handle an acquisition returns, inspection, the sweep and \<open>withLock\<close>. The clock is an
  argument; an operation that reads it more than once takes one argument per reading. Waiting for
  a contended lease is a sequence of attempts between which other operations run, so one attempt
  is one step. The locale \<open>lease_table\<close> is what a holder relies on.
\<close>

section \<open>State\<close>

record lease_entry =
  le_owner :: string
  le_expiresAt :: int

record lock_state =
  lk_entries :: "(string, lease_entry) js_map"
  lk_held :: "string list"
  lk_reclaimed :: nat

record lock_info =
  in_key :: string
  in_owner :: string
  in_expiresAt :: int

definition new_lock_state :: lock_state where
  "new_lock_state = \<lparr>lk_entries = [], lk_held = [], lk_reclaimed = 0\<rparr>"

definition default_lease_ms :: int where "default_lease_ms = 30000"

text \<open>A JavaScript \<open>Set\<close> of strings: insertion-ordered, without duplicates.\<close>

definition set_add :: "'a \<Rightarrow> 'a list \<Rightarrow> 'a list" where
  "set_add x xs = (if x \<in> set xs then xs else xs @ [x])"

section \<open>Acquiring\<close>

datatype attempt = Granted lock_info | Refused string | Waiting int

text \<open>One turn of the acquisition loop: \<open>t1\<close> is the clock at the expiry check, \<open>t2\<close> at the grant or the
  deadline check, \<open>t3\<close> when the handle is made or the pause is computed.\<close>

definition acquire_attempt ::
  "string \<Rightarrow> string \<Rightarrow> int \<Rightarrow> int \<Rightarrow> int \<Rightarrow> int \<Rightarrow> int \<Rightarrow> int \<Rightarrow> lock_state \<Rightarrow> attempt \<times> lock_state" where
  "acquire_attempt key owner leaseMs pollMs deadline t1 t2 t3 s =
     (let existing = map_of (lk_entries s) key;
          grant = (\<lambda>s. (Granted \<lparr>in_key = key, in_owner = owner, in_expiresAt = t2 + leaseMs\<rparr>,
            s\<lparr>lk_entries := AList.update key \<lparr>le_owner = owner, le_expiresAt = t2 + leaseMs\<rparr> (lk_entries s),
              lk_held := set_add key (lk_held s)\<rparr>))
      in case existing of
          None \<Rightarrow> grant s
        | Some e \<Rightarrow>
            (if le_expiresAt e \<le> t1 then grant (s\<lparr>lk_reclaimed := lk_reclaimed s + 1\<rparr>)
             else if t2 \<ge> deadline then (Refused (le_owner e), s)
             else (Waiting (min pollMs (max 1 (deadline - t3))), s)))"

section \<open>The handle\<close>

definition is_held :: "string \<Rightarrow> string \<Rightarrow> int \<Rightarrow> lock_state \<Rightarrow> bool" where
  "is_held key owner now s =
     (case map_of (lk_entries s) key of
        None \<Rightarrow> False
      | Some e \<Rightarrow> le_owner e = owner \<and> le_expiresAt e > now)"

definition renew_lease :: "string \<Rightarrow> string \<Rightarrow> int option \<Rightarrow> int \<Rightarrow> int \<Rightarrow> lock_state \<Rightarrow> bool \<times> lock_state" where
  "renew_lease key owner lease_opt t1 t2 s =
     (case map_of (lk_entries s) key of
        None \<Rightarrow> (False, s)
      | Some e \<Rightarrow>
          (if le_owner e \<noteq> owner \<or> le_expiresAt e \<le> t1 then (False, s)
           else (True, s\<lparr>lk_entries := AList.update key
             (e\<lparr>le_expiresAt := t2 + (case lease_opt of None \<Rightarrow> default_lease_ms | Some n \<Rightarrow> n)\<rparr>) (lk_entries s)\<rparr>)))"

definition release_lease :: "string \<Rightarrow> string \<Rightarrow> lock_state \<Rightarrow> bool \<times> lock_state" where
  "release_lease key owner s =
     (case map_of (lk_entries s) key of
        None \<Rightarrow> (False, s)
      | Some e \<Rightarrow>
          (if le_owner e \<noteq> owner then (False, s)
           else (True, s\<lparr>lk_entries := AList.delete key (lk_entries s), lk_held := removeAll key (lk_held s)\<rparr>)))"

section \<open>Inspecting and sweeping\<close>

definition inspect_lease :: "string \<Rightarrow> int \<Rightarrow> lock_state \<Rightarrow> lock_info option \<times> lock_state" where
  "inspect_lease key now s =
     (case map_of (lk_entries s) key of
        None \<Rightarrow> (None, s)
      | Some e \<Rightarrow>
          (if le_expiresAt e \<le> now
           then (None, s\<lparr>lk_entries := AList.delete key (lk_entries s), lk_reclaimed := lk_reclaimed s + 1\<rparr>)
           else (Some \<lparr>in_key = key, in_owner = le_owner e, in_expiresAt = le_expiresAt e\<rparr>, s)))"

definition sweep_leases :: "int \<Rightarrow> lock_state \<Rightarrow> nat \<times> lock_state" where
  "sweep_leases now s =
     (let dead = map fst (filter (\<lambda>(k, e). le_expiresAt e \<le> now) (lk_entries s))
      in (length dead,
          s\<lparr>lk_entries := map_keep (\<lambda>k e. \<not> le_expiresAt e \<le> now) (lk_entries s),
            lk_held := filter (\<lambda>k. k \<notin> set dead) (lk_held s),
            lk_reclaimed := lk_reclaimed s + length dead\<rparr>))"

section \<open>Steps of a system\<close>

text \<open>Every operation any holder can make, at one instant.\<close>

datatype lock_op =
    Acquire string string int
  | RenewLease string string "int option"
  | ReleaseLease string string
  | Inspect string
  | Sweep

definition lock_step :: "int \<Rightarrow> lock_op \<Rightarrow> lock_state \<Rightarrow> lock_state" where
  "lock_step now x s =
     (case x of
        Acquire k w lease \<Rightarrow> snd (acquire_attempt k w lease 25 now now now now s)
      | RenewLease k w lease \<Rightarrow> snd (renew_lease k w lease now now s)
      | ReleaseLease k w \<Rightarrow> snd (release_lease k w s)
      | Inspect k \<Rightarrow> snd (inspect_lease k now s)
      | Sweep \<Rightarrow> snd (sweep_leases now s))"

fun lock_run :: "lock_state \<Rightarrow> (int \<times> lock_op) list \<Rightarrow> lock_state" where
  "lock_run s [] = s"
| "lock_run s ((now, x) # xs) = lock_run (lock_step now x s) xs"

text \<open>\<open>withLock\<close>: the body runs on the state after the grant and returns its result, an error included,
  with the state it leaves; the lease is released in either case.\<close>

definition with_lock ::
  "string \<Rightarrow> string \<Rightarrow> int \<Rightarrow> int \<Rightarrow> (lock_state \<Rightarrow> 'a result \<times> lock_state) \<Rightarrow> lock_state \<Rightarrow>
    'a result \<times> lock_state" where
  "with_lock key owner leaseMs now body s =
     (case acquire_attempt key owner leaseMs 25 now now now now s of
        (Granted i, s1) \<Rightarrow> (let (r, s2) = body s1 in (r, snd (release_lease key owner s2)))
      | (_, s1) \<Rightarrow> (Inl LOCK_TIMEOUT, s1))"

section \<open>The interface\<close>

text \<open>
  The contract of a lease table for its holders. \<open>holder s k now\<close> is the owner of an unexpired lease.
  Acquiring succeeds exactly when there is no such owner; only the owner's own renewal or release
  succeeds; and nothing but the passage of time, the owner's release or an acquisition changes
  who holds a key.
\<close>

locale lease_table =
  fixes holder :: "'s \<Rightarrow> 'k \<Rightarrow> int \<Rightarrow> 'o option"
    and acquire :: "'k \<Rightarrow> 'o \<Rightarrow> int \<Rightarrow> int \<Rightarrow> 's \<Rightarrow> bool \<times> 's"
    and renew :: "'k \<Rightarrow> 'o \<Rightarrow> int \<Rightarrow> int \<Rightarrow> 's \<Rightarrow> bool \<times> 's"
    and release :: "'k \<Rightarrow> 'o \<Rightarrow> 's \<Rightarrow> bool \<times> 's"
  assumes acquire_free: "fst (acquire k w n now s) \<longleftrightarrow> holder s k now = None"
    and acquire_holds: "fst (acquire k w n now s) \<Longrightarrow>
      holder (snd (acquire k w n now s)) k t = (if t < now + n then Some w else None)"
    and acquire_refused: "\<not> fst (acquire k w n now s) \<Longrightarrow> snd (acquire k w n now s) = s"
    and acquire_frame: "j \<noteq> k \<Longrightarrow> holder (snd (acquire k w n now s)) j t = holder s j t"
    and renew_owner: "fst (renew k w n now s) \<longleftrightarrow> holder s k now = Some w"
    and renew_holds: "fst (renew k w n now s) \<Longrightarrow>
      holder (snd (renew k w n now s)) k t = (if t < now + n then Some w else None)"
    and renew_refused: "\<not> fst (renew k w n now s) \<Longrightarrow> snd (renew k w n now s) = s"
    and release_gone: "fst (release k w s) \<Longrightarrow> holder (snd (release k w s)) k t = None"
    and release_refused: "\<not> fst (release k w s) \<Longrightarrow> snd (release k w s) = s"
    and release_owner: "holder s k t = Some v \<Longrightarrow> fst (release k w s) \<longleftrightarrow> v = w"
    and holder_expires: "holder s k t = Some w \<Longrightarrow> t' \<le> t \<Longrightarrow> holder s k t' = Some w"
begin

text \<open>Two holders of one key at one instant are the same owner, before and after any acquisition.\<close>

lemma exclusive_after_acquire:
  assumes "fst (acquire k w n now s)" and "holder (snd (acquire k w n now s)) k t = Some v"
  shows "v = w \<and> holder s k now = None"
  using assms acquire_free acquire_holds by (metis option.distinct(1) option.inject)

lemma lease_excludes_others:
  assumes "fst (acquire k w n now s)" and "t < now + n"
  shows "\<not> fst (acquire k v m t (snd (acquire k w n now s)))"
  using assms by (simp add: acquire_free acquire_holds)

text \<open>A holder whose lease was taken over cannot renew or release it, and trying changes nothing.\<close>

lemma lost_lease_is_lost:
  assumes "holder s k now = Some v" and "v \<noteq> w"
  shows "renew k w n now s = (False, s)" and "release k w s = (False, s)"
proof -
  have "\<not> fst (renew k w n now s)" using assms by (simp add: renew_owner)
  then show "renew k w n now s = (False, s)" using renew_refused by (metis prod.collapse)
  have "\<not> fst (release k w s)" using release_owner [OF assms(1)] assms(2) by simp
  then show "release k w s = (False, s)" using release_refused by (metis prod.collapse)
qed

end

section \<open>The in-process provider implements the contract\<close>

definition lease_holder :: "lock_state \<Rightarrow> string \<Rightarrow> int \<Rightarrow> string option" where
  "lease_holder s k now =
     (case map_of (lk_entries s) k of
        None \<Rightarrow> None
      | Some e \<Rightarrow> if le_expiresAt e > now then Some (le_owner e) else None)"

definition try_acquire :: "string \<Rightarrow> string \<Rightarrow> int \<Rightarrow> int \<Rightarrow> lock_state \<Rightarrow> bool \<times> lock_state" where
  "try_acquire k w n now s =
     (case acquire_attempt k w n 25 now now now now s of
        (Granted i, s') \<Rightarrow> (True, s')
      | (_, s') \<Rightarrow> (False, s'))"

interpretation lp: lease_table lease_holder try_acquire "\<lambda>k w n now s. renew_lease k w (Some n) now now s" release_lease
proof unfold_locales
  fix s :: lock_state and k j w v :: string and n now t t' :: int
  show "fst (try_acquire k w n now s) \<longleftrightarrow> lease_holder s k now = None"
    by (auto simp: try_acquire_def acquire_attempt_def lease_holder_def Let_def split: option.splits)
  show "fst (try_acquire k w n now s) \<Longrightarrow>
      lease_holder (snd (try_acquire k w n now s)) k t = (if t < now + n then Some w else None)"
    by (auto simp: try_acquire_def acquire_attempt_def lease_holder_def Let_def table_simps split: option.splits if_splits)
  show "\<not> fst (try_acquire k w n now s) \<Longrightarrow> snd (try_acquire k w n now s) = s"
    by (auto simp: try_acquire_def acquire_attempt_def Let_def split: option.splits if_splits)
  show "j \<noteq> k \<Longrightarrow> lease_holder (snd (try_acquire k w n now s)) j t = lease_holder s j t"
    by (auto simp: try_acquire_def acquire_attempt_def lease_holder_def Let_def table_simps split: option.splits)
  show "fst (renew_lease k w (Some n) now now s) \<longleftrightarrow> lease_holder s k now = Some w"
    by (auto simp: renew_lease_def lease_holder_def split: option.splits)
  show "fst (renew_lease k w (Some n) now now s) \<Longrightarrow>
      lease_holder (snd (renew_lease k w (Some n) now now s)) k t = (if t < now + n then Some w else None)"
    by (auto simp: renew_lease_def lease_holder_def table_simps split: option.splits if_splits)
  show "\<not> fst (renew_lease k w (Some n) now now s) \<Longrightarrow> snd (renew_lease k w (Some n) now now s) = s"
    by (auto simp: renew_lease_def split: option.splits if_splits)
  show "fst (release_lease k w s) \<Longrightarrow> lease_holder (snd (release_lease k w s)) k t = None"
    by (auto simp: release_lease_def lease_holder_def table_simps split: option.splits if_splits)
  show "\<not> fst (release_lease k w s) \<Longrightarrow> snd (release_lease k w s) = s"
    by (auto simp: release_lease_def split: option.splits if_splits)
  show "lease_holder s k t = Some v \<Longrightarrow> fst (release_lease k w s) \<longleftrightarrow> v = w"
    by (auto simp: release_lease_def lease_holder_def split: option.splits if_splits)
  show "lease_holder s k t = Some w \<Longrightarrow> t' \<le> t \<Longrightarrow> lease_holder s k t' = Some w"
    by (auto simp: lease_holder_def split: option.splits if_splits)
qed

lemma is_held_holder: "is_held k w now s \<longleftrightarrow> lease_holder s k now = Some w"
  by (auto simp: is_held_def lease_holder_def split: option.splits)

section \<open>Facts about steps\<close>

definition entry_not_of :: "string \<Rightarrow> string \<Rightarrow> lock_state \<Rightarrow> bool" where
  "entry_not_of k w s \<longleftrightarrow> (\<forall>e. map_of (lk_entries s) k = Some e \<longrightarrow> le_owner e \<noteq> w)"

definition lock_ok :: "lock_state \<Rightarrow> bool" where
  "lock_ok s \<longleftrightarrow> map_ok (lk_entries s)"

lemma lock_step_ok: "lock_ok s \<Longrightarrow> lock_ok (lock_step now x s)"
  by (cases x) (auto simp: lock_step_def lock_ok_def acquire_attempt_def renew_lease_def release_lease_def
      inspect_lease_def sweep_leases_def Let_def split: option.splits)

lemma lock_run_ok: "lock_ok s \<Longrightarrow> lock_ok (lock_run s xs)"
  by (induction s xs rule: lock_run.induct) (simp_all add: lock_step_ok)

lemma step_keeps_foreign:
  assumes "lock_ok s" "entry_not_of k w s" and "\<forall>n. x \<noteq> Acquire k w n"
  shows "entry_not_of k w (lock_step now x s)"
proof (cases x)
  case (Acquire j v n)
  with assms(2,3) show ?thesis
    by (auto simp: lock_step_def entry_not_of_def acquire_attempt_def Let_def table_simps split: option.splits)
next
  case (RenewLease j v n)
  with assms(2) show ?thesis
    by (auto simp: lock_step_def entry_not_of_def renew_lease_def table_simps split: option.splits)
next
  case (ReleaseLease j v)
  with assms(2) show ?thesis
    by (auto simp: lock_step_def entry_not_of_def release_lease_def table_simps split: option.splits)
next
  case (Inspect j)
  with assms(2) show ?thesis
    by (auto simp: lock_step_def entry_not_of_def inspect_lease_def table_simps split: option.splits)
next
  case Sweep
  with assms(1,2) show ?thesis
    by (auto simp: lock_step_def entry_not_of_def sweep_leases_def lock_ok_def Let_def get_keep split: option.splits)
qed

lemma run_keeps_foreign:
  "lock_ok s \<Longrightarrow> entry_not_of k w s \<Longrightarrow> \<forall>t n. (t, Acquire k w n) \<notin> set xs \<Longrightarrow> entry_not_of k w (lock_run s xs)"
proof (induction s xs rule: lock_run.induct)
  case (1 s)
  then show ?case by simp
next
  case (2 s now x xs)
  have "entry_not_of k w (lock_step now x s)"
    by (rule step_keeps_foreign [OF "2.prems"(1,2)]) (use "2.prems"(3) in auto)
  with 2 lock_step_ok show ?case by simp
qed

lemma step_keeps_holder:
  assumes "lock_ok s" "map_of (lk_entries s) k = Some e" "now < le_expiresAt e"
    and "x \<noteq> ReleaseLease k (le_owner e)" "\<forall>n. x \<noteq> RenewLease k (le_owner e) n"
  shows "map_of (lk_entries (lock_step now x s)) k = Some e"
proof (cases x)
  case (Acquire j v n)
  with assms(2,3) show ?thesis
    by (auto simp: lock_step_def acquire_attempt_def Let_def table_simps split: option.splits)
next
  case (RenewLease j v n)
  with assms(2,5) show ?thesis
    by (auto simp: lock_step_def renew_lease_def table_simps split: option.splits)
next
  case (ReleaseLease j v)
  with assms(2,4) show ?thesis
    by (auto simp: lock_step_def release_lease_def table_simps split: option.splits)
next
  case (Inspect j)
  with assms(2,3) show ?thesis
    by (auto simp: lock_step_def inspect_lease_def table_simps split: option.splits)
next
  case Sweep
  with assms(1-3) show ?thesis
    by (simp add: lock_step_def sweep_leases_def lock_ok_def Let_def get_keep)
qed

lemma run_keeps_holder:
  "lock_ok s \<Longrightarrow> map_of (lk_entries s) k = Some e \<Longrightarrow>
    \<forall>(t, x) \<in> set xs. t < le_expiresAt e \<and> x \<noteq> ReleaseLease k (le_owner e) \<and> (\<forall>n. x \<noteq> RenewLease k (le_owner e) n) \<Longrightarrow>
    map_of (lk_entries (lock_run s xs)) k = Some e"
proof (induction s xs rule: lock_run.induct)
  case (1 s)
  then show ?case by simp
next
  case (2 s now x xs)
  have "map_of (lk_entries (lock_step now x s)) k = Some e"
    by (rule step_keeps_holder [OF "2.prems"(1,2)]) (use "2.prems"(3) in auto)
  with 2 lock_step_ok show ?case by simp
qed

lemma run_from_new_ok: "lock_ok (lock_run new_lock_state xs)"
  by (rule lock_run_ok) (simp add: lock_ok_def new_lock_state_def)

lemma with_lock_released:
  assumes "try_acquire k w n now s = (True, s1)"
  shows "fst (with_lock k w n now body s) = fst (body s1)"
    and "\<not> is_held k w t (snd (with_lock k w n now body s))"
proof -
  obtain i where i: "acquire_attempt k w n 25 now now now now s = (Granted i, s1)"
    using assms by (auto simp: try_acquire_def split: prod.splits attempt.splits)
  then show "fst (with_lock k w n now body s) = fst (body s1)"
    by (simp add: with_lock_def split_def Let_def)
  have "\<not> is_held k w t (snd (release_lease k w s2))" for s2
    by (auto simp: is_held_def release_lease_def table_simps split: option.splits)
  with i show "\<not> is_held k w t (snd (with_lock k w n now body s))"
    by (simp add: with_lock_def split_def Let_def)
qed

text \<open>The owner of a handle is the process unless the caller names one, so a second handle of the
  same owner revives the first: after its lease ran out and was acquired again under the same
  owner, the old handle believes it holds the lease and its release takes it away.\<close>

lemma same_owner_handle_revives:
  assumes "try_acquire k w n t1 s = (True, s1)" and "t1 + n \<le> t2" and "0 < m"
  shows "\<not> is_held k w t2 s1" and "is_held k w t2 (snd (try_acquire k w m t2 s1))"
    and "fst (release_lease k w (snd (try_acquire k w m t2 s1)))"
proof -
  have "lease_holder s1 k t2 = None"
    using lp.acquire_holds [of k w n t1 s t2] assms(1,2) by simp
  then show "\<not> is_held k w t2 s1" by (simp add: is_held_holder)
  from \<open>lease_holder s1 k t2 = None\<close> have "fst (try_acquire k w m t2 s1)" by (simp add: lp.acquire_free)
  from lp.acquire_holds [OF this, of t2] assms(3)
  have h: "lease_holder (snd (try_acquire k w m t2 s1)) k t2 = Some w" by simp
  then show "is_held k w t2 (snd (try_acquire k w m t2 s1))" by (simp add: is_held_holder)
  show "fst (release_lease k w (snd (try_acquire k w m t2 s1)))"
    using lp.release_owner [OF h] by simp
qed

section \<open>Properties\<close>

text \<open>C14. A lease excludes every other holder. After an acquisition of \<open>n\<close> milliseconds at \<open>now\<close>, and
  whatever acquisitions, renewals, releases, inspections and sweeps other holders make before it
  runs out, the owner still holds the key at every instant of the lease, and every attempt by
  anyone to acquire it is refused.\<close>

theorem lease_is_exclusive:
  assumes "try_acquire k w n now (lock_run new_lock_state before) = (True, s)"
    and "\<forall>(t, x) \<in> set xs. t < now + n \<and> x \<noteq> ReleaseLease k w \<and> (\<forall>m. x \<noteq> RenewLease k w m)"
    and "u < now + n"
  shows "is_held k w u (lock_run s xs) \<and> \<not> fst (try_acquire k v m u (lock_run s xs))"
proof -
  have "lock_ok s"
    using assms(1) lock_step_ok [OF run_from_new_ok [of before], of now "Acquire k w n"]
    by (auto simp: try_acquire_def lock_step_def split: prod.splits attempt.splits)
  moreover have "map_of (lk_entries s) k = Some \<lparr>le_owner = w, le_expiresAt = now + n\<rparr>"
    using assms(1)
    by (auto simp: try_acquire_def acquire_attempt_def Let_def table_simps split: option.splits if_splits)
  ultimately have "map_of (lk_entries (lock_run s xs)) k = Some \<lparr>le_owner = w, le_expiresAt = now + n\<rparr>"
    by (rule run_keeps_holder) (use assms(2) in auto)
  with assms(3) have "lease_holder (lock_run s xs) k u = Some w" by (simp add: lease_holder_def)
  then show ?thesis by (simp add: is_held_holder lp.acquire_free)
qed

theorem lease_is_exclusive_witness:
  "\<not> fst (try_acquire ''k'' ''b'' 10 40 (lock_run (snd (try_acquire ''k'' ''a'' 50 0 (lock_run new_lock_state [])))
      [(10, Acquire ''k'' ''b'' 10), (20, Sweep)]))"
  using lease_is_exclusive [of "''k''" "''a''" 50 0 "[]" "snd (try_acquire ''k'' ''a'' 50 0 (lock_run new_lock_state []))"
      "[(10, Acquire ''k'' ''b'' 10), (20, Sweep)]" 40 "''b''" 10]
  by (simp add: try_acquire_def acquire_attempt_def new_lock_state_def)

text \<open>A lost lease stays lost. Once a key is leased to another owner, then as long as the former
  owner does not acquire it again, whatever anyone else does, its handle reports that it is not
  held, and its renewal and its release fail and change nothing, the peer's lease included.\<close>

theorem lost_lease_stays_lost:
  assumes "lease_holder (lock_run new_lock_state before) k t = Some v" and "v \<noteq> w"
    and "\<forall>u n. (u, Acquire k w n) \<notin> set xs"
  shows "\<not> is_held k w now (lock_run (lock_run new_lock_state before) xs) \<and>
    renew_lease k w n now now (lock_run (lock_run new_lock_state before) xs) =
      (False, lock_run (lock_run new_lock_state before) xs) \<and>
    release_lease k w (lock_run (lock_run new_lock_state before) xs) =
      (False, lock_run (lock_run new_lock_state before) xs)"
proof -
  let ?s = "lock_run (lock_run new_lock_state before) xs"
  have "entry_not_of k w (lock_run new_lock_state before)"
    using assms(1,2) by (auto simp: entry_not_of_def lease_holder_def split: if_splits)
  from run_keeps_foreign [OF run_from_new_ok this assms(3)]
  show ?thesis
    by (auto simp: entry_not_of_def is_held_def renew_lease_def release_lease_def split: option.splits)
qed

theorem lost_lease_stays_lost_witness:
  "release_lease ''k'' ''a'' (lock_run (lock_run new_lock_state [(0, Acquire ''k'' ''a'' 5), (9, Acquire ''k'' ''b'' 5)]) [(10, Sweep)]) =
    (False, lock_run (lock_run new_lock_state [(0, Acquire ''k'' ''a'' 5), (9, Acquire ''k'' ''b'' 5)]) [(10, Sweep)])"
proof -
  have "lease_holder (lock_run new_lock_state [(0, Acquire ''k'' ''a'' 5), (9, Acquire ''k'' ''b'' 5)]) ''k'' 10 = Some ''b''"
    by code_simp
  from lost_lease_stays_lost [OF this, of "''a''" "[(10, Sweep)]"] show ?thesis by simp
qed

end
