(* ===== verification/FileLease.thy ===== *)
theory FileLease
  imports Errors
begin

text \<open>
  The file-backed part of \<open>src/lock.ts\<close>: several processes, each at its own place in \<open>acquire\<close>,
  \<open>renew\<close> or \<open>release\<close>, over one lease file. Each file-system call is one atomic step and the calls
  of different processes interleave; the clock is shared and advances by itself. A lease that
  cannot be parsed is \<open>Unreadable\<close>. Failures of the file system other than \<open>EEXIST\<close> and \<open>ENOENT\<close>
  are not modelled. The waits between polls are the interleaving.
\<close>

section \<open>State\<close>

datatype lease_file = Absent | Unreadable | Lease string int

text \<open>Where a process is. The number counts the reclaim-and-retry turns.\<close>

datatype place =
    Creating nat
  | Reading nat
  | Unlinking nat
  | Holding
  | RenewReading
  | RenewWriting
  | ReleaseReading
  | ReleaseUnlinking
  | TimedOut
  | Released

record process =
  pr_owner :: string
  pr_leaseMs :: int
  pr_deadline :: int
  pr_place :: place
  pr_believes :: bool

record file_system =
  fs_file :: lease_file
  fs_now :: int
  fs_procs :: "nat \<Rightarrow> process"

definition max_acquire_spins :: nat where "max_acquire_spins = 64"

definition file_live :: "lease_file \<Rightarrow> int \<Rightarrow> bool" where
  "file_live f now = (case f of Lease w t \<Rightarrow> t > now | _ \<Rightarrow> False)"

definition spin_again :: "nat \<Rightarrow> place" where
  "spin_again n = (if n + 1 > max_acquire_spins then TimedOut else Creating (n + 1))"

definition move :: "nat \<Rightarrow> place \<Rightarrow> file_system \<Rightarrow> file_system" where
  "move p pl s = s\<lparr>fs_procs := (fs_procs s)(p := (fs_procs s p)\<lparr>pr_place := pl\<rparr>)\<rparr>"

definition believe :: "nat \<Rightarrow> bool \<Rightarrow> file_system \<Rightarrow> file_system" where
  "believe p b s = s\<lparr>fs_procs := (fs_procs s)(p := (fs_procs s p)\<lparr>pr_believes := b\<rparr>)\<rparr>"

section \<open>Steps\<close>

text \<open>What one process does next, as a function of its place: the calls of \<open>acquire\<close>, \<open>renew\<close> and
  \<open>release\<close> in their order. \<open>is_held\<close> of the handle is \<open>pr_believes\<close>.\<close>

definition own_lease :: "file_system \<Rightarrow> nat \<Rightarrow> bool" where
  "own_lease s p =
     (case fs_file s of
        Lease w t \<Rightarrow> w = pr_owner (fs_procs s p)
      | Unreadable \<Rightarrow> pr_owner (fs_procs s p) = ''unknown''
      | Absent \<Rightarrow> False)"

definition fresh_lease :: "file_system \<Rightarrow> nat \<Rightarrow> lease_file" where
  "fresh_lease s p = Lease (pr_owner (fs_procs s p)) (fs_now s + pr_leaseMs (fs_procs s p))"

definition proc_step :: "nat \<Rightarrow> file_system \<Rightarrow> file_system" where
  "proc_step p s =
     (case pr_place (fs_procs s p) of
        Creating n \<Rightarrow>
          (case fs_file s of
             Absent \<Rightarrow> believe p True (move p Holding (s\<lparr>fs_file := fresh_lease s p\<rparr>))
           | _ \<Rightarrow> move p (Reading n) s)
      | Reading n \<Rightarrow>
          (case fs_file s of
             Absent \<Rightarrow> move p (spin_again n) s
           | f \<Rightarrow>
               (if \<not> file_live f (fs_now s) then move p (Unlinking n) s
                else if fs_now s \<ge> pr_deadline (fs_procs s p) then move p TimedOut s
                else move p (Creating n) s))
      | Unlinking n \<Rightarrow> move p (spin_again n) (s\<lparr>fs_file := Absent\<rparr>)
      | RenewReading \<Rightarrow>
          (if own_lease s p then move p RenewWriting s else believe p False (move p Released s))
      | RenewWriting \<Rightarrow> move p Holding (s\<lparr>fs_file := fresh_lease s p\<rparr>)
      | ReleaseReading \<Rightarrow> (if own_lease s p then move p ReleaseUnlinking s else move p Released s)
      | ReleaseUnlinking \<Rightarrow> move p Released (s\<lparr>fs_file := Absent\<rparr>)
      | Holding \<Rightarrow> s
      | TimedOut \<Rightarrow> s
      | Released \<Rightarrow> s)"

text \<open>A holder may start to renew or to release; the clock may advance.\<close>

inductive file_step :: "file_system \<Rightarrow> file_system \<Rightarrow> bool" where
  runs: "file_step s (proc_step p s)"
| start_renew: "pr_place (fs_procs s p) = Holding \<Longrightarrow> pr_believes (fs_procs s p) \<Longrightarrow>
    file_step s (move p RenewReading s)"
| start_release: "pr_place (fs_procs s p) = Holding \<Longrightarrow>
    file_step s (believe p False (move p ReleaseReading s))"
| ticks: "fs_now s \<le> now \<Longrightarrow> file_step s (s\<lparr>fs_now := now\<rparr>)"

inductive file_steps :: "file_system \<Rightarrow> file_system \<Rightarrow> bool" where
  refl: "file_steps s s"
| step: "file_steps s t \<Longrightarrow> file_step t u \<Longrightarrow> file_steps s u"

text \<open>The same, as long as no lease in the file has run out and none is unreadable.\<close>

inductive timely_steps :: "file_system \<Rightarrow> file_system \<Rightarrow> bool" where
  timely_refl: "timely_steps s s"
| timely_step: "timely_steps s t \<Longrightarrow> file_step t u \<Longrightarrow> fs_file u = Absent \<or> file_live (fs_file u) (fs_now u) \<Longrightarrow>
    timely_steps s u"

inductive_cases file_stepE: "file_step s t"

definition holds :: "file_system \<Rightarrow> nat \<Rightarrow> bool" where
  "holds s p \<longleftrightarrow> pr_place (fs_procs s p) \<in> {Holding, RenewReading, RenewWriting}"

definition owners_distinct :: "file_system \<Rightarrow> bool" where
  "owners_distinct s \<longleftrightarrow> (\<forall>p q. pr_owner (fs_procs s p) = pr_owner (fs_procs s q) \<longrightarrow> p = q)"

text \<open>Distinct processes with distinct owners, all about to create, over no lease file.\<close>

definition initial :: "file_system \<Rightarrow> bool" where
  "initial s \<longleftrightarrow> fs_file s = Absent \<and>
     owners_distinct s \<and>
     (\<forall>p. pr_place (fs_procs s p) = Creating 0 \<and> \<not> pr_believes (fs_procs s p) \<and> 0 < pr_leaseMs (fs_procs s p))"

section \<open>Facts\<close>

lemma move_sel [simp]:
  "fs_file (move p pl s) = fs_file s" "fs_now (move p pl s) = fs_now s"
  "fs_procs (move p pl s) q = (if q = p then (fs_procs s p)\<lparr>pr_place := pl\<rparr> else fs_procs s q)"
  by (simp_all add: move_def)

lemma believe_sel [simp]:
  "fs_file (believe p b s) = fs_file s" "fs_now (believe p b s) = fs_now s"
  "fs_procs (believe p b s) q = (if q = p then (fs_procs s p)\<lparr>pr_believes := b\<rparr> else fs_procs s q)"
  by (simp_all add: believe_def)

lemma owner_kept:
  "pr_owner (fs_procs (move p pl s) q) = pr_owner (fs_procs s q)"
  "pr_owner (fs_procs (believe p b s) q) = pr_owner (fs_procs s q)"
  "fs_procs (s\<lparr>fs_file := f\<rparr>) = fs_procs s" "fs_procs (s\<lparr>fs_now := now\<rparr>) = fs_procs s"
  by simp_all

lemma owners_distinct_frame [simp]:
  "owners_distinct (move p pl s) = owners_distinct s" "owners_distinct (believe p b s) = owners_distinct s"
  "owners_distinct (s\<lparr>fs_file := f\<rparr>) = owners_distinct s" "owners_distinct (s\<lparr>fs_now := now\<rparr>) = owners_distinct s"
  by (simp_all only: owners_distinct_def owner_kept)

lemma owners_distinctD:
  "owners_distinct s \<Longrightarrow> pr_owner (fs_procs s p) = pr_owner (fs_procs s q) \<Longrightarrow> p = q"
  by (simp add: owners_distinct_def)

definition owns_file :: "place \<Rightarrow> bool" where
  "owns_file pl \<longleftrightarrow> pl \<in> {Holding, RenewReading, RenewWriting, ReleaseReading, ReleaseUnlinking}"

definition file_of :: "string \<Rightarrow> lease_file \<Rightarrow> bool" where
  "file_of w f = (case f of Lease v t \<Rightarrow> v = w | _ \<Rightarrow> False)"

definition timely_ok :: "file_system \<Rightarrow> bool" where
  "timely_ok s \<longleftrightarrow>
     (fs_file s = Absent \<or> file_live (fs_file s) (fs_now s)) \<and>
     owners_distinct s \<and>
     (\<forall>p n. pr_place (fs_procs s p) \<noteq> Unlinking n) \<and>
     (\<forall>p. owns_file (pr_place (fs_procs s p)) \<longrightarrow> file_of (pr_owner (fs_procs s p)) (fs_file s))"

lemma file_of_unique: "file_of w f \<Longrightarrow> file_of v f \<Longrightarrow> v = w"
  by (cases f) (auto simp: file_of_def)

text \<open>At most one process is at a place that owns the file.\<close>

lemma timely_owner_unique:
  assumes "timely_ok s" "owns_file (pr_place (fs_procs s q))" "file_of (pr_owner (fs_procs s p)) (fs_file s)"
  shows "q = p"
proof -
  have "file_of (pr_owner (fs_procs s q)) (fs_file s)" using assms(1,2) by (simp add: timely_ok_def)
  from file_of_unique [OF assms(3) this] have "pr_owner (fs_procs s q) = pr_owner (fs_procs s p)" .
  moreover have "owners_distinct s" using assms(1) by (simp add: timely_ok_def)
  ultimately show ?thesis by (rule owners_distinctD [rotated])
qed

lemma owns_file_simps [simp]:
  "owns_file Holding" "owns_file RenewReading" "owns_file RenewWriting" "owns_file ReleaseReading"
  "owns_file ReleaseUnlinking" "\<not> owns_file (Creating n)" "\<not> owns_file (Reading n)"
  "\<not> owns_file (Unlinking n)" "\<not> owns_file TimedOut" "\<not> owns_file Released"
  by (simp_all add: owns_file_def)

lemma file_of_simps [simp]:
  "\<not> file_of w Absent" "\<not> file_of w Unreadable" "file_of w (Lease v t) \<longleftrightarrow> v = w"
  by (auto simp: file_of_def)

lemma spin_again_simps [simp]: "\<not> owns_file (spin_again n)" "spin_again n \<noteq> Unlinking m"
  by (simp_all add: spin_again_def)

text \<open>A process that moves without touching the file.\<close>

lemma timely_move:
  assumes "timely_ok s" "\<And>n. pl \<noteq> Unlinking n"
    and "owns_file pl \<Longrightarrow> file_of (pr_owner (fs_procs s p)) (fs_file s)"
  shows "timely_ok (move p pl s)"
  unfolding timely_ok_def
proof (intro conjI allI impI)
  show "fs_file (move p pl s) = Absent \<or> file_live (fs_file (move p pl s)) (fs_now (move p pl s))"
    "owners_distinct (move p pl s)"
    using assms(1) by (simp_all add: timely_ok_def)
  show "pr_place (fs_procs (move p pl s) q) \<noteq> Unlinking n" for q n
    using assms(1,2) by (simp add: timely_ok_def)
  show "file_of (pr_owner (fs_procs (move p pl s) q)) (fs_file (move p pl s))"
    if "owns_file (pr_place (fs_procs (move p pl s) q))" for q
    using assms(1,3) that by (simp add: timely_ok_def split: if_splits)
qed

lemma timely_believe: "timely_ok (believe p b s) = timely_ok s"
  by (auto simp: timely_ok_def)

text \<open>A process that replaces the file by its own lease, or removes its own.\<close>

lemma timely_write:
  assumes "timely_ok s" and "fs_file s = Absent \<or> file_of (pr_owner (fs_procs s p)) (fs_file s)"
    and "fresh_lease s p = Absent \<or> file_live (fresh_lease s p) (fs_now s)"
  shows "timely_ok (move p Holding (s\<lparr>fs_file := fresh_lease s p\<rparr>))"
proof -
  have other: "q = p" if "owns_file (pr_place (fs_procs s q))" for q
  proof (cases "fs_file s = Absent")
    case True
    with assms(1) that show ?thesis by (auto simp: timely_ok_def)
  next
    case False
    with assms(2) timely_owner_unique [OF assms(1) that] show ?thesis by blast
  qed
  show ?thesis
    unfolding timely_ok_def
  proof (intro conjI allI impI)
    show "fs_file (move p Holding (s\<lparr>fs_file := fresh_lease s p\<rparr>)) = Absent \<or>
        file_live (fs_file (move p Holding (s\<lparr>fs_file := fresh_lease s p\<rparr>)))
          (fs_now (move p Holding (s\<lparr>fs_file := fresh_lease s p\<rparr>)))"
      using assms(3) by simp
    show "owners_distinct (move p Holding (s\<lparr>fs_file := fresh_lease s p\<rparr>))"
      using assms(1) by (simp add: timely_ok_def)
    show "pr_place (fs_procs (move p Holding (s\<lparr>fs_file := fresh_lease s p\<rparr>)) q) \<noteq> Unlinking n" for q n
      using assms(1) by (simp add: timely_ok_def)
    fix q assume "owns_file (pr_place (fs_procs (move p Holding (s\<lparr>fs_file := fresh_lease s p\<rparr>)) q))"
    with other [of q] have "q = p" by (simp split: if_splits)
    then show "file_of (pr_owner (fs_procs (move p Holding (s\<lparr>fs_file := fresh_lease s p\<rparr>)) q))
        (fs_file (move p Holding (s\<lparr>fs_file := fresh_lease s p\<rparr>)))"
      by (simp add: fresh_lease_def)
  qed
qed

lemma timely_remove:
  assumes "timely_ok s" and "file_of (pr_owner (fs_procs s p)) (fs_file s)"
  shows "timely_ok (move p Released (s\<lparr>fs_file := Absent\<rparr>))"
proof -
  have "\<not> owns_file (pr_place (fs_procs (move p Released (s\<lparr>fs_file := Absent\<rparr>)) q))" for q
    using timely_owner_unique [OF assms(1) _ assms(2), of q] by auto
  with assms(1) show ?thesis by (simp add: timely_ok_def)
qed

lemma proc_step_timely:
  assumes "timely_ok s" and "fs_file (proc_step p s) = Absent \<or> file_live (fs_file (proc_step p s)) (fs_now (proc_step p s))"
  shows "timely_ok (proc_step p s)"
proof -
  have live: "fs_file s = Absent \<or> file_live (fs_file s) (fs_now s)"
    and nu: "pr_place (fs_procs s p) \<noteq> Unlinking n"
    and own: "owns_file (pr_place (fs_procs s p)) \<Longrightarrow> file_of (pr_owner (fs_procs s p)) (fs_file s)" for n
    using assms(1) by (auto simp: timely_ok_def)
  show ?thesis
  proof (cases "pr_place (fs_procs s p)")
    case (Creating n)
    show ?thesis
    proof (cases "fs_file s")
      case Absent
      with Creating assms show ?thesis
        by (simp add: proc_step_def timely_believe timely_write)
    next
      case Unreadable
      with live show ?thesis by (simp add: file_live_def)
    next
      case (Lease w t)
      with Creating assms(1) show ?thesis by (auto simp: proc_step_def intro!: timely_move)
    qed
  next
    case (Reading n)
    with live assms(1) show ?thesis
      by (cases "fs_file s") (auto simp: proc_step_def intro!: timely_move)
  next
    case (Unlinking n)
    with nu show ?thesis by blast
  next
    case RenewReading
    with own assms(1) show ?thesis
      by (auto simp: proc_step_def own_lease_def timely_believe intro!: timely_move split: lease_file.splits)
  next
    case RenewWriting
    with own assms show ?thesis by (simp add: proc_step_def timely_write)
  next
    case ReleaseReading
    with own assms(1) show ?thesis
      by (auto simp: proc_step_def own_lease_def intro!: timely_move split: lease_file.splits)
  next
    case ReleaseUnlinking
    with own assms(1) show ?thesis by (simp add: proc_step_def timely_remove)
  qed (use assms(1) in \<open>simp_all add: proc_step_def\<close>)
qed

lemma file_step_timely:
  assumes "timely_ok s" "file_step s t" "fs_file t = Absent \<or> file_live (fs_file t) (fs_now t)"
  shows "timely_ok t"
  using assms(2)
proof (cases rule: file_step.cases)
  case (runs p)
  with assms proc_step_timely show ?thesis by simp
next
  case (start_renew p)
  with assms(1) show ?thesis by (auto simp: timely_ok_def)
next
  case (start_release p)
  with assms(1) show ?thesis by (auto simp: timely_ok_def)
next
  case (ticks now)
  with assms(1,3) show ?thesis by (auto simp: timely_ok_def)
qed

lemma timely_steps_ok: "timely_steps s t \<Longrightarrow> timely_ok s \<Longrightarrow> timely_ok t"
  by (induction rule: timely_steps.induct) (auto intro: file_step_timely)

lemma initial_timely: "initial s \<Longrightarrow> timely_ok s"
  by (simp add: initial_def timely_ok_def)

section \<open>Properties\<close>


definition sample_file_system :: file_system where
  "sample_file_system =
     \<lparr>fs_file = Absent, fs_now = 0,
      fs_procs = (\<lambda>p. \<lparr>pr_owner = dec p, pr_leaseMs = 10, pr_deadline = 0, pr_place = Creating 0, pr_believes = False\<rparr>)\<rparr>"

lemma sample_initial: "initial sample_file_system"
  by (simp add: initial_def sample_file_system_def owners_distinct_def)


lemma two_steps: "file_steps s t \<Longrightarrow> file_steps s (proc_step p (proc_step q t))"
  by (rule step [OF step [OF _ runs] runs])

text \<open>Reclaiming an expired lease is not safe: from every initial state there is an interleaving in
  which a third process's lease runs out, two processes read it as expired, the first reclaims
  and acquires, and the second then unlinks the first one's fresh lease and acquires too. Both
  hold the lock, both handles report it held, and both leases are unexpired.\<close>

theorem reclaim_breaks_exclusion:
  assumes "initial s"
  shows "\<exists>t. file_steps s t \<and> holds t 0 \<and> holds t 1 \<and> pr_believes (fs_procs t 0) \<and>
    pr_believes (fs_procs t 1) \<and> fs_now t < fs_now t + pr_leaseMs (fs_procs t 0) \<and>
    file_live (fs_file t) (fs_now t)"
proof -
  define s1 where "s1 = proc_step 2 s"
  define s2 where "s2 = s1\<lparr>fs_now := fs_now s + pr_leaseMs (fs_procs s 2)\<rparr>"
  define s3 where "s3 = proc_step 0 (proc_step 0 s2)"
  define s4 where "s4 = proc_step 1 (proc_step 1 s3)"
  define s5 where "s5 = proc_step 0 (proc_step 0 s4)"
  define s6 where "s6 = proc_step 1 (proc_step 1 s5)"
  note i = assms [unfolded initial_def]
  have pl: "pr_place (fs_procs s p) = Creating 0" "0 < pr_leaseMs (fs_procs s p)" for p using i by blast+
  have f0: "fs_file s = Absent" using i by blast
  have f1: "fs_file s1 = Lease (pr_owner (fs_procs s 2)) (fs_now s + pr_leaseMs (fs_procs s 2))"
    "fs_now s1 = fs_now s" "fs_procs s1 0 = fs_procs s 0" "fs_procs s1 1 = fs_procs s 1"
    by (simp_all add: s1_def proc_step_def pl f0 fresh_lease_def del: One_nat_def)
  have f2: "fs_file s2 = fs_file s1" "fs_now s2 = fs_now s + pr_leaseMs (fs_procs s 2)" "fs_procs s2 = fs_procs s1"
    by (simp_all add: s2_def)
  have dead: "\<not> file_live (fs_file s2) (fs_now s2)" by (simp add: f2 f1 file_live_def)
  have f3: "pr_place (fs_procs s3 0) = Unlinking 0" "fs_procs s3 1 = fs_procs s 1" "fs_file s3 = fs_file s2"
    "fs_now s3 = fs_now s2" "pr_leaseMs (fs_procs s3 0) = pr_leaseMs (fs_procs s 0)"
    using dead by (simp_all add: s3_def proc_step_def f2 f1 pl del: One_nat_def)
  have f4: "pr_place (fs_procs s4 1) = Unlinking 0" "fs_procs s4 0 = fs_procs s3 0" "fs_file s4 = fs_file s2"
    "fs_now s4 = fs_now s2" "pr_leaseMs (fs_procs s4 1) = pr_leaseMs (fs_procs s 1)"
    using dead by (simp_all add: s4_def proc_step_def f3 f2 f1 pl del: One_nat_def)
  have f5: "pr_place (fs_procs s5 0) = Holding" "pr_believes (fs_procs s5 0)" "fs_procs s5 1 = fs_procs s4 1"
    "fs_now s5 = fs_now s2" "pr_leaseMs (fs_procs s5 0) = pr_leaseMs (fs_procs s 0)"
    by (simp_all add: s5_def proc_step_def f4 f3 spin_again_def max_acquire_spins_def del: One_nat_def)
  have f6: "pr_place (fs_procs s6 1) = Holding" "pr_believes (fs_procs s6 1)" "fs_procs s6 0 = fs_procs s5 0"
    "fs_now s6 = fs_now s2" "file_live (fs_file s6) (fs_now s6)"
    using pl(2) by (simp_all add: s6_def proc_step_def f5 f4 spin_again_def max_acquire_spins_def fresh_lease_def file_live_def del: One_nat_def)
  have "file_steps s s1" unfolding s1_def by (rule step [OF refl runs])
  then have "file_steps s s2"
    by (rule step) (use ticks [of s1 "fs_now s + pr_leaseMs (fs_procs s 2)"] pl(2) [of 2] f1 in \<open>simp add: s2_def\<close>)
  then have "file_steps s s3" unfolding s3_def by (rule two_steps)
  then have "file_steps s s4" unfolding s4_def by (rule two_steps)
  then have "file_steps s s5" unfolding s5_def by (rule two_steps)
  then have fs6: "file_steps s s6" unfolding s6_def by (rule two_steps)
  have h0: "holds s6 0" and h1: "holds s6 1" 
    unfolding holds_def f6(3) using f5(1) f6(1) by (blast, blast)
  have b0: "pr_believes (fs_procs s6 0)" using f5(2) unfolding f6(3) .
  have lt: "fs_now s6 < fs_now s6 + pr_leaseMs (fs_procs s6 0)" unfolding f6(3) f5(5) using pl(2) [of 0] by simp
  show ?thesis by (intro exI [of _ s6] conjI fs6 h0 h1 b0 f6(2) lt f6(5))
qed

theorem reclaim_breaks_exclusion_witness:
  "\<exists>t. file_steps sample_file_system t \<and> holds t 0 \<and> holds t 1 \<and> pr_believes (fs_procs t 0) \<and>
    pr_believes (fs_procs t 1) \<and> fs_now t < fs_now t + pr_leaseMs (fs_procs t 0) \<and>
    file_live (fs_file t) (fs_now t)"
  by (rule reclaim_breaks_exclusion [OF sample_initial])

end
