(* ===== verification/JobLedger.thy ===== *)
theory JobLedger
  imports Errors
begin

text \<open>
  \<open>src/job-store.ts\<close>: the durable job ledger, in its in-memory and its SQLite form. Both are tables
  of job records by id, in insertion order; a nullable column is an option. The clock is an
  argument. The inductive relation \<open>job_change\<close> is the state machine of one job, the locale
  \<open>job_ledger\<close> says that every operation moves every job along it, and it is interpreted on both
  stores. Strings are their UTF-8 bytes. Outside the model are the SHA-256 digest \<open>sha\<close>,
  \<open>JSON.stringify\<close> (\<open>js\<close>, \<open>None\<close> where it throws) and the collation \<open>lc\<close> of
  \<open>localeCompare\<close>.
\<close>

section \<open>Records and options\<close>

datatype job_state = Queued | Running | Completed | Failed | Retrying | Cancelled

record job_record =
  jb_jobId :: string
  jb_tenantId :: "string option"
  jb_type :: string
  jb_payload :: string
  jb_state :: job_state
  jb_createdAt :: int
  jb_startedAt :: "int option"
  jb_completedAt :: "int option"
  jb_attempt :: int
  jb_maxAttempts :: int
  jb_leaseOwner :: "string option"
  jb_leaseExpiresAt :: "int option"
  jb_lastError :: "string option"
  jb_runAfter :: "int option"

record 'p enqueue_input =
  en_type :: string
  en_payload :: 'p
  en_tenantId :: "string option"
  en_maxAttempts :: "int option"
  en_runAfterMs :: "int option"
  en_jobId :: "string option"

record claim_options =
  co_owner :: "string option"
  co_leaseMs :: "int option"
  co_types :: "string list option"
  co_tenantId :: "string option"

type_synonym job_table = "(string, job_record) js_map"

definition max_job_payload_bytes :: nat where "max_job_payload_bytes = 65536"
definition max_job_type_length :: nat where "max_job_type_length = 64"
definition default_max_attempts :: int where "default_max_attempts = 3"
definition default_job_lease_ms :: int where "default_job_lease_ms = 60000"
definition max_error_label_length :: nat where "max_error_label_length = 64"

definition default_to :: "'a \<Rightarrow> 'a option \<Rightarrow> 'a" where
  "default_to d v = (case v of None \<Rightarrow> d | Some x \<Rightarrow> x)"

lemma default_to_simps [simp]: "default_to d None = d" "default_to d (Some x) = x"
  by (simp_all add: default_to_def)

section \<open>Normalizing\<close>

definition job_type_tail :: "char \<Rightarrow> bool" where
  "job_type_tail c \<longleftrightarrow> is_alnum c \<or> c \<in> set ''._:-''"

definition normalize_job_type :: "string \<Rightarrow> thrown + string" where
  "normalize_job_type s =
     (let t = trim s in
      if t = '''' \<or> length t > max_job_type_length
      then Inl (Remembra INVALID_INPUT ''job type must be 1-64 characters'')
      else if \<not> (is_alnum (hd t) \<and> list_all job_type_tail (tl t))
      then Inl (Remembra INVALID_INPUT ''job type must be alphanumeric with . _ : - only'')
      else Inr t)"

definition normalize_tenant_id :: "(string \<Rightarrow> string) \<Rightarrow> string option \<Rightarrow> thrown + string option" where
  "normalize_tenant_id sha v =
     (case v of
        None \<Rightarrow> Inr None
      | Some s \<Rightarrow>
          if s = '''' then Inr None
          else if length s > 256 then Inl (Remembra INVALID_INPUT ''tenant id is invalid'')
          else if hex_digest 8 128 s then Inr (Some s)
          else Inr (Some (take 16 (sha s))))"

definition encode_job_payload :: "('p \<Rightarrow> string option) \<Rightarrow> 'p \<Rightarrow> thrown + string" where
  "encode_job_payload js payload =
     (case js payload of
        None \<Rightarrow> Inl (Remembra INVALID_INPUT ''job payload is not JSON-serializable'')
      | Some e \<Rightarrow>
          if length e > max_job_payload_bytes
          then Inl (Remembra INVALID_INPUT (''job payload is '' @ dec (length e) @ '' bytes, over the '' @
            dec max_job_payload_bytes @ '' limit''))
          else Inr e)"

text \<open>Evaluation compares lengths as integers.\<close>

lemma encode_job_payload_code [code]:
  "encode_job_payload js payload =
     (case js payload of
        None \<Rightarrow> Inl (Remembra INVALID_INPUT ''job payload is not JSON-serializable'')
      | Some e \<Rightarrow>
          if int (length e) > 65536
          then Inl (Remembra INVALID_INPUT (''job payload is '' @ dec (length e) @ '' bytes, over the '' @
            dec max_job_payload_bytes @ '' limit''))
          else Inr e)"
  by (simp add: encode_job_payload_def max_job_payload_bytes_def split: option.split)

definition error_label_char :: "char \<Rightarrow> bool" where
  "error_label_char c \<longleftrightarrow> is_alnum c \<or> c \<in> set ''_.-''"

definition normalize_error_label :: "string \<Rightarrow> string" where
  "normalize_error_label s =
     (let t = take max_error_label_length s in
      if t \<noteq> '''' \<and> list_all error_label_char t then t else ''unknown'')"

section \<open>Transitions of one job\<close>

definition terminal :: "job_state \<Rightarrow> bool" where
  "terminal st \<longleftrightarrow> st = Completed \<or> st = Failed \<or> st = Cancelled"

definition claimable :: "claim_options \<Rightarrow> int \<Rightarrow> job_record \<Rightarrow> bool" where
  "claimable opts now job \<longleftrightarrow>
     (jb_state job = Queued \<or> jb_state job = Retrying) \<and>
     (case jb_runAfter job of None \<Rightarrow> True | Some t \<Rightarrow> t \<le> now) \<and>
     (case co_types opts of None \<Rightarrow> True | Some ts \<Rightarrow> jb_type job \<in> set ts) \<and>
     (case co_tenantId opts of None \<Rightarrow> True | Some t \<Rightarrow> jb_tenantId job = Some t)"

definition new_job ::
  "string \<Rightarrow> string option \<Rightarrow> string \<Rightarrow> string \<Rightarrow> int \<Rightarrow> int option \<Rightarrow> int option \<Rightarrow> job_record" where
  "new_job jid tenant ty payload now max_opt delay =
     \<lparr>jb_jobId = jid, jb_tenantId = tenant, jb_type = ty, jb_payload = payload, jb_state = Queued,
      jb_createdAt = now, jb_startedAt = None, jb_completedAt = None, jb_attempt = 0,
      jb_maxAttempts = default_to default_max_attempts max_opt, jb_leaseOwner = None,
      jb_leaseExpiresAt = None, jb_lastError = None,
      jb_runAfter = (case delay of None \<Rightarrow> None | Some d \<Rightarrow> if d > 0 then Some (now + d) else None)\<rparr>"

definition claimed_job :: "string \<Rightarrow> int \<Rightarrow> int \<Rightarrow> job_record \<Rightarrow> job_record" where
  "claimed_job w leaseMs now job =
     job\<lparr>jb_state := Running, jb_attempt := jb_attempt job + 1,
       jb_startedAt := Some (default_to now (jb_startedAt job)),
       jb_leaseOwner := Some w, jb_leaseExpiresAt := Some (now + leaseMs)\<rparr>"

definition completed_job :: "int \<Rightarrow> job_record \<Rightarrow> job_record" where
  "completed_job now job =
     job\<lparr>jb_state := Completed, jb_completedAt := Some now, jb_leaseOwner := None, jb_leaseExpiresAt := None\<rparr>"

definition can_retry :: "job_record \<Rightarrow> bool" where
  "can_retry job \<longleftrightarrow> jb_attempt job < jb_maxAttempts job"

definition unleased_job :: "int \<Rightarrow> job_record \<Rightarrow> job_record" where
  "unleased_job now job =
     job\<lparr>jb_state := (if can_retry job then Retrying else Failed),
       jb_completedAt := (if can_retry job then None else Some now),
       jb_leaseOwner := None, jb_leaseExpiresAt := None\<rparr>"

definition failed_job :: "string \<Rightarrow> int \<Rightarrow> int \<Rightarrow> job_record \<Rightarrow> job_record" where
  "failed_job label retryAfterMs now job =
     (unleased_job now job)\<lparr>jb_lastError := Some (normalize_error_label label),
       jb_runAfter := (if can_retry job \<and> retryAfterMs > 0 then Some (now + retryAfterMs) else jb_runAfter job)\<rparr>"

definition expired_memory :: "int \<Rightarrow> job_record \<Rightarrow> bool" where
  "expired_memory now job \<longleftrightarrow> jb_state job = Running \<and>
     (case jb_leaseExpiresAt job of None \<Rightarrow> False | Some e \<Rightarrow> e \<le> now)"

definition prunable :: "int \<Rightarrow> int \<Rightarrow> job_record \<Rightarrow> bool" where
  "prunable olderThanMs now job \<longleftrightarrow> terminal (jb_state job) \<and>
     \<not> now - default_to (jb_createdAt job) (jb_completedAt job) < olderThanMs"

section \<open>The in-memory store\<close>

definition enqueued_job ::
  "(string \<Rightarrow> string) \<Rightarrow> ('p \<Rightarrow> string option) \<Rightarrow> string \<Rightarrow> 'p enqueue_input \<Rightarrow> int \<Rightarrow> thrown + job_record" where
  "enqueued_job sha js uuid inp now =
     and_then (normalize_tenant_id sha (en_tenantId inp)) (\<lambda>tenant.
     and_then (normalize_job_type (en_type inp)) (\<lambda>ty.
     and_then (encode_job_payload js (en_payload inp)) (\<lambda>payload.
       Inr (new_job (default_to uuid (en_jobId inp)) tenant ty payload now (en_maxAttempts inp) (en_runAfterMs inp)))))"

definition mem_enqueue ::
  "(string \<Rightarrow> string) \<Rightarrow> ('p \<Rightarrow> string option) \<Rightarrow> string \<Rightarrow> 'p enqueue_input \<Rightarrow> int \<Rightarrow> job_table \<Rightarrow>
    (thrown + string) \<times> job_table" where
  "mem_enqueue sha js uuid inp now s =
     (case enqueued_job sha js uuid inp now of
        Inl e \<Rightarrow> (Inl e, s)
      | Inr job \<Rightarrow> (Inr (jb_jobId job), AList.update (jb_jobId job) job s))"

definition older_job :: "(string \<Rightarrow> string \<Rightarrow> bool) \<Rightarrow> job_record \<Rightarrow> job_record \<Rightarrow> bool" where
  "older_job le a b \<longleftrightarrow> jb_createdAt a < jb_createdAt b \<or>
     jb_createdAt a = jb_createdAt b \<and> le (jb_jobId a) (jb_jobId b)"

definition mem_claim ::
  "(string \<Rightarrow> string \<Rightarrow> bool) \<Rightarrow> string \<Rightarrow> claim_options \<Rightarrow> int \<Rightarrow> job_table \<Rightarrow> job_record option \<times> job_table" where
  "mem_claim lc me opts now s =
     (case sort_by (older_job lc) (filter (claimable opts now) (map snd s)) of
        [] \<Rightarrow> (None, s)
      | candidate # _ \<Rightarrow>
          (let claimed = claimed_job (default_to me (co_owner opts))
                 (default_to default_job_lease_ms (co_leaseMs opts)) now candidate
           in (Some claimed, AList.update (jb_jobId claimed) claimed s)))"

text \<open>The guard shared by the owner's operations.\<close>

definition if_owner ::
  "string \<Rightarrow> string \<Rightarrow> (job_record \<Rightarrow> job_record) \<Rightarrow> job_table \<Rightarrow> bool \<times> job_table" where
  "if_owner jid w f s =
     (case map_of s jid of
        None \<Rightarrow> (False, s)
      | Some job \<Rightarrow>
          if jb_leaseOwner job \<noteq> Some w then (False, s)
          else (True, AList.update jid (f job) s))"

definition mem_complete :: "string \<Rightarrow> string \<Rightarrow> int \<Rightarrow> job_table \<Rightarrow> bool \<times> job_table" where
  "mem_complete jid w now s = if_owner jid w (completed_job now) s"

definition mem_fail :: "string \<Rightarrow> string \<Rightarrow> string \<Rightarrow> int \<Rightarrow> int \<Rightarrow> job_table \<Rightarrow> bool \<times> job_table" where
  "mem_fail jid w label retryAfterMs now s = if_owner jid w (failed_job label retryAfterMs now) s"

definition mem_renew :: "string \<Rightarrow> string \<Rightarrow> int \<Rightarrow> int \<Rightarrow> job_table \<Rightarrow> bool \<times> job_table" where
  "mem_renew jid w leaseMs now s = if_owner jid w (\<lambda>job. job\<lparr>jb_leaseExpiresAt := Some (now + leaseMs)\<rparr>) s"

definition mem_reclaim :: "int \<Rightarrow> job_table \<Rightarrow> nat \<times> job_table" where
  "mem_reclaim now s =
     (length (filter (expired_memory now) (map snd s)),
      map_vals (\<lambda>k job. if expired_memory now job then unleased_job now job else job) s)"

definition mem_prune :: "int \<Rightarrow> int \<Rightarrow> job_table \<Rightarrow> nat \<times> job_table" where
  "mem_prune olderThanMs now s =
     (length (filter (prunable olderThanMs now) (map snd s)),
      map_keep (\<lambda>k job. \<not> prunable olderThanMs now job) s)"

definition mem_stats :: "job_table \<Rightarrow> job_state \<Rightarrow> nat" where
  "mem_stats s st = length (filter (\<lambda>job. jb_state job = st) (map snd s))"

section \<open>The SQLite store\<close>

text \<open>Statements over a table of rows; text is compared byte by byte, as binary collation does.\<close>

definition sql_update ::
  "(job_record \<Rightarrow> bool) \<Rightarrow> (job_record \<Rightarrow> job_record) \<Rightarrow> job_table \<Rightarrow> nat \<times> job_table" where
  "sql_update cond f t =
     (length (filter cond (map snd t)), map_vals (\<lambda>k row. if cond row then f row else row) t)"

definition sql_delete :: "(job_record \<Rightarrow> bool) \<Rightarrow> job_table \<Rightarrow> nat \<times> job_table" where
  "sql_delete cond t = (length (filter cond (map snd t)), map_keep (\<lambda>k row. \<not> cond row) t)"

definition sql_enqueue ::
  "(string \<Rightarrow> string) \<Rightarrow> ('p \<Rightarrow> string option) \<Rightarrow> string \<Rightarrow> 'p enqueue_input \<Rightarrow> int \<Rightarrow> job_table \<Rightarrow>
    (thrown + string) \<times> job_table" where
  "sql_enqueue sha js uuid inp now t =
     (case enqueued_job sha js uuid inp now of
        Inl e \<Rightarrow> (Inl e, t)
      | Inr row \<Rightarrow>
          if map_has t (jb_jobId row)
          then (Inl (JsError ''Error'' ''UNIQUE constraint failed: jobs.job_id''), t)
          else (Inr (jb_jobId row), t @ [(jb_jobId row, row)]))"

text \<open>The \<open>WHERE\<close> clause of a claim: an empty list of types adds no condition.\<close>

definition sql_claimable :: "claim_options \<Rightarrow> int \<Rightarrow> job_record \<Rightarrow> bool" where
  "sql_claimable opts now row \<longleftrightarrow>
     (jb_state row = Queued \<or> jb_state row = Retrying) \<and>
     (case jb_runAfter row of None \<Rightarrow> True | Some t \<Rightarrow> t \<le> now) \<and>
     (case co_types opts of None \<Rightarrow> True | Some [] \<Rightarrow> True | Some ts \<Rightarrow> jb_type row \<in> set ts) \<and>
     (case co_tenantId opts of None \<Rightarrow> True | Some t \<Rightarrow> jb_tenantId row = Some t)"

definition sql_claim ::
  "string \<Rightarrow> claim_options \<Rightarrow> int \<Rightarrow> job_table \<Rightarrow> job_record option \<times> job_table" where
  "sql_claim me opts now t =
     (case sort_by (older_job bytes_le) (filter (sql_claimable opts now) (map snd t)) of
        [] \<Rightarrow> (None, t)
      | j # _ \<Rightarrow>
          (let t' = snd (sql_update (\<lambda>row. jb_jobId row = jb_jobId j)
                 (claimed_job (default_to me (co_owner opts))
                   (default_to default_job_lease_ms (co_leaseMs opts)) now) t)
           in (map_of t' (jb_jobId j), t')))"

definition sql_owned :: "string \<Rightarrow> string \<Rightarrow> job_record \<Rightarrow> bool" where
  "sql_owned jid w row \<longleftrightarrow> jb_jobId row = jid \<and> jb_leaseOwner row = Some w"

definition sql_complete :: "string \<Rightarrow> string \<Rightarrow> int \<Rightarrow> job_table \<Rightarrow> bool \<times> job_table" where
  "sql_complete jid w now t =
     (let (changes, t') = sql_update (sql_owned jid w) (completed_job now) t in (changes = 1, t'))"

text \<open>A retrying row takes the new \<open>run_after\<close>, a failed one loses it.\<close>

definition sql_failed_job :: "string \<Rightarrow> int \<Rightarrow> int \<Rightarrow> job_record \<Rightarrow> job_record" where
  "sql_failed_job label retryAfterMs now row =
     (unleased_job now row)\<lparr>jb_lastError := Some (normalize_error_label label),
       jb_runAfter := (if can_retry row \<and> retryAfterMs > 0 then Some (now + retryAfterMs) else None)\<rparr>"

definition sql_fail :: "string \<Rightarrow> string \<Rightarrow> string \<Rightarrow> int \<Rightarrow> int \<Rightarrow> job_table \<Rightarrow> bool \<times> job_table" where
  "sql_fail jid w label retryAfterMs now t =
     (let (changes, t') = sql_update (sql_owned jid w) (sql_failed_job label retryAfterMs now) t
      in (changes = 1, t'))"

definition sql_renew :: "string \<Rightarrow> string \<Rightarrow> int \<Rightarrow> int \<Rightarrow> job_table \<Rightarrow> bool \<times> job_table" where
  "sql_renew jid w leaseMs now t =
     (let (changes, t') = sql_update
            (\<lambda>row. sql_owned jid w row \<and> (case jb_leaseExpiresAt row of None \<Rightarrow> False | Some e \<Rightarrow> e > now))
            (\<lambda>row. row\<lparr>jb_leaseExpiresAt := Some (now + leaseMs)\<rparr>) t
      in (changes = 1, t'))"

definition sql_expired :: "int \<Rightarrow> job_record \<Rightarrow> bool" where
  "sql_expired now row \<longleftrightarrow> jb_state row = Running \<and>
     (case jb_leaseExpiresAt row of None \<Rightarrow> True | Some e \<Rightarrow> e \<le> now)"

definition sql_reclaim :: "int \<Rightarrow> job_table \<Rightarrow> nat \<times> job_table" where
  "sql_reclaim now t = sql_update (sql_expired now) (unleased_job now) t"

definition sql_prunable :: "int \<Rightarrow> int \<Rightarrow> job_record \<Rightarrow> bool" where
  "sql_prunable olderThanMs now row \<longleftrightarrow>
     (jb_state row = Completed \<or> jb_state row = Failed \<or> jb_state row = Cancelled) \<and>
     default_to (jb_createdAt row) (jb_completedAt row) \<le> now - olderThanMs"

definition sql_prune :: "int \<Rightarrow> int \<Rightarrow> job_table \<Rightarrow> nat \<times> job_table" where
  "sql_prune olderThanMs now t = sql_delete (sql_prunable olderThanMs now) t"

text \<open>\<open>GROUP BY state\<close> gives one row per state present; the loop adds them up.\<close>

definition sql_groups :: "job_table \<Rightarrow> (job_state \<times> nat) list" where
  "sql_groups t = map (\<lambda>st. (st, length (filter (\<lambda>row. jb_state row = st) (map snd t))))
     (remdups (map (jb_state \<circ> snd) t))"

definition sql_stats :: "job_table \<Rightarrow> job_state \<Rightarrow> nat" where
  "sql_stats t st = fold (\<lambda>(g, n) acc. if g = st then acc + n else acc) (sql_groups t) 0"

section \<open>Operations as steps\<close>

datatype 'p ledger_op =
    Enqueue "'p enqueue_input" string int
  | Claim claim_options string int
  | Complete string string int
  | Fail string string string int int
  | Renew string string int int
  | Reclaim int
  | Prune int int

fun op_time :: "'p ledger_op \<Rightarrow> int" where
  "op_time (Enqueue inp uuid now) = now"
| "op_time (Claim opts me now) = now"
| "op_time (Complete jid w now) = now"
| "op_time (Fail jid w l d now) = now"
| "op_time (Renew jid w n now) = now"
| "op_time (Reclaim now) = now"
| "op_time (Prune d now) = now"

text \<open>What an operation returns.\<close>

datatype ledger_answer =
    Enqueued "thrown + string"
  | Claimed "job_record option"
  | Accepted bool
  | Count nat

fun mem_step ::
  "(string \<Rightarrow> string) \<Rightarrow> ('p \<Rightarrow> string option) \<Rightarrow> (string \<Rightarrow> string \<Rightarrow> bool) \<Rightarrow> 'p ledger_op \<Rightarrow> job_table \<Rightarrow>
    ledger_answer \<times> job_table" where
  "mem_step sha js lc (Enqueue inp uuid now) s = map_prod Enqueued id (mem_enqueue sha js uuid inp now s)"
| "mem_step sha js lc (Claim opts me now) s = map_prod Claimed id (mem_claim lc me opts now s)"
| "mem_step sha js lc (Complete jid w now) s = map_prod Accepted id (mem_complete jid w now s)"
| "mem_step sha js lc (Fail jid w l d now) s = map_prod Accepted id (mem_fail jid w l d now s)"
| "mem_step sha js lc (Renew jid w n now) s = map_prod Accepted id (mem_renew jid w n now s)"
| "mem_step sha js lc (Reclaim now) s = map_prod Count id (mem_reclaim now s)"
| "mem_step sha js lc (Prune d now) s = map_prod Count id (mem_prune d now s)"

fun sql_step ::
  "(string \<Rightarrow> string) \<Rightarrow> ('p \<Rightarrow> string option) \<Rightarrow> 'p ledger_op \<Rightarrow> job_table \<Rightarrow> ledger_answer \<times> job_table" where
  "sql_step sha js (Enqueue inp uuid now) t = map_prod Enqueued id (sql_enqueue sha js uuid inp now t)"
| "sql_step sha js (Claim opts me now) t = map_prod Claimed id (sql_claim me opts now t)"
| "sql_step sha js (Complete jid w now) t = map_prod Accepted id (sql_complete jid w now t)"
| "sql_step sha js (Fail jid w l d now) t = map_prod Accepted id (sql_fail jid w l d now t)"
| "sql_step sha js (Renew jid w n now) t = map_prod Accepted id (sql_renew jid w n now t)"
| "sql_step sha js (Reclaim now) t = map_prod Count id (sql_reclaim now t)"
| "sql_step sha js (Prune d now) t = map_prod Count id (sql_prune d now t)"

text \<open>A run: the answers in order and the table they leave.\<close>

fun ledger_run :: "('x \<Rightarrow> 's \<Rightarrow> 'a \<times> 's) \<Rightarrow> 'x list \<Rightarrow> 's \<Rightarrow> 'a list \<times> 's" where
  "ledger_run step [] s = ([], s)"
| "ledger_run step (x # xs) s =
     (let (a, s') = step x s; (as, s'') = ledger_run step xs s' in (a # as, s''))"

lemma ledger_run_Cons [simp]:
  "fst (ledger_run step (x # xs) s) = fst (step x s) # fst (ledger_run step xs (snd (step x s)))"
  "snd (ledger_run step (x # xs) s) = snd (ledger_run step xs (snd (step x s)))"
  by (simp_all add: Let_def split: prod.splits)

lemma ledger_run_append:
  "snd (ledger_run step (xs @ ys) s) = snd (ledger_run step ys (snd (ledger_run step xs s)))"
  by (induction xs arbitrary: s) (simp_all del: ledger_run.simps(2))

section \<open>The state machine of one job\<close>

text \<open>
  How one operation may change the entry of one job, in either store. The two stores differ in the
  \<open>runAfter\<close> a failure leaves, so it is free here, and only the in-memory store re-enqueues a present
  id.
\<close>

inductive job_change :: "'p ledger_op \<Rightarrow> string \<Rightarrow> job_record option \<Rightarrow> job_record option \<Rightarrow> bool" where
  unchanged: "job_change x k j j"
| enqueued: "jb_jobId r = k \<Longrightarrow> jb_state r = Queued \<Longrightarrow> jb_attempt r = 0 \<Longrightarrow> jb_leaseOwner r = None \<Longrightarrow>
    jb_leaseExpiresAt r = None \<Longrightarrow> k = default_to uuid (en_jobId inp) \<Longrightarrow>
    job_change (Enqueue inp uuid now) k j (Some r)"
| claimed: "sql_claimable opts now r \<Longrightarrow> w = default_to me (co_owner opts) \<Longrightarrow>
    job_change (Claim opts me now) k (Some r)
      (Some (claimed_job w (default_to default_job_lease_ms (co_leaseMs opts)) now r))"
| completed: "jb_leaseOwner r = Some w \<Longrightarrow> job_change (Complete k w now) k (Some r) (Some (completed_job now r))"
| failed: "jb_leaseOwner r = Some w \<Longrightarrow>
    job_change (Fail k w l d now) k (Some r) (Some ((failed_job l d now r)\<lparr>jb_runAfter := ra\<rparr>))"
| renewed: "jb_leaseOwner r = Some w \<Longrightarrow>
    job_change (Renew k w n now) k (Some r) (Some (r\<lparr>jb_leaseExpiresAt := Some (now + n)\<rparr>))"
| reclaimed: "expired_memory now r \<Longrightarrow> job_change (Reclaim now) k (Some r) (Some (unleased_job now r))"
| pruned: "terminal (jb_state r) \<Longrightarrow> job_change (Prune d now) k (Some r) None"

inductive_cases job_changeE: "job_change x k j j'"

text \<open>What is true of every stored job.\<close>

definition job_ok :: "job_record \<Rightarrow> bool" where
  "job_ok r \<longleftrightarrow>
     (jb_state r = Running \<longleftrightarrow> jb_leaseOwner r \<noteq> None) \<and>
     (jb_leaseOwner r \<noteq> None \<longleftrightarrow> jb_leaseExpiresAt r \<noteq> None) \<and>
     0 \<le> jb_attempt r \<and> jb_attempt r \<le> max 1 (jb_maxAttempts r) \<and>
     (jb_state r = Queued \<longrightarrow> jb_attempt r = 0) \<and>
     (jb_state r = Retrying \<longrightarrow> can_retry r) \<and>
     (jb_state r = Running \<longrightarrow> 1 \<le> jb_attempt r)"

definition ledger_ok :: "job_table \<Rightarrow> bool" where
  "ledger_ok s \<longleftrightarrow> map_ok s \<and> (\<forall>k r. map_of s k = Some r \<longrightarrow> jb_jobId r = k \<and> job_ok r)"

lemmas job_update_defs = claimed_job_def completed_job_def unleased_job_def failed_job_def can_retry_def

lemma job_ok_claimed:
  "job_ok r \<Longrightarrow> jb_state r = Queued \<or> jb_state r = Retrying \<Longrightarrow> job_ok (claimed_job w n now r)"
  by (auto simp: job_ok_def job_update_defs)

lemma job_ok_completed: "job_ok r \<Longrightarrow> job_ok (completed_job now r)"
  by (auto simp: job_ok_def job_update_defs)

lemma job_ok_unleased: "job_ok r \<Longrightarrow> job_ok (unleased_job now r)"
  by (auto simp: job_ok_def job_update_defs)

lemma job_ok_runAfter [simp]: "job_ok (r\<lparr>jb_runAfter := ra\<rparr>) = job_ok r"
  by (simp add: job_ok_def can_retry_def)

lemma job_ok_failed: "job_ok r \<Longrightarrow> job_ok (failed_job l d now r)"
  by (auto simp: job_ok_def job_update_defs)

lemma job_ok_renewed:
  "job_ok r \<Longrightarrow> jb_leaseOwner r \<noteq> None \<Longrightarrow> job_ok (r\<lparr>jb_leaseExpiresAt := Some e\<rparr>)"
  by (auto simp: job_ok_def can_retry_def)

lemma job_ok_new: "job_ok (new_job k tn ty p now mx d)"
  by (simp add: job_ok_def new_job_def)

lemma sql_expired_ok: "job_ok r \<Longrightarrow> sql_expired now r = expired_memory now r"
  by (auto simp: job_ok_def sql_expired_def expired_memory_def split: option.splits)

lemma sql_prunable_iff: "sql_prunable d now r = prunable d now r"
  by (auto simp: sql_prunable_def prunable_def terminal_def)

lemma claimable_sql: "claimable opts now r \<Longrightarrow> sql_claimable opts now r"
  by (auto simp: claimable_def sql_claimable_def split: option.splits list.splits)

lemma enqueued_jobE:
  assumes "enqueued_job sha js uuid inp now = Inr r"
  shows "job_ok r" "jb_jobId r = default_to uuid (en_jobId inp)" "jb_state r = Queued" "jb_attempt r = 0"
    "jb_leaseOwner r = None" "jb_leaseExpiresAt r = None"
  using assms by (auto simp: enqueued_job_def and_then_Inr_iff job_ok_new) (simp_all add: new_job_def)

section \<open>The interface\<close>

text \<open>Who acts: the owner's operations on a job, claims by an owner, and enqueuing an id.\<close>

fun own_action :: "string \<Rightarrow> string \<Rightarrow> 'p ledger_op \<Rightarrow> bool" where
  "own_action k w (Complete j v now) \<longleftrightarrow> j = k \<and> v = w"
| "own_action k w (Fail j v l d now) \<longleftrightarrow> j = k \<and> v = w"
| "own_action k w (Renew j v n now) \<longleftrightarrow> j = k \<and> v = w"
| "own_action k w x \<longleftrightarrow> False"

fun claims_as :: "string \<Rightarrow> 'p ledger_op \<Rightarrow> bool" where
  "claims_as w (Claim opts me now) \<longleftrightarrow> default_to me (co_owner opts) = w"
| "claims_as w x \<longleftrightarrow> False"

fun enqueues :: "string \<Rightarrow> 'p ledger_op \<Rightarrow> bool" where
  "enqueues k (Enqueue inp uuid now) \<longleftrightarrow> default_to uuid (en_jobId inp) = k"
| "enqueues k x \<longleftrightarrow> False"

lemma held_change:
  assumes "job_change x k (Some r) j'" and "jb_state r = Running" and "jb_leaseOwner r = Some w"
    and "jb_leaseExpiresAt r = Some e" and "op_time x < e" and "\<not> own_action k w x" and "\<not> enqueues k x"
  shows "j' = Some r"
  using assms by (cases rule: job_changeE) (auto simp: sql_claimable_def expired_memory_def terminal_def)

lemma stranger_change:
  assumes "job_change x k j j'" and "map_option jb_leaseOwner j \<noteq> Some (Some w)" and "\<not> claims_as w x"
  shows "map_option jb_leaseOwner j' \<noteq> Some (Some w)"
  using assms by (cases rule: job_changeE) (auto simp: job_update_defs)

lemma terminal_change:
  assumes "job_change x k (Some r) j'" and "terminal (jb_state r)" and "jb_leaseOwner r = None"
    and "\<not> enqueues k x"
  shows "j' = Some r \<or> j' = None"
  using assms by (cases rule: job_changeE) (auto simp: sql_claimable_def expired_memory_def terminal_def)

lemma absent_change:
  assumes "job_change x k None j'" and "\<not> enqueues k x"
  shows "j' = None"
  using assms by (cases rule: job_changeE) auto

text \<open>How many more times a job can be granted.\<close>

definition granted_to :: "string \<Rightarrow> ledger_answer \<Rightarrow> bool" where
  "granted_to k a = (case a of Claimed (Some r) \<Rightarrow> jb_jobId r = k | _ \<Rightarrow> False)"

definition tries_left :: "job_record option \<Rightarrow> int" where
  "tries_left j = (case j of None \<Rightarrow> 0 | Some r \<Rightarrow> max 1 (jb_maxAttempts r) - jb_attempt r)"

lemma tries_left_change:
  assumes "job_change x k j j'" and "\<forall>r. j = Some r \<longrightarrow> job_ok r" and "\<not> enqueues k x"
  shows "tries_left j' \<le> tries_left j"
  using assms by (cases rule: job_changeE) (auto simp: tries_left_def job_update_defs job_ok_def)

lemma tries_left_claimed:
  assumes "job_change (Claim opts me now) k (Some q) (Some r)" and "jb_leaseOwner q = None" and "jb_leaseOwner r \<noteq> None"
  shows "1 + tries_left (Some r) = tries_left (Some q)"
  using assms by (cases rule: job_changeE) (auto simp: tries_left_def claimed_job_def)

text \<open>
  A ledger for its clients: the entry of a job, well-formedness, and steps that keep it and move every
  job along the state machine. A granted claim returns the entry it wrote; a refused operation of
  an owner changes nothing and is refused exactly to those who do not own the job.
\<close>

locale job_ledger =
  fixes get :: "'s \<Rightarrow> string \<Rightarrow> job_record option"
    and ok :: "'s \<Rightarrow> bool"
    and step :: "'p ledger_op \<Rightarrow> 's \<Rightarrow> ledger_answer \<times> 's"
  assumes get_ok: "ok s \<Longrightarrow> get s k = Some r \<Longrightarrow> job_ok r \<and> jb_jobId r = k"
    and step_ok: "ok s \<Longrightarrow> ok (snd (step x s))"
    and step_change: "ok s \<Longrightarrow> job_change x k (get s k) (get (snd (step x s)) k)"
    and claim_granted: "ok s \<Longrightarrow> fst (step (Claim opts me now) s) = Claimed (Some r) \<Longrightarrow>
      get (snd (step (Claim opts me now) s)) (jb_jobId r) = Some r \<and>
      jb_leaseOwner r = Some (default_to me (co_owner opts)) \<and>
      jb_leaseExpiresAt r = Some (now + default_to default_job_lease_ms (co_leaseMs opts)) \<and>
      (\<exists>q. get s (jb_jobId r) = Some q \<and> (jb_state q = Queued \<or> jb_state q = Retrying))"
    and claimed_op: "fst (step x s) = Claimed (Some r) \<Longrightarrow> \<exists>opts me now. x = Claim opts me now"
    and not_owner_complete: "ok s \<Longrightarrow> map_option jb_leaseOwner (get s k) \<noteq> Some (Some w) \<Longrightarrow>
      step (Complete k w now) s = (Accepted False, s)"
    and not_owner_fail: "ok s \<Longrightarrow> map_option jb_leaseOwner (get s k) \<noteq> Some (Some w) \<Longrightarrow>
      step (Fail k w l d now) s = (Accepted False, s)"
    and not_owner_renew: "ok s \<Longrightarrow> map_option jb_leaseOwner (get s k) \<noteq> Some (Some w) \<Longrightarrow>
      step (Renew k w n now) s = (Accepted False, s)"
begin

lemma run_ok: "ok s \<Longrightarrow> ok (snd (ledger_run step xs s))"
  by (induction xs arbitrary: s) (simp_all del: ledger_run.simps(2) add: step_ok)

text \<open>A predicate on entries that every allowed change keeps holds after a run.\<close>

lemma run_keeps:
  assumes "ok s" and "P (get s k)"
    and "\<And>x j j'. x \<in> set xs \<Longrightarrow> job_change x k j j' \<Longrightarrow> \<forall>r. j = Some r \<longrightarrow> job_ok r \<and> jb_jobId r = k \<Longrightarrow>
      P j \<Longrightarrow> P j'"
  shows "P (get (snd (ledger_run step xs s)) k)"
  using assms
proof (induction xs arbitrary: s)
  case Nil
  then show ?case by simp
next
  case (Cons x xs)
  have "P (get (snd (step x s)) k)"
    using Cons.prems(3) [OF list.set_intros(1) step_change [OF Cons.prems(1)]] Cons.prems(1,2) get_ok by blast
  from Cons.IH [OF step_ok [OF Cons.prems(1)] this Cons.prems(3) [OF list.set_intros(2)]] show ?case
    unfolding ledger_run_Cons by assumption
qed

text \<open>A leased job is left alone until its lease runs out.\<close>

lemma held_stays:
  assumes "ok s" and "get s k = Some r" and "jb_leaseOwner r = Some w" and "jb_leaseExpiresAt r = Some e"
    and "\<forall>x \<in> set xs. op_time x < e \<and> \<not> own_action k w x \<and> \<not> enqueues k x"
  shows "get (snd (ledger_run step xs s)) k = Some r"
proof (rule run_keeps [where P = "\<lambda>j. j = Some r"])
  fix x j j'
  assume x: "x \<in> set xs" and step: "job_change x k j j'"
    and jok: "\<forall>r. j = Some r \<longrightarrow> job_ok r \<and> jb_jobId r = k" and j: "j = Some r"
  from jok j assms(3) have run: "jb_state r = Running" by (simp add: job_ok_def)
  from x assms(5) have "op_time x < e" "\<not> own_action k w x" "\<not> enqueues k x" by simp_all
  with held_change [OF step [unfolded j] run assms(3,4)] show "j' = Some r" by simp
qed (use assms in simp_all)

lemma held_not_claimed:
  assumes "ok s" and "get s k = Some r" and "jb_state r = Running" and "jb_jobId q = k"
  shows "fst (step (Claim opts me now) s) \<noteq> Claimed (Some q)"
  using claim_granted [OF assms(1), of opts me now q] assms(2-4) by auto

text \<open>An owner that does not claim again stays a stranger to a job it does not hold.\<close>

lemma stranger_stays:
  assumes "ok s" and "map_option jb_leaseOwner (get s k) \<noteq> Some (Some w)"
    and "\<forall>x \<in> set xs. \<not> claims_as w x"
  shows "map_option jb_leaseOwner (get (snd (ledger_run step xs s)) k) \<noteq> Some (Some w)"
proof (rule run_keeps [where P = "\<lambda>j. map_option jb_leaseOwner j \<noteq> Some (Some w)"])
  fix x j j'
  assume x: "x \<in> set xs" and "job_change x k j j'" and j: "map_option jb_leaseOwner j \<noteq> Some (Some w)"
  from x assms(3) have "\<not> claims_as w x" by simp
  with \<open>job_change x k j j'\<close> j show "map_option jb_leaseOwner j' \<noteq> Some (Some w)"
    by (rule stranger_change)
qed (use assms in simp_all)

text \<open>A terminal job never changes again; it can only be pruned.\<close>

lemma terminal_stays:
  assumes "ok s" and "get s k = Some r" and "terminal (jb_state r)" and "\<forall>x \<in> set xs. \<not> enqueues k x"
  shows "get (snd (ledger_run step xs s)) k = Some r \<or> get (snd (ledger_run step xs s)) k = None"
proof (rule run_keeps [where P = "\<lambda>j. j = Some r \<or> j = None"])
  fix x j j'
  assume x: "x \<in> set xs" and "job_change x k j j'" and jok: "\<forall>r. j = Some r \<longrightarrow> job_ok r \<and> jb_jobId r = k"
    and j: "j = Some r \<or> j = None"
  from get_ok [OF assms(1,2)] assms(3) have free: "jb_leaseOwner r = None" by (auto simp: job_ok_def terminal_def)
  from x assms(4) have "\<not> enqueues k x" by simp
  with \<open>job_change x k j j'\<close> j free assms(3) show "j' = Some r \<or> j' = None"
    using terminal_change absent_change by blast
qed (use assms in simp_all)

text \<open>Without re-enqueuing, the grants of a job are bounded by the attempts it has left.\<close>

lemma step_grants:
  assumes "ok s" and "\<not> enqueues k x"
  shows "(if granted_to k (fst (step x s)) then 1 else 0) + tries_left (get (snd (step x s)) k) \<le> tries_left (get s k)"
proof (cases "granted_to k (fst (step x s))")
  case True
  then obtain r where ans: "fst (step x s) = Claimed (Some r)" and k: "jb_jobId r = k"
    by (auto simp: granted_to_def split: ledger_answer.splits option.splits)
  from claimed_op [OF ans] obtain opts me now where x: "x = Claim opts me now" by blast
  from claim_granted [OF assms(1) ans [unfolded x]] obtain q where
    r: "get (snd (step x s)) k = Some r" "jb_leaseOwner r \<noteq> None" and
    q: "get s k = Some q" "jb_state q = Queued \<or> jb_state q = Retrying" by (auto simp: x k)
  from get_ok [OF assms(1) q(1)] q(2) have "jb_leaseOwner q = None" by (auto simp: job_ok_def)
  moreover from step_change [OF assms(1), of x k] r(1) q(1)
  have "job_change x k (Some q) (Some r)" by simp
  ultimately have "1 + tries_left (Some r) = tries_left (Some q)"
    unfolding x using tries_left_claimed r(2) by blast
  with r(1) q(1) True show ?thesis by simp
next
  case False
  with tries_left_change [OF step_change [OF assms(1)] _ assms(2)] get_ok [OF assms(1)] show ?thesis by simp
qed

lemma grants_bounded:
  assumes "ok s" and "\<forall>x \<in> set xs. \<not> enqueues k x"
  shows "int (length (filter (granted_to k) (fst (ledger_run step xs s)))) \<le> tries_left (get s k)"
  using assms
proof (induction xs arbitrary: s)
  case Nil
  then show ?case using get_ok [OF Nil.prems(1)] by (auto simp: tries_left_def job_ok_def split: option.splits)
next
  case (Cons x xs)
  from Cons.prems have "\<not> enqueues k x" "\<forall>x \<in> set xs. \<not> enqueues k x" by simp_all
  with step_grants [OF Cons.prems(1) this(1)] Cons.IH [OF step_ok [OF Cons.prems(1)] this(2), of x]
  show ?case unfolding ledger_run_Cons by (auto split: if_splits)
qed

end

section \<open>Both stores implement the interface\<close>

lemma ledger_ok_get: "ledger_ok s \<Longrightarrow> map_of s k = Some r \<Longrightarrow> job_ok r \<and> jb_jobId r = k"
  by (simp add: ledger_ok_def)

lemma ledger_ok_update:
  "ledger_ok s \<Longrightarrow> job_ok r \<Longrightarrow> jb_jobId r = k \<Longrightarrow> ledger_ok (AList.update k r s)"
  by (auto simp: ledger_ok_def table_simps)

lemma ledger_ok_vals:
  "ledger_ok s \<Longrightarrow> (\<And>k r. map_of s k = Some r \<Longrightarrow> job_ok (f k r) \<and> jb_jobId (f k r) = jb_jobId r) \<Longrightarrow>
    ledger_ok (map_vals f s)"
  by (auto simp: ledger_ok_def table_simps)

lemma ledger_ok_keep: "ledger_ok s \<Longrightarrow> ledger_ok (map_keep p s)"
  by (auto simp: ledger_ok_def get_keep split: option.splits if_splits)

lemma jobId_updates [simp]:
  "jb_jobId (claimed_job w n now r) = jb_jobId r" "jb_jobId (completed_job now r) = jb_jobId r"
  "jb_jobId (unleased_job now r) = jb_jobId r" "jb_jobId (failed_job l d now r) = jb_jobId r"
  "jb_jobId (sql_failed_job l d now r) = jb_jobId r"
  by (simp_all add: job_update_defs sql_failed_job_def)

lemma sql_failed_job_failed:
  "\<exists>ra. sql_failed_job l d now r = (failed_job l d now r)\<lparr>jb_runAfter := ra\<rparr>"
  by (rule exI [of _ "jb_runAfter (sql_failed_job l d now r)"]) (simp add: sql_failed_job_def failed_job_def)

lemma ledger_values: "ledger_ok s \<Longrightarrow> r \<in> set (map snd s) \<Longrightarrow> map_of s (jb_jobId r) = Some r"
  by (auto simp: ledger_ok_def get_eq_in_set)

text \<open>The candidate of a claim is a stored, claimable job; and rows are selected by their id.\<close>

lemma candidate_stored:
  assumes "ledger_ok s" and "sort_by le (filter p (map snd s)) = c # cs"
  shows "map_of s (jb_jobId c) = Some c" "p c"
proof -
  have "c \<in> set (sort_by le (filter p (map snd s)))" using assms(2) by simp
  then have "c \<in> set (map snd s)" "p c" unfolding set_sort_by by auto
  then show "map_of s (jb_jobId c) = Some c" "p c" using ledger_values [OF assms(1)] by simp_all
qed

lemma sql_update_get:
  "map_of (snd (sql_update c f t)) k = map_option (\<lambda>r. if c r then f r else r) (map_of t k)"
  by (simp add: sql_update_def table_simps)

lemma sql_update_keyed:
  assumes "ledger_ok t" and "\<And>r. c r \<Longrightarrow> jb_jobId r = k"
  shows "fst (sql_update c f t) = (case map_of t k of None \<Rightarrow> 0 | Some r \<Rightarrow> if c r then 1 else 0)"
    and "\<not> (\<exists>r. map_of t k = Some r \<and> c r) \<Longrightarrow> snd (sql_update c f t) = t"
proof -
  have keys: "(j, r) \<in> set t \<Longrightarrow> c r \<Longrightarrow> j = k \<and> map_of t k = Some r" for j r
    using assms(1) assms(2) [of r] by (auto simp: ledger_ok_def get_eq_in_set)
  have "filter c (map snd t) = (case map_of t k of None \<Rightarrow> [] | Some r \<Rightarrow> if c r then [r] else [])"
  proof -
    have "filter (\<lambda>(j, r). c r) t = (case map_of t k of None \<Rightarrow> [] | Some r \<Rightarrow> if c r then [(k, r)] else [])"
      if "map_ok t" and "\<forall>j r. (j, r) \<in> set t \<longrightarrow> c r \<longrightarrow> j = k" for t :: job_table
      using that
    proof (induction t)
      case Nil
      then show ?case by simp
    next
      case (Cons q t)
      obtain j r where q: "q = (j, r)" by (cases q)
      from Cons.prems have "map_ok t" and "\<forall>j r. (j, r) \<in> set t \<longrightarrow> c r \<longrightarrow> j = k"
        and "map_of t j = None" by (auto simp: q map_ok_def map_of_eq_None_iff)
      moreover have "c r \<Longrightarrow> j = k" using Cons.prems(2) q by simp
      ultimately show ?case using Cons.IH by (cases "j = k") (auto simp: q)
    qed
    moreover have "map_ok t" "\<forall>j r. (j, r) \<in> set t \<longrightarrow> c r \<longrightarrow> j = k"
      using keys assms(1) by (simp_all add: ledger_ok_def)
    ultimately have keyed: "filter (\<lambda>(j, r). c r) t =
        (case map_of t k of None \<Rightarrow> [] | Some r \<Rightarrow> if c r then [(k, r)] else [])" by blast
    have "filter c (map snd t) = map snd (filter (\<lambda>(j, r). c r) t)"
      by (simp add: filter_map comp_def case_prod_unfold)
    also have "\<dots> = (case map_of t k of None \<Rightarrow> [] | Some r \<Rightarrow> if c r then [r] else [])"
      unfolding keyed by (simp split: option.split)
    finally show ?thesis .
  qed
  then show "fst (sql_update c f t) = (case map_of t k of None \<Rightarrow> 0 | Some r \<Rightarrow> if c r then 1 else 0)"
    by (simp add: sql_update_def split: option.splits)
  assume none: "\<not> (\<exists>r. map_of t k = Some r \<and> c r)"
  have "(\<lambda>(j, r). (j, if c r then f r else r)) q = q" if "q \<in> set t" for q
    using keys [of "fst q" "snd q"] that none by (cases q) fastforce
  then show "snd (sql_update c f t) = t" unfolding sql_update_def map_vals_def snd_conv by (rule map_idI)
qed

text \<open>Owner operations of both stores, read through the interface.\<close>

lemma if_owner_get:
  "map_of (snd (if_owner jid w f s)) k =
     (case map_of s k of None \<Rightarrow> None
      | Some r \<Rightarrow> if k = jid \<and> jb_leaseOwner r = Some w then Some (f r) else Some r)"
  by (auto simp: if_owner_def table_simps split: option.splits)

lemma if_owner_refused:
  "map_option jb_leaseOwner (map_of s jid) \<noteq> Some (Some w) \<Longrightarrow> if_owner jid w f s = (False, s)"
  by (auto simp: if_owner_def split: option.splits)

lemma if_owner_accepted: "fst (if_owner jid w f s) \<longleftrightarrow> map_option jb_leaseOwner (map_of s jid) = Some (Some w)"
  by (auto simp: if_owner_def split: option.splits)

lemma if_owner_ok:
  assumes "ledger_ok s" and "\<And>r. job_ok r \<Longrightarrow> jb_leaseOwner r \<noteq> None \<Longrightarrow> job_ok (f r) \<and> jb_jobId (f r) = jb_jobId r"
  shows "ledger_ok (snd (if_owner jid w f s))"
  using assms(1) assms(2) ledger_ok_get [OF assms(1)]
  by (auto simp: if_owner_def intro!: ledger_ok_update split: option.splits)

lemma sql_owned_get:
  assumes "ledger_ok t"
  shows "map_of (snd (sql_update (\<lambda>r. sql_owned jid w r \<and> p r) f t)) k =
     (case map_of t k of None \<Rightarrow> None
      | Some r \<Rightarrow> if k = jid \<and> jb_leaseOwner r = Some w \<and> p r then Some (f r) else Some r)"
  using ledger_ok_get [OF assms] by (auto simp: sql_update_get sql_owned_def split: option.splits)

lemma sql_owned_refused:
  assumes "ledger_ok t" and "map_option jb_leaseOwner (map_of t jid) \<noteq> Some (Some w)"
  shows "sql_update (\<lambda>r. sql_owned jid w r \<and> p r) f t = (0, t)"
proof -
  have "\<not> (\<exists>r. map_of t jid = Some r \<and> sql_owned jid w r \<and> p r)"
    using assms(2) by (auto simp: sql_owned_def)
  moreover note sql_update_keyed [OF assms(1), of "\<lambda>r. sql_owned jid w r \<and> p r" jid f]
  ultimately show ?thesis by (auto simp: sql_owned_def prod_eq_iff split: option.splits)
qed

lemma sql_owned_accepted:
  assumes "ledger_ok t"
  shows "fst (sql_update (\<lambda>r. sql_owned jid w r \<and> p r) f t) = 1 \<longleftrightarrow>
    (\<exists>r. map_of t jid = Some r \<and> jb_leaseOwner r = Some w \<and> p r)"
  using sql_update_keyed(1) [OF assms, of "\<lambda>r. sql_owned jid w r \<and> p r" jid f] ledger_ok_get [OF assms, of jid]
  by (auto simp: sql_owned_def split: option.splits)

lemma sql_update_ok:
  assumes "ledger_ok t" and "\<And>r. c r \<Longrightarrow> job_ok r \<Longrightarrow> job_ok (f r) \<and> jb_jobId (f r) = jb_jobId r"
  shows "ledger_ok (snd (sql_update c f t))"
  unfolding sql_update_def snd_conv using assms(1)
  by (rule ledger_ok_vals) (use assms ledger_ok_get in auto)

text \<open>The plain forms, with no further condition on the row.\<close>

lemmas sql_owned_plain = sql_owned_get [where p = "\<lambda>r. True", simplified]
  sql_owned_refused [where p = "\<lambda>r. True", simplified] sql_owned_accepted [where p = "\<lambda>r. True", simplified]

lemma owned_has_owner: "sql_owned jid w r \<Longrightarrow> jb_leaseOwner r \<noteq> None"
  by (simp add: sql_owned_def)

lemma job_ok_sql_failed: "job_ok r \<Longrightarrow> job_ok (sql_failed_job l d now r)"
  using sql_failed_job_failed [of l d now r] job_ok_failed by force

subsection \<open>The claims\<close>

lemma mem_claim_cases:
  assumes "ledger_ok s"
  obtains "mem_claim lc me opts now s = (None, s)" "\<forall>k r. map_of s k = Some r \<longrightarrow> \<not> claimable opts now r"
  | c where "map_of s (jb_jobId c) = Some c" "claimable opts now c"
      "mem_claim lc me opts now s =
        (let j = claimed_job (default_to me (co_owner opts)) (default_to default_job_lease_ms (co_leaseMs opts)) now c
         in (Some j, AList.update (jb_jobId c) j s))"
proof (cases "sort_by (older_job lc) (filter (claimable opts now) (map snd s))")
  case Nil
  have "\<not> claimable opts now r" if "map_of s k = Some r" for k r
    using Nil get_in_set [OF that] by (force simp: filter_empty_conv)
  with Nil show ?thesis by (intro that(1)) (simp_all add: mem_claim_def)
next
  case (Cons c cs)
  from candidate_stored [OF assms Cons] show ?thesis
    by (rule that(2)) (simp add: mem_claim_def Cons Let_def)
qed

lemma sql_claim_cases:
  assumes "ledger_ok t"
  obtains "sql_claim me opts now t = (None, t)" "\<forall>k r. map_of t k = Some r \<longrightarrow> \<not> sql_claimable opts now r"
  | c f where "map_of t (jb_jobId c) = Some c" "sql_claimable opts now c"
      "f = claimed_job (default_to me (co_owner opts)) (default_to default_job_lease_ms (co_leaseMs opts)) now"
      "sql_claim me opts now t = (Some (f c), snd (sql_update (\<lambda>r. jb_jobId r = jb_jobId c) f t))"
proof (cases "sort_by (older_job bytes_le) (filter (sql_claimable opts now) (map snd t))")
  case Nil
  have "\<not> sql_claimable opts now r" if "map_of t k = Some r" for k r
    using Nil get_in_set [OF that] by (force simp: filter_empty_conv)
  with Nil show ?thesis by (intro that(1)) (simp_all add: sql_claim_def)
next
  case (Cons c cs)
  from candidate_stored [OF assms Cons] show ?thesis
    by (rule that(2) [OF _ _ refl]) (simp add: sql_claim_def Cons Let_def sql_update_get candidate_stored [OF assms Cons])
qed

lemma claimable_waiting: "sql_claimable opts now r \<Longrightarrow> jb_state r = Queued \<or> jb_state r = Retrying"
  by (simp add: sql_claimable_def)

lemma claimed_job_leased [simp]:
  "jb_leaseOwner (claimed_job w n now r) = Some w" "jb_leaseExpiresAt (claimed_job w n now r) = Some (now + n)"
  by (simp_all add: claimed_job_def)

subsection \<open>The interpretations\<close>

lemma claimed_stays_ok:
  assumes "ledger_ok s" and "map_of s k = Some c" and "sql_claimable opts now c"
  shows "job_ok (claimed_job w n now c)" "jb_jobId (claimed_job w n now c) = k"
  using ledger_ok_get [OF assms(1,2)] claimable_waiting [OF assms(3)] by (simp_all add: job_ok_claimed)

lemma mem_step_ok:
  assumes "ledger_ok s"
  shows "ledger_ok (snd (mem_step sha js lc x s))"
proof (cases x)
  case (Enqueue inp uuid now)
  with assms show ?thesis
    by (auto simp: mem_enqueue_def intro!: ledger_ok_update dest: enqueued_jobE split: sum.splits)
next
  case (Claim opts me now)
  show ?thesis
  proof (rule mem_claim_cases [OF assms, of lc me opts now])
    fix c
    assume c: "map_of s (jb_jobId c) = Some c" "claimable opts now c"
      and eq: "mem_claim lc me opts now s =
        (let j = claimed_job (default_to me (co_owner opts)) (default_to default_job_lease_ms (co_leaseMs opts)) now c
         in (Some j, AList.update (jb_jobId c) j s))"
    from claimed_stays_ok [OF assms c(1) claimable_sql [OF c(2)]] show ?thesis
      by (simp add: Claim eq Let_def ledger_ok_update [OF assms])
  qed (use assms Claim in simp)
next
  case (Reclaim now)
  with assms ledger_ok_get [OF assms] show ?thesis
    by (auto simp: mem_reclaim_def intro!: ledger_ok_vals job_ok_unleased)
qed (use assms in \<open>auto simp: mem_complete_def mem_fail_def mem_renew_def mem_prune_def
    intro!: if_owner_ok ledger_ok_keep job_ok_completed job_ok_failed job_ok_renewed\<close>)

lemma sql_step_ok:
  assumes "ledger_ok t"
  shows "ledger_ok (snd (sql_step sha js x t))"
proof (cases x)
  case (Enqueue inp uuid now)
  show ?thesis
  proof (cases "enqueued_job sha js uuid inp now")
    case (Inr row)
    with assms enqueued_jobE [OF Inr] show ?thesis
      using update_absent [of t "jb_jobId row" row] ledger_ok_update [OF assms, of row]
      by (auto simp: Enqueue sql_enqueue_def)
  qed (use assms Enqueue in \<open>simp add: sql_enqueue_def\<close>)
next
  case (Claim opts me now)
  show ?thesis
  proof (rule sql_claim_cases [OF assms, of me opts now])
    fix c f
    assume c: "map_of t (jb_jobId c) = Some c" "sql_claimable opts now c"
      and f: "f = claimed_job (default_to me (co_owner opts)) (default_to default_job_lease_ms (co_leaseMs opts)) now"
      and eq: "sql_claim me opts now t = (Some (f c), snd (sql_update (\<lambda>r. jb_jobId r = jb_jobId c) f t))"
    have "ledger_ok (snd (sql_update (\<lambda>r. jb_jobId r = jb_jobId c) f t))"
      unfolding sql_update_def snd_conv using assms
    proof (rule ledger_ok_vals)
      fix k r
      assume "map_of t k = Some r"
      with c(1) ledger_ok_get [OF assms this] claimed_stays_ok(1) [OF assms c]
      show "job_ok (if jb_jobId r = jb_jobId c then f r else r) \<and>
          jb_jobId (if jb_jobId r = jb_jobId c then f r else r) = jb_jobId r"
        by (cases "jb_jobId r = jb_jobId c") (simp_all add: f)
    qed
    then show ?thesis by (simp add: Claim eq)
  qed (use assms Claim in simp)
next
  case (Complete jid w now)
  with assms show ?thesis
    by (auto simp: sql_complete_def Let_def case_prod_unfold intro!: sql_update_ok job_ok_completed)
next
  case (Fail jid w l d now)
  with assms show ?thesis
    by (auto simp: sql_fail_def Let_def case_prod_unfold intro!: sql_update_ok job_ok_sql_failed)
next
  case (Renew jid w n now)
  with assms show ?thesis
    by (auto simp: sql_renew_def Let_def case_prod_unfold intro!: sql_update_ok job_ok_renewed dest: owned_has_owner)
next
  case (Reclaim now)
  with assms show ?thesis by (auto simp: sql_reclaim_def intro!: sql_update_ok job_ok_unleased)
next
  case (Prune d now)
  with assms show ?thesis by (auto simp: sql_prune_def sql_delete_def intro!: ledger_ok_keep)
qed

lemma owner_is_some: "map_option jb_leaseOwner (map_of s k) = Some (Some w) \<longleftrightarrow>
    (\<exists>r. map_of s k = Some r \<and> jb_leaseOwner r = Some w)"
  by (cases "map_of s k") auto

lemma mem_step_change:
  assumes "ledger_ok s"
  shows "job_change x k (map_of s k) (map_of (snd (mem_step sha js lc x s)) k)"
proof (cases x)
  case (Enqueue inp uuid now)
  then show ?thesis
    by (auto simp: mem_enqueue_def table_simps intro!: job_change.intros dest: enqueued_jobE split: sum.splits)
next
  case (Claim opts me now)
  show ?thesis
    by (rule mem_claim_cases [OF assms, of lc me opts now])
      (use Claim in \<open>auto simp: Let_def table_simps intro!: job_change.intros claimable_sql\<close>)
next
  case (Reclaim now)
  with assms show ?thesis
    by (auto simp: mem_reclaim_def table_simps intro!: job_change.intros split: option.splits) 
      (cases "map_of s k"; auto intro!: job_change.intros)
next
  case (Fail jid w l d now)
  have same: "failed_job l d now r = (failed_job l d now r)\<lparr>jb_runAfter := jb_runAfter (failed_job l d now r)\<rparr>" for r
    by simp
  show ?thesis
  proof (cases "map_of s k")
    case (Some r)
    then show ?thesis
      using job_change.failed [of r w k l d now "jb_runAfter (failed_job l d now r)", folded same]
      by (auto simp: Fail mem_fail_def if_owner_get intro: job_change.unchanged)
  qed (auto simp: Fail mem_fail_def if_owner_get intro: job_change.unchanged)
qed (use assms in \<open>auto simp: mem_complete_def mem_renew_def mem_prune_def if_owner_get get_keep ledger_ok_def
    prunable_def intro!: job_change.intros split: option.splits\<close>)

lemma sql_step_change:
  assumes "ledger_ok t"
  shows "job_change x k (map_of t k) (map_of (snd (sql_step sha js x t)) k)"
proof (cases x)
  case (Enqueue inp uuid now)
  show ?thesis
  proof (cases "enqueued_job sha js uuid inp now")
    case (Inr row)
    have "map_of (t @ [(jb_jobId row, row)]) k = (if k = jb_jobId row then Some row else map_of t k)"
      if "\<not> map_has t (jb_jobId row)"
      using update_absent [OF that, of row, symmetric] by (simp add: table_simps)
    with enqueued_jobE [OF Inr] Inr show ?thesis
      by (auto simp: Enqueue sql_enqueue_def intro!: job_change.intros)
  qed (simp add: Enqueue sql_enqueue_def job_change.unchanged)
next
  case (Claim opts me now)
  show ?thesis
  proof (rule sql_claim_cases [OF assms, of me opts now])
    fix c f
    assume c: "map_of t (jb_jobId c) = Some c" "sql_claimable opts now c"
      and f: "f = claimed_job (default_to me (co_owner opts)) (default_to default_job_lease_ms (co_leaseMs opts)) now"
      and eq: "sql_claim me opts now t = (Some (f c), snd (sql_update (\<lambda>r. jb_jobId r = jb_jobId c) f t))"
    show ?thesis
    proof (cases "map_of t k")
      case (Some r)
      have rk: "jb_jobId r = k" using ledger_ok_get [OF assms Some] by simp
      show ?thesis
      proof (cases "k = jb_jobId c")
        case True
        with Some c(1) have rc: "r = c" by simp
        have "map_of (snd (sql_step sha js x t)) k = Some (f c)"
          using Some rc by (simp add: Claim eq sql_update_get)
        with True Some rc c(2) show ?thesis unfolding Claim f by (simp add: job_change.claimed)
      next
        case False
        with rk have "map_of (snd (sql_step sha js x t)) k = Some r"
          using Some by (simp add: Claim eq sql_update_get)
        with Some show ?thesis by (simp add: job_change.unchanged)
      qed
    qed (simp add: Claim eq sql_update_get job_change.unchanged)
  qed (simp add: Claim job_change.unchanged)
next
  case (Complete jid w now)
  then show ?thesis
    by (auto simp: sql_complete_def Let_def case_prod_unfold sql_owned_plain [OF assms] intro!: job_change.intros
        split: option.splits)
next
  case (Fail jid w l d now)
  show ?thesis
  proof (cases "map_of t k")
    case (Some r)
    obtain ra where "sql_failed_job l d now r = (failed_job l d now r)\<lparr>jb_runAfter := ra\<rparr>"
      using sql_failed_job_failed by blast
    with Some show ?thesis
      by (auto simp: Fail sql_fail_def Let_def case_prod_unfold sql_owned_plain [OF assms] intro!: job_change.intros)
  qed (auto simp: Fail sql_fail_def Let_def case_prod_unfold sql_owned_plain [OF assms] intro!: job_change.intros)
next
  case (Renew jid w n now)
  then show ?thesis
    by (auto simp: sql_renew_def Let_def case_prod_unfold sql_owned_get [OF assms] intro!: job_change.intros
        split: option.splits)
next
  case (Reclaim now)
  show ?thesis
  proof (cases "map_of t k")
    case (Some r)
    with ledger_ok_get [OF assms Some] show ?thesis
      by (auto simp: Reclaim sql_reclaim_def sql_update_get sql_expired_ok intro!: job_change.intros)
  qed (auto simp: Reclaim sql_reclaim_def sql_update_get intro!: job_change.intros)
next
  case (Prune d now)
  with assms show ?thesis
    by (auto simp: sql_prune_def sql_delete_def get_keep ledger_ok_def sql_prunable_iff prunable_def
        intro!: job_change.intros split: option.splits)
qed

interpretation mem: job_ledger map_of ledger_ok "mem_step sha js lc"
proof unfold_locales
  fix s :: job_table and k w l :: string and x :: "'a ledger_op" and r :: job_record
    and opts :: claim_options and me :: string and now d n :: int
  show "ledger_ok s \<Longrightarrow> map_of s k = Some r \<Longrightarrow> job_ok r \<and> jb_jobId r = k" by (rule ledger_ok_get)
  show "ledger_ok s \<Longrightarrow> ledger_ok (snd (mem_step sha js lc x s))" by (rule mem_step_ok)
  show "ledger_ok s \<Longrightarrow> job_change x k (map_of s k) (map_of (snd (mem_step sha js lc x s)) k)"
    by (rule mem_step_change)
  show "fst (mem_step sha js lc x s) = Claimed (Some r) \<Longrightarrow> \<exists>opts me now. x = Claim opts me now"
    by (cases x) simp_all
  assume ok: "ledger_ok s"
  show "fst (mem_step sha js lc (Claim opts me now :: 'a ledger_op) s) = Claimed (Some r) \<Longrightarrow>
      map_of (snd (mem_step sha js lc (Claim opts me now) s)) (jb_jobId r) = Some r \<and>
      jb_leaseOwner r = Some (default_to me (co_owner opts)) \<and>
      jb_leaseExpiresAt r = Some (now + default_to default_job_lease_ms (co_leaseMs opts)) \<and>
      (\<exists>q. map_of s (jb_jobId r) = Some q \<and> (jb_state q = Queued \<or> jb_state q = Retrying))"
    by (rule mem_claim_cases [OF ok, of lc me opts now])
      (auto simp: Let_def table_simps claimable_def)
  assume "map_option jb_leaseOwner (map_of s k) \<noteq> Some (Some w)"
  then show "mem_step sha js lc (Complete k w now) s = (Accepted False, s)"
    "mem_step sha js lc (Fail k w l d now) s = (Accepted False, s)"
    "mem_step sha js lc (Renew k w n now) s = (Accepted False, s)"
    by (simp_all add: mem_complete_def mem_fail_def mem_renew_def if_owner_refused)
qed

interpretation sql: job_ledger map_of ledger_ok "sql_step sha js"
proof unfold_locales
  fix s :: job_table and k w l :: string and x :: "'a ledger_op" and r :: job_record
    and opts :: claim_options and me :: string and now d n :: int
  show "ledger_ok s \<Longrightarrow> map_of s k = Some r \<Longrightarrow> job_ok r \<and> jb_jobId r = k" by (rule ledger_ok_get)
  show "ledger_ok s \<Longrightarrow> ledger_ok (snd (sql_step sha js x s))" by (rule sql_step_ok)
  show "ledger_ok s \<Longrightarrow> job_change x k (map_of s k) (map_of (snd (sql_step sha js x s)) k)"
    by (rule sql_step_change)
  show "fst (sql_step sha js x s) = Claimed (Some r) \<Longrightarrow> \<exists>opts me now. x = Claim opts me now"
    by (cases x) simp_all
  assume ok: "ledger_ok s"
  show "fst (sql_step sha js (Claim opts me now :: 'a ledger_op) s) = Claimed (Some r) \<Longrightarrow>
      map_of (snd (sql_step sha js (Claim opts me now) s)) (jb_jobId r) = Some r \<and>
      jb_leaseOwner r = Some (default_to me (co_owner opts)) \<and>
      jb_leaseExpiresAt r = Some (now + default_to default_job_lease_ms (co_leaseMs opts)) \<and>
      (\<exists>q. map_of s (jb_jobId r) = Some q \<and> (jb_state q = Queued \<or> jb_state q = Retrying))"
    by (rule sql_claim_cases [OF ok, of me opts now]) (auto simp: sql_update_get sql_claimable_def)
  assume "map_option jb_leaseOwner (map_of s k) \<noteq> Some (Some w)"
  then show "sql_step sha js (Complete k w now) s = (Accepted False, s)"
    "sql_step sha js (Fail k w l d now) s = (Accepted False, s)"
    "sql_step sha js (Renew k w n now) s = (Accepted False, s)"
    by (simp_all add: sql_complete_def sql_fail_def sql_renew_def sql_owned_plain(2) sql_owned_refused ok)
qed

section \<open>The two stores agree\<close>

text \<open>
  The relation between the two tables at an instant: the same jobs in the same order, equal but for a
  \<open>runAfter\<close> that no longer delays the job in either; a leased job is past its delay.
\<close>

definition past_delay :: "int \<Rightarrow> job_record \<Rightarrow> bool" where
  "past_delay now r = (case jb_runAfter r of None \<Rightarrow> True | Some t \<Rightarrow> t \<le> now)"

definition no_delay :: "job_record \<Rightarrow> job_record" where
  "no_delay r = r\<lparr>jb_runAfter := None\<rparr>"

definition same_job :: "int \<Rightarrow> job_record \<Rightarrow> job_record \<Rightarrow> bool" where
  "same_job now a b \<longleftrightarrow> no_delay a = no_delay b \<and>
     (jb_runAfter a = jb_runAfter b \<or> past_delay now a \<and> past_delay now b) \<and>
     (jb_leaseOwner a \<noteq> None \<longrightarrow> past_delay now a \<and> past_delay now b)"

definition same_table :: "int \<Rightarrow> job_table \<Rightarrow> job_table \<Rightarrow> bool" where
  "same_table now s t \<longleftrightarrow> list_all2 (\<lambda>p q. fst p = fst q \<and> same_job now (snd p) (snd q)) s t"

definition same_answer :: "ledger_answer \<Rightarrow> ledger_answer" where
  "same_answer a = (case a of Claimed r \<Rightarrow> Claimed (map_option no_delay r) | _ \<Rightarrow> a)"

text \<open>
  The runs on which the stores promise the same: the clock does not go back, an enqueued id is fresh, a
  claim does not name an empty list of types, and an owner renews before its lease runs out.
\<close>

fun plain_op :: "'p ledger_op \<Rightarrow> job_table \<Rightarrow> bool" where
  "plain_op (Enqueue inp uuid now) s \<longleftrightarrow> \<not> map_has s (default_to uuid (en_jobId inp))"
| "plain_op (Claim opts me now) s \<longleftrightarrow> co_types opts \<noteq> Some []"
| "plain_op (Renew k w n now) s \<longleftrightarrow>
     (case map_of s k of None \<Rightarrow> True
      | Some r \<Rightarrow> jb_leaseOwner r \<noteq> Some w \<or> (case jb_leaseExpiresAt r of None \<Rightarrow> True | Some e \<Rightarrow> e > now))"
| "plain_op x s \<longleftrightarrow> True"

fun plain_run ::
  "(string \<Rightarrow> string) \<Rightarrow> ('p \<Rightarrow> string option) \<Rightarrow> int \<Rightarrow> 'p ledger_op list \<Rightarrow> job_table \<Rightarrow> bool" where
  "plain_run sha js now [] s \<longleftrightarrow> True"
| "plain_run sha js now (x # xs) s \<longleftrightarrow> now \<le> op_time x \<and> plain_op x s \<and>
     plain_run sha js (op_time x) xs (snd (mem_step sha js bytes_le x s))"

lemma same_job_fields:
  assumes "same_job now a b"
  shows "jb_jobId a = jb_jobId b" "jb_tenantId a = jb_tenantId b" "jb_type a = jb_type b"
    "jb_state a = jb_state b" "jb_createdAt a = jb_createdAt b" "jb_completedAt a = jb_completedAt b"
    "jb_attempt a = jb_attempt b" "jb_maxAttempts a = jb_maxAttempts b" "jb_leaseOwner a = jb_leaseOwner b"
    "jb_leaseExpiresAt a = jb_leaseExpiresAt b" "jb_startedAt a = jb_startedAt b"
  using assms by (cases a; cases b; simp add: same_job_def no_delay_def)+

lemma same_job_later: "same_job now a b \<Longrightarrow> now \<le> t \<Longrightarrow> same_job t a b"
  by (auto simp: same_job_def past_delay_def split: option.splits)

lemma same_table_later: "same_table now s t \<Longrightarrow> now \<le> u \<Longrightarrow> same_table u s t"
  by (auto simp: same_table_def elim!: list_all2_mono dest: same_job_later)

lemma same_job_past: "same_job now a b \<Longrightarrow> past_delay now a = past_delay now b"
  unfolding same_job_def by (auto simp: past_delay_def)

lemma same_job_claimable:
  assumes "same_job now a b" and "co_types opts \<noteq> Some []"
  shows "claimable opts now a = sql_claimable opts now b"
  unfolding claimable_def sql_claimable_def past_delay_def [symmetric] same_job_past [OF assms(1)]
    same_job_fields [OF assms(1)] using assms(2) by (simp split: option.split list.split)

lemma same_job_older:
  "same_job now a b \<Longrightarrow> same_job now c d \<Longrightarrow> older_job le a c = older_job le b d"
  using same_job_fields [of now a b] same_job_fields [of now c d] by (simp add: older_job_def)

lemma same_job_expired: "same_job now a b \<Longrightarrow> expired_memory u a = expired_memory u b"
  using same_job_fields [of now a b] by (simp add: expired_memory_def)

lemma same_job_prunable: "same_job now a b \<Longrightarrow> prunable d u a = prunable d u b"
  using same_job_fields [of now a b] by (simp add: prunable_def)

lemma same_job_claimed:
  "same_job now a b \<Longrightarrow> claimable opts now a \<Longrightarrow> sql_claimable opts now b \<Longrightarrow>
    same_job now (claimed_job w n now a) (claimed_job w n now b)"
  by (cases a; cases b) (auto simp: same_job_def no_delay_def past_delay_def claimed_job_def claimable_def
      sql_claimable_def split: option.splits)

lemma same_job_completed: "same_job now a b \<Longrightarrow> same_job now (completed_job t a) (completed_job t b)"
  by (cases a; cases b) (auto simp: same_job_def no_delay_def past_delay_def completed_job_def)

lemma same_job_unleased: "same_job now a b \<Longrightarrow> same_job now (unleased_job t a) (unleased_job t b)"
  by (cases a; cases b) (auto simp: same_job_def no_delay_def past_delay_def unleased_job_def can_retry_def)

lemma same_job_failed:
  "same_job now a b \<Longrightarrow> jb_leaseOwner a \<noteq> None \<Longrightarrow> same_job now (failed_job l d t a) (sql_failed_job l d t b)"
  by (cases a; cases b) (auto simp: same_job_def no_delay_def past_delay_def failed_job_def sql_failed_job_def
      unleased_job_def can_retry_def)

lemma same_job_renewed:
  "same_job now a b \<Longrightarrow> same_job now (a\<lparr>jb_leaseExpiresAt := e\<rparr>) (b\<lparr>jb_leaseExpiresAt := e\<rparr>)"
  by (cases a; cases b) (auto simp: same_job_def no_delay_def past_delay_def)

lemma same_job_refl: "jb_leaseOwner r = None \<Longrightarrow> same_job now r r"
  by (simp add: same_job_def)

subsection \<open>Parallel lists\<close>

lemma sort_by_parallel:
  assumes "list_all2 R xs ys"
    and le: "\<And>a b c d. R a b \<Longrightarrow> R c d \<Longrightarrow> le a c = le' b d"
  shows "list_all2 R (sort_by le xs) (sort_by le' ys)"
proof -
  have ins: "list_all2 R (insert_by le x us) (insert_by le' y vs)" if "R x y" and "list_all2 R us vs" for x y us vs
    using that(2,1) by (induction rule: list_all2_induct) (auto dest: le)
  from assms(1) show ?thesis by (induction rule: list_all2_induct) (simp_all add: ins)
qed

lemma filter_parallel:
  assumes "list_all2 R xs ys" and "\<And>a b. R a b \<Longrightarrow> p a = q b"
  shows "list_all2 (\<lambda>a b. R a b \<and> p a \<and> q b) (filter p xs) (filter q ys)"
  using assms(1) by (induction rule: list_all2_induct) (auto dest: assms(2))

lemma same_table_get:
  assumes "same_table now s t"
  shows "rel_option (same_job now) (map_of s k) (map_of t k)"
  using assms unfolding same_table_def by (induction rule: list_all2_induct) auto

lemma same_table_values: "same_table now s t \<Longrightarrow> list_all2 (same_job now) (map snd s) (map snd t)"
  by (auto simp: same_table_def list_all2_map1 list_all2_map2 elim!: list_all2_mono)

lemma same_table_keys: "same_table now s t \<Longrightarrow> map fst s = map fst t"
  unfolding same_table_def by (induction rule: list_all2_induct) auto

lemma same_table_update:
  assumes "same_table now s t" and "same_job now a b"
  shows "same_table now (AList.update k a s) (AList.update k b t)"
  using assms(1) unfolding same_table_def
  by (induction rule: list_all2_induct) (use assms(2) in auto)

lemma same_table_map:
  assumes "same_table now s t" and "\<And>a b. same_job now a b \<Longrightarrow> same_job now (f a) (g b)"
  shows "same_table now (map_vals (\<lambda>k. f) s) (map_vals (\<lambda>k. g) t)"
  using assms(1) unfolding same_table_def map_vals_def
  by (auto simp: list_all2_map1 list_all2_map2 case_prod_unfold assms(2) elim!: list_all2_mono)

lemma same_table_keep:
  assumes "same_table now s t" and "\<And>a b. same_job now a b \<Longrightarrow> p a = q b"
  shows "same_table now (map_keep (\<lambda>k. p) s) (map_keep (\<lambda>k. q) t)"
  using assms(1) unfolding same_table_def map_keep_def
  by (induction rule: list_all2_induct) (auto simp: assms(2))

lemma same_table_count:
  assumes "same_table now s t" and "\<And>a b. same_job now a b \<Longrightarrow> p a = q b"
  shows "length (filter p (map snd s)) = length (filter q (map snd t))"
  using filter_parallel [OF same_table_values [OF assms(1)] assms(2)] by (rule list_all2_lengthD)

subsection \<open>One step\<close>

lemma map_vals_point:
  assumes "map_ok t" and "map_of t k = Some r" and "\<And>j q. (j, q) \<in> set t \<Longrightarrow> j \<noteq> k \<Longrightarrow> g q = q"
  shows "map_vals (\<lambda>j. g) t = AList.update k (g r) t"
  using assms
proof (induction t)
  case Nil
  then show ?case by simp
next
  case (Cons p t)
  obtain j q where p: "p = (j, q)" by (cases p)
  show ?case
  proof (cases "j = k")
    case True
    with Cons.prems(1) have "\<forall>(i, u) \<in> set t. i \<noteq> k" by (auto simp: p map_ok_def rev_image_eqI)
    then have "\<forall>x \<in> set t. (\<lambda>(i, u). (i, g u)) x = x" using Cons.prems(3) by (auto simp: p)
    then have "map (\<lambda>(i, u). (i, g u)) t = t" by (auto intro: map_idI)
    with True Cons.prems(2) show ?thesis by (simp add: p map_vals_def)
  next
    case False
    with Cons.prems have "map_vals (\<lambda>j. g) t = AList.update k (g r) t"
      by (intro Cons.IH) (auto simp: p map_ok_def)
    moreover have "g q = q" by (rule Cons.prems(3) [of j q]) (simp_all add: p False)
    ultimately show ?thesis using False by (simp add: p map_vals_def)
  qed
qed

lemma sql_update_point:
  assumes "ledger_ok t" and "map_of t k = Some r" and "c r" and "\<And>q. c q \<Longrightarrow> jb_jobId q = k"
  shows "snd (sql_update c f t) = AList.update k (f r) t"
proof -
  have other: "(if c q then f q else q) = q" if "(j, q) \<in> set t" "j \<noteq> k" for j q
  proof -
    from that(1) assms(1) have "map_of t j = Some q" by (simp add: ledger_ok_def get_eq_in_set)
    with ledger_ok_get [OF assms(1)] have "jb_jobId q = j" by blast
    with that(2) assms(4) show ?thesis by auto
  qed
  have "map_ok t" using assms(1) by (simp add: ledger_ok_def)
  from map_vals_point [OF this assms(2) other] assms(3) show ?thesis by (simp add: sql_update_def)
qed

text \<open>The owner's operations on both tables.\<close>

lemma owner_agrees:
  assumes "ledger_ok s" "ledger_ok t" "same_table now s t"
    and f: "\<And>a b. same_job now a b \<Longrightarrow> jb_leaseOwner a = Some w \<Longrightarrow> same_job now (f a) (g b)"
    and p: "\<And>a b. map_of s k = Some a \<Longrightarrow> jb_leaseOwner a = Some w \<Longrightarrow> same_job now a b \<Longrightarrow> p b"
  shows "fst (if_owner k w f s) = (fst (sql_update (\<lambda>r. sql_owned k w r \<and> p r) g t) = 1)"
    and "same_table now (snd (if_owner k w f s)) (snd (sql_update (\<lambda>r. sql_owned k w r \<and> p r) g t))"
proof -
  let ?c = "\<lambda>r. sql_owned k w r \<and> p r"
  note rel = same_table_get [OF assms(3), of k]
  have "fst (if_owner k w f s) = (fst (sql_update ?c g t) = 1) \<and>
    same_table now (snd (if_owner k w f s)) (snd (sql_update ?c g t))"
  proof (cases "\<exists>a. map_of s k = Some a \<and> jb_leaseOwner a = Some w")
    case True
    then obtain a where a: "map_of s k = Some a" "jb_leaseOwner a = Some w" by blast
    with rel obtain b where b: "map_of t k = Some b" "same_job now a b" by (cases "map_of t k") auto
    have own: "jb_leaseOwner b = Some w" using same_job_fields(9) [OF b(2)] a(2) by simp
    have cb: "?c b" using own ledger_ok_get [OF assms(2) b(1)] p [OF a b(2)] by (simp add: sql_owned_def)
    have upd: "snd (sql_update ?c g t) = AList.update k (g b) t"
      by (rule sql_update_point [where c = ?c, OF assms(2) b(1) cb]) (simp add: sql_owned_def)
    have "fst (sql_update ?c g t) = 1"
      using sql_owned_accepted [OF assms(2), of k w p g] b(1) own cb by simp
    moreover have "if_owner k w f s = (True, AList.update k (f a) s)" by (simp add: if_owner_def a)
    ultimately show ?thesis using same_table_update [OF assms(3) f [OF b(2) a(2)]] upd by simp
  next
    case False
    then have "map_option jb_leaseOwner (map_of s k) \<noteq> Some (Some w)" by (cases "map_of s k") auto
    then have mem: "if_owner k w f s = (False, s)" by (rule if_owner_refused)
    have "map_option jb_leaseOwner (map_of t k) \<noteq> Some (Some w)"
      using False rel same_job_fields(9) by (cases "map_of s k"; cases "map_of t k") auto
    from sql_owned_refused [OF assms(2) this, of p g] mem assms(3) show ?thesis by simp
  qed
  then show "fst (if_owner k w f s) = (fst (sql_update ?c g t) = 1)"
    "same_table now (snd (if_owner k w f s)) (snd (sql_update ?c g t))" by simp_all
qed

lemma claim_agrees:
  assumes "ledger_ok s" "ledger_ok t" "same_table now s t" "co_types opts \<noteq> Some []"
  shows "map_option no_delay (fst (mem_claim bytes_le me opts now s)) =
      map_option no_delay (fst (sql_claim me opts now t))"
    and "same_table now (snd (mem_claim bytes_le me opts now s)) (snd (sql_claim me opts now t))"
proof -
  let ?R = "\<lambda>a b. same_job now a b \<and> claimable opts now a \<and> sql_claimable opts now b"
  let ?f = "claimed_job (default_to me (co_owner opts)) (default_to default_job_lease_ms (co_leaseMs opts)) now"
  let ?xs = "sort_by (older_job bytes_le) (filter (claimable opts now) (map snd s))"
  let ?ys = "sort_by (older_job bytes_le) (filter (sql_claimable opts now) (map snd t))"
  have par: "list_all2 ?R ?xs ?ys"
  proof (rule sort_by_parallel [OF filter_parallel [OF same_table_values [OF assms(3)]]])
    show "same_job now a b \<Longrightarrow> claimable opts now a = sql_claimable opts now b" for a b
      using same_job_claimable [of now a b opts] assms(4) by simp
    show "?R a b \<Longrightarrow> ?R c d \<Longrightarrow> older_job bytes_le a c = older_job bytes_le b d" for a b c d
      using same_job_older [of now a b c d] by simp
  qed
  have "map_option no_delay (fst (mem_claim bytes_le me opts now s)) =
      map_option no_delay (fst (sql_claim me opts now t)) \<and>
    same_table now (snd (mem_claim bytes_le me opts now s)) (snd (sql_claim me opts now t))"
  proof (cases ?xs)
    case Nil
    with par have "?ys = []" by simp
    with Nil assms(3) show ?thesis by (simp add: mem_claim_def sql_claim_def)
  next
    case (Cons a as)
    with par obtain b bs where ys: "?ys = b # bs" and ab: "?R a b"
      by (auto simp: list_all2_Cons1)
    note stored = candidate_stored [OF assms(2) ys]
    have id: "jb_jobId a = jb_jobId b" using ab same_job_fields(1) by blast
    have upd: "snd (sql_update (\<lambda>r. jb_jobId r = jb_jobId b) ?f t) = AList.update (jb_jobId b) (?f b) t"
      by (rule sql_update_point [OF assms(2) stored(1)]) simp_all
    have new: "same_job now (?f a) (?f b)" using ab same_job_claimed by blast
    then have "no_delay (?f a) = no_delay (?f b)" by (simp add: same_job_def)
    with same_table_update [OF assms(3) new, of "jb_jobId b"] upd id show ?thesis
      by (simp add: mem_claim_def sql_claim_def Cons ys Let_def table_simps)
  qed
  then show "map_option no_delay (fst (mem_claim bytes_le me opts now s)) =
      map_option no_delay (fst (sql_claim me opts now t))"
    "same_table now (snd (mem_claim bytes_le me opts now s)) (snd (sql_claim me opts now t))" by simp_all
qed

lemma enqueue_agrees:
  assumes "same_table now s t" and "\<not> map_has s (default_to uuid (en_jobId inp))"
  shows "fst (mem_enqueue sha js uuid inp now s) = fst (sql_enqueue sha js uuid inp now t)"
    and "same_table now (snd (mem_enqueue sha js uuid inp now s)) (snd (sql_enqueue sha js uuid inp now t))"
proof -
  have "\<not> map_has t (default_to uuid (en_jobId inp))"
    using assms same_table_keys [OF assms(1)] by (metis map_has_iff_key set_map)
  then have "fst (mem_enqueue sha js uuid inp now s) = fst (sql_enqueue sha js uuid inp now t) \<and>
    same_table now (snd (mem_enqueue sha js uuid inp now s)) (snd (sql_enqueue sha js uuid inp now t))"
    using assms
    by (cases "enqueued_job sha js uuid inp now")
      (auto simp: mem_enqueue_def sql_enqueue_def update_absent enqueued_jobE same_table_def
        intro!: list_all2_appendI same_job_refl)
  then show "fst (mem_enqueue sha js uuid inp now s) = fst (sql_enqueue sha js uuid inp now t)"
    "same_table now (snd (mem_enqueue sha js uuid inp now s)) (snd (sql_enqueue sha js uuid inp now t))"
    by simp_all
qed

lemma step_agrees:
  assumes "ledger_ok s" "ledger_ok t" "same_table (op_time x) s t" "plain_op x s"
  shows "same_answer (fst (mem_step sha js bytes_le x s)) = same_answer (fst (sql_step sha js x t)) \<and>
    same_table (op_time x) (snd (mem_step sha js bytes_le x s)) (snd (sql_step sha js x t))"
proof (cases x)
  case (Enqueue inp uuid now)
  with enqueue_agrees [where now = now, of s t uuid inp] assms(3,4) show ?thesis by simp
next
  case (Claim opts me now)
  with claim_agrees [OF assms(1,2), of now opts me] assms(3,4) show ?thesis by (simp add: same_answer_def)
next
  case (Complete jid w now)
  have tab: "same_table now s t" using assms(3) Complete by simp
  from owner_agrees [OF assms(1,2) tab, of w "completed_job now" "completed_job now" jid "\<lambda>r. True"]
  show ?thesis by (simp add: Complete mem_complete_def sql_complete_def case_prod_unfold Let_def same_job_completed)
next
  case (Fail jid w l d now)
  have tab: "same_table now s t" using assms(3) Fail by simp
  from owner_agrees [OF assms(1,2) tab, of w "failed_job l d now" "sql_failed_job l d now" jid "\<lambda>r. True"]
  show ?thesis by (simp add: Fail mem_fail_def sql_fail_def case_prod_unfold Let_def same_job_failed)
next
  case (Renew jid w n now)
  have tab: "same_table now s t" using assms(3) Renew by simp
  let ?p = "\<lambda>row. case jb_leaseExpiresAt row of None \<Rightarrow> False | Some e \<Rightarrow> e > now"
  have p: "?p b" if "map_of s jid = Some a" "jb_leaseOwner a = Some w" "same_job now a b" for a b
  proof -
    have "jb_leaseExpiresAt a \<noteq> None" using ledger_ok_get [OF assms(1) that(1)] that(2) by (simp add: job_ok_def)
    then show ?thesis
      using assms(4) that same_job_fields(10) [OF that(3)] by (auto simp: Renew)
  qed
  let ?f = "\<lambda>job. job\<lparr>jb_leaseExpiresAt := Some (now + n)\<rparr>"
  have f: "same_job now (?f a) (?f b)" if "same_job now a b" "jb_leaseOwner a = Some w" for a b
    using that(1) by (rule same_job_renewed)
  show ?thesis
    using owner_agrees(1) [where p = ?p and f = ?f and g = ?f, OF assms(1,2) tab f p]
      owner_agrees(2) [where p = ?p and f = ?f and g = ?f, OF assms(1,2) tab f p]
    by (simp add: Renew mem_renew_def sql_renew_def case_prod_unfold Let_def)
next
  case (Reclaim now)
  have tab: "same_table now s t" using assms(3) Reclaim by simp
  have rows: "\<forall>r \<in> set (map snd t). sql_expired now r = expired_memory now r"
    using assms(2) by (auto simp: ledger_ok_def get_eq_in_set sql_expired_ok)
  then have "map_vals (\<lambda>k row. if sql_expired now row then unleased_job now row else row) t =
      map_vals (\<lambda>k row. if expired_memory now row then unleased_job now row else row) t"
    by (auto simp: map_vals_def)
  moreover have "filter (sql_expired now) (map snd t) = filter (expired_memory now) (map snd t)"
    using rows by (intro filter_cong refl) blast
  moreover have "same_table now
      (map_vals (\<lambda>k row. if expired_memory now row then unleased_job now row else row) s)
      (map_vals (\<lambda>k row. if expired_memory now row then unleased_job now row else row) t)"
    by (rule same_table_map [OF tab]) (auto simp: same_job_expired same_job_unleased)
  moreover have "length (filter (expired_memory now) (map snd s)) = length (filter (expired_memory now) (map snd t))"
    using same_table_count [OF tab same_job_expired] .
  ultimately show ?thesis
    by (simp add: Reclaim mem_reclaim_def sql_reclaim_def sql_update_def)
next
  case (Prune d now)
  have tab: "same_table now s t" using assms(3) Prune by simp
  have eq: "sql_prunable d now = prunable d now" by (rule ext) (rule sql_prunable_iff)
  have "same_table now (map_keep (\<lambda>k row. \<not> prunable d now row) s) (map_keep (\<lambda>k row. \<not> prunable d now row) t)"
    by (rule same_table_keep [OF tab]) (simp add: same_job_prunable)
  with same_table_count [OF tab same_job_prunable [where d = d and u = now]] show ?thesis
    by (simp add: Prune mem_prune_def sql_prune_def sql_delete_def eq)
qed

lemma runs_agree:
  assumes "ledger_ok s" "ledger_ok t" "same_table now s t" "plain_run sha js now xs s"
  shows "map same_answer (fst (ledger_run (mem_step sha js bytes_le) xs s)) =
    map same_answer (fst (ledger_run (sql_step sha js) xs t))"
  using assms
proof (induction xs arbitrary: s t now)
  case Nil
  then show ?case by simp
next
  case (Cons x xs)
  from Cons.prems have run: "now \<le> op_time x" "plain_op x s"
    "plain_run sha js (op_time x) xs (snd (mem_step sha js bytes_le x s))" by simp_all
  note step = step_agrees [OF Cons.prems(1,2) same_table_later [OF Cons.prems(3) run(1)] run(2), of sha js]
  from Cons.IH [OF mem_step_ok [OF Cons.prems(1)] sql_step_ok [OF Cons.prems(2)] conjunct2 [OF step] run(3)] step
  show ?case unfolding ledger_run_Cons by simp
qed

section \<open>Properties\<close>

definition job_store_step ::
  "(string \<Rightarrow> string) \<Rightarrow> ('p \<Rightarrow> string option) \<Rightarrow> (string \<Rightarrow> string \<Rightarrow> bool) \<Rightarrow>
    ('p ledger_op \<Rightarrow> job_table \<Rightarrow> ledger_answer \<times> job_table) \<Rightarrow> bool" where
  "job_store_step sha js lc step \<longleftrightarrow> step = mem_step sha js lc \<or> step = sql_step sha js"

lemma ledger_ok_empty: "ledger_ok []"
  by (simp add: ledger_ok_def)

lemma store_ledger: "job_store_step sha js lc step \<Longrightarrow> job_ledger map_of ledger_ok step"
  using mem.job_ledger_axioms sql.job_ledger_axioms by (auto simp: job_store_step_def)

lemma store_run_ok: "job_store_step sha js lc step \<Longrightarrow> ledger_ok (snd (ledger_run step xs []))"
  by (rule job_ledger.run_ok [OF store_ledger ledger_ok_empty])

text \<open>C16. One worker per job. In either store, whatever happened before, a granted claim leaves its owner as the
  only holder for the whole lease: as long as the owner itself does not act on the job and the id is
  not enqueued again, no sequence of operations before the expiry changes the entry, and no claim
  returns the job again.\<close>

theorem job_has_one_worker:
  assumes "job_store_step sha js lc step"
    and "fst (step (Claim opts me now) (snd (ledger_run step before []))) = Claimed (Some r)"
    and "\<forall>x \<in> set xs. op_time x < now + default_to default_job_lease_ms (co_leaseMs opts) \<and>
      \<not> own_action (jb_jobId r) (default_to me (co_owner opts)) x \<and> \<not> enqueues (jb_jobId r) x"
  shows "map_of (snd (ledger_run step (before @ Claim opts me now # xs) [])) (jb_jobId r) = Some r \<and>
    (jb_jobId q = jb_jobId r \<longrightarrow>
      fst (step (Claim opts2 me2 t) (snd (ledger_run step (before @ Claim opts me now # xs) []))) \<noteq> Claimed (Some q))"
proof -
  let ?s = "snd (ledger_run step before [])"
  let ?s1 = "snd (step (Claim opts me now) ?s)"
  let ?s2 = "snd (ledger_run step xs ?s1)"
  have ok: "ledger_ok ?s" using assms(1) by (rule store_run_ok)
  have s2: "snd (ledger_run step (before @ Claim opts me now # xs) []) = ?s2"
    by (simp add: ledger_run_append del: ledger_run.simps(2))
  note store = store_ledger [OF assms(1)]
  note ok1 = job_ledger.step_ok [OF store ok, of "Claim opts me now"]
  from job_ledger.claim_granted [OF store ok assms(2)] have held: "map_of ?s1 (jb_jobId r) = Some r"
    "jb_leaseOwner r = Some (default_to me (co_owner opts))"
    "jb_leaseExpiresAt r = Some (now + default_to default_job_lease_ms (co_leaseMs opts))" by simp_all
  have stays: "map_of ?s2 (jb_jobId r) = Some r"
    by (rule job_ledger.held_stays [OF store ok1 held assms(3)])
  have "jb_state r = Running" using ledger_ok_get [OF ok1 held(1)] held(2) by (simp add: job_ok_def)
  with stays job_ledger.held_not_claimed [OF store job_ledger.run_ok [OF store ok1] stays] show ?thesis
    by (simp add: s2)
qed

definition sample_input :: "string enqueue_input" where
  "sample_input = \<lparr>en_type = ''reindex'', en_payload = ''{}'', en_tenantId = None, en_maxAttempts = Some 2,
     en_runAfterMs = None, en_jobId = Some ''j1''\<rparr>"

definition claim_any :: "string \<Rightarrow> claim_options" where
  "claim_any w = \<lparr>co_owner = Some w, co_leaseMs = Some 50, co_types = Some [''reindex''], co_tenantId = None\<rparr>"

definition sample_job :: job_record where
  "sample_job = claimed_job ''a'' 50 10 (new_job ''j1'' None ''reindex'' ''{}'' 0 (Some 2) None)"

lemma sample_enqueued:
  "snd (ledger_run (sql_step id Some) [Enqueue sample_input ''u'' 0] []) =
    [(''j1'', new_job ''j1'' None ''reindex'' ''{}'' 0 (Some 2) None)]"
  by code_simp

lemma sample_claimed:
  "sql_step id Some (Claim (claim_any ''a'') ''p'' 10)
      (snd (ledger_run (sql_step id Some) [Enqueue sample_input ''u'' 0] [])) =
    (Claimed (Some sample_job), [(''j1'', sample_job)])"
  by code_simp

theorem job_has_one_worker_witness:
  "map_of (snd (ledger_run (sql_step id Some) ([Enqueue sample_input ''u'' 0] @
      Claim (claim_any ''a'') ''p'' 10 # [Reclaim 40, Claim (claim_any ''b'') ''p'' 41, Fail ''j1'' ''b'' ''X'' 0 42]) []))
    ''j1'' = Some sample_job"
proof -
  have id: "jb_jobId sample_job = ''j1''" by (simp add: sample_job_def new_job_def)
  have lease: "default_to default_job_lease_ms (co_leaseMs (claim_any ''a'')) = 50"
    "default_to ''p'' (co_owner (claim_any ''a'')) = ''a''" by (simp_all add: claim_any_def)
  have "job_store_step id Some bytes_le (sql_step id Some)" by (simp add: job_store_step_def)
  from job_has_one_worker [OF this, of "claim_any ''a''" "''p''" 10 "[Enqueue sample_input ''u'' 0]" sample_job
      "[Reclaim 40, Claim (claim_any ''b'') ''p'' 41, Fail ''j1'' ''b'' ''X'' 0 42]"]
  show ?thesis unfolding sample_claimed id lease by simp
qed

text \<open>A worker that lost a job cannot touch it. Once an owner does not hold a job, then whatever others
  do, as long as it claims nothing itself, its completion, failure and renewal of that job are all
  refused and leave the ledger exactly as it was.\<close>

theorem lost_job_stays_lost:
  assumes "job_store_step sha js lc step"
    and "map_option jb_leaseOwner (map_of (snd (ledger_run step before [])) k) \<noteq> Some (Some w)"
    and "\<forall>x \<in> set xs. \<not> claims_as w x"
  shows "step (Complete k w now) (snd (ledger_run step (before @ xs) [])) =
      (Accepted False, snd (ledger_run step (before @ xs) [])) \<and>
    step (Fail k w l d now) (snd (ledger_run step (before @ xs) [])) =
      (Accepted False, snd (ledger_run step (before @ xs) [])) \<and>
    step (Renew k w n now) (snd (ledger_run step (before @ xs) [])) =
      (Accepted False, snd (ledger_run step (before @ xs) []))"
proof -
  note store = store_ledger [OF assms(1)]
  note ok = store_run_ok [OF assms(1), of "before @ xs"]
  have "map_option jb_leaseOwner (map_of (snd (ledger_run step (before @ xs) [])) k) \<noteq> Some (Some w)"
    unfolding ledger_run_append
    by (rule job_ledger.stranger_stays [OF store store_run_ok [OF assms(1)] assms(2,3)])
  from job_ledger.not_owner_complete [OF store ok this] job_ledger.not_owner_fail [OF store ok this]
    job_ledger.not_owner_renew [OF store ok this] show ?thesis by blast
qed

lemma sample_reclaimed:
  "map_option jb_leaseOwner (map_of (snd (ledger_run (mem_step id Some bytes_le)
     [Enqueue sample_input ''u'' 0, Claim (claim_any ''a'') ''p'' 10, Reclaim 70] [])) ''j1'') = Some None"
  by code_simp

theorem lost_job_stays_lost_witness:
  "fst (mem_step id Some bytes_le (Complete ''j1'' ''a'' 80) (snd (ledger_run (mem_step id Some bytes_le)
     ([Enqueue sample_input ''u'' 0, Claim (claim_any ''a'') ''p'' 10, Reclaim 70] @ [Claim (claim_any ''b'') ''p'' 75]) []))) =
   Accepted False"
proof -
  have "job_store_step id Some bytes_le (mem_step id Some bytes_le)" by (simp add: job_store_step_def)
  from lost_job_stays_lost [OF this, of "[Enqueue sample_input ''u'' 0, Claim (claim_any ''a'') ''p'' 10, Reclaim 70]"
      "''j1''" "''a''" "[Claim (claim_any ''b'') ''p'' 75]" 80]
  show ?thesis unfolding sample_reclaimed by (simp add: claim_any_def)
qed

text \<open>C17. Attempts are bounded and settled jobs are final. From any reachable state, a stored job that is not
  enqueued again is granted to workers at most as often as it has attempts left, at most
  \<open>max 1 maxAttempts\<close> times in all; and once it is completed, failed or cancelled its entry never
  changes again, except that it may be pruned.\<close>

theorem job_attempts_bounded:
  assumes "job_store_step sha js lc step"
    and "map_of (snd (ledger_run step before [])) k = Some r"
    and "\<forall>x \<in> set xs. \<not> enqueues k x"
  shows "int (length (filter (granted_to k) (fst (ledger_run step xs (snd (ledger_run step before [])))))) \<le>
      max 1 (jb_maxAttempts r) - jb_attempt r \<and> 0 \<le> jb_attempt r \<and>
    (terminal (jb_state r) \<longrightarrow>
      map_of (snd (ledger_run step (before @ xs) [])) k \<in> {Some r, None})"
proof -
  note store = store_ledger [OF assms(1)]
  note ok = store_run_ok [OF assms(1), of before]
  have "0 \<le> jb_attempt r" using ledger_ok_get [OF ok assms(2)] by (simp add: job_ok_def)
  with job_ledger.grants_bounded [OF store ok assms(3)] job_ledger.terminal_stays [OF store ok assms(2) _ assms(3)]
  show ?thesis unfolding ledger_run_append assms(2) by (auto simp: tries_left_def)
qed

theorem job_attempts_bounded_witness:
  "length (filter (granted_to ''j1'') (fst (ledger_run (sql_step id Some)
     [Claim (claim_any ''a'') ''p'' 10, Reclaim 100, Claim (claim_any ''b'') ''p'' 110, Reclaim 300, Claim (claim_any ''c'') ''p'' 310]
     (snd (ledger_run (sql_step id Some) [Enqueue sample_input ''u'' 0] []))))) \<le> 2"
proof -
  let ?xs = "[Claim (claim_any ''a'') ''p'' 10, Reclaim 100, Claim (claim_any ''b'') ''p'' 110, Reclaim 300,
    Claim (claim_any ''c'') ''p'' 310]"
  let ?r = "new_job ''j1'' None ''reindex'' ''{}'' 0 (Some 2) None"
  have "job_store_step id Some bytes_le (sql_step id Some)" by (simp add: job_store_step_def)
  from job_attempts_bounded [OF this, of "[Enqueue sample_input ''u'' 0]" "''j1''" ?r ?xs]
  have "int (length (filter (granted_to ''j1'') (fst (ledger_run (sql_step id Some) ?xs
     (snd (ledger_run (sql_step id Some) [Enqueue sample_input ''u'' 0] [])))))) \<le> 2"
    unfolding sample_enqueued by (simp add: new_job_def del: ledger_run.simps)
  then show ?thesis by linarith
qed

text \<open>A dead worker does not strand its job. Reclaiming returns exactly the running jobs whose lease has
  run out: each becomes claimable again while attempts remain and failed otherwise, without an
  owner, and every other entry stays as it is.\<close>

theorem dead_worker_job_returns:
  assumes "job_store_step sha js lc step"
    and "map_of (snd (ledger_run step before [])) k = Some r"
  shows "map_of (snd (step (Reclaim now) (snd (ledger_run step before [])))) k =
    Some (if expired_memory now r
      then r\<lparr>jb_state := (if jb_attempt r < jb_maxAttempts r then Retrying else Failed),
             jb_completedAt := (if jb_attempt r < jb_maxAttempts r then None else Some now),
             jb_leaseOwner := None, jb_leaseExpiresAt := None\<rparr>
      else r)"
proof -
  have jok: "job_ok r" using ledger_ok_get [OF store_run_ok [OF assms(1)] assms(2)] by simp
  have "map_of (snd (step (Reclaim now) (snd (ledger_run step before [])))) k =
      Some (if expired_memory now r then unleased_job now r else r)"
    using assms unfolding job_store_step_def
    by (auto simp: mem_reclaim_def sql_reclaim_def sql_update_get table_simps sql_expired_ok [OF jok])
  then show ?thesis by (simp add: unleased_job_def can_retry_def)
qed

theorem dead_worker_job_returns_witness:
  "map_option jb_state (map_of (snd (sql_step id Some (Reclaim 60 :: string ledger_op)
     (snd (ledger_run (sql_step id Some) [Enqueue sample_input ''u'' 0, Claim (claim_any ''a'') ''p'' 10] [])))) ''j1'') =
   Some Retrying"
proof -
  have "job_store_step id Some bytes_le (sql_step id (Some :: string \<Rightarrow> _))" by (simp add: job_store_step_def)
  moreover have "map_of (snd (ledger_run (sql_step id Some) [Enqueue sample_input ''u'' 0, Claim (claim_any ''a'') ''p'' 10] []))
      ''j1'' = Some sample_job" by code_simp
  ultimately show ?thesis
    using dead_worker_job_returns [of id Some bytes_le "sql_step id Some"
        "[Enqueue sample_input ''u'' 0, Claim (claim_any ''a'') ''p'' 10]" "''j1''" sample_job 60]
    by (simp add: sample_job_def expired_memory_def claimed_job_def new_job_def)
qed



text \<open>Where they differ. A claim that names an empty list of types takes nothing from the in-memory store and
  takes a job of any type from the SQLite store; a renewal after the lease ran out, before anyone
  reclaimed the job, is granted by the in-memory store and refused by the SQLite store.\<close>

theorem job_stores_differ:
  "(\<exists>s. ledger_ok s \<and> fst (mem_claim bytes_le ''a'' ((claim_any ''a'')\<lparr>co_types := Some []\<rparr>) 10 s) = None \<and>
      fst (sql_claim ''a'' ((claim_any ''a'')\<lparr>co_types := Some []\<rparr>) 10 s) \<noteq> None) \<and>
    ledger_ok [(''j1'', sample_job)] \<and> fst (mem_renew ''j1'' ''a'' 50 1000 [(''j1'', sample_job)]) \<and>
    \<not> fst (sql_renew ''j1'' ''a'' 50 1000 [(''j1'', sample_job)])"
proof -
  let ?s = "[(''j1'', new_job ''j1'' None ''reindex'' ''{}'' 0 (Some 2) None)]"
  have "ledger_ok ?s" by (simp add: ledger_ok_def map_ok_def job_ok_new) (simp add: new_job_def)
  moreover have "fst (mem_claim bytes_le ''a'' ((claim_any ''a'')\<lparr>co_types := Some []\<rparr>) 10 ?s) = None"
    "fst (sql_claim ''a'' ((claim_any ''a'')\<lparr>co_types := Some []\<rparr>) 10 ?s) \<noteq> None" by code_simp+
  moreover have "ledger_ok [(''j1'', sample_job)]"
    using store_run_ok [of id Some bytes_le "sql_step id Some"] sql_step_ok [OF store_run_ok [of id Some bytes_le "sql_step id Some"
      "[Enqueue sample_input ''u'' 0]"], of id Some "Claim (claim_any ''a'') ''p'' 10"]
    unfolding sample_claimed by (simp add: job_store_step_def)
  moreover have "fst (mem_renew ''j1'' ''a'' 50 1000 [(''j1'', sample_job)])"
    "\<not> fst (sql_renew ''j1'' ''a'' 50 1000 [(''j1'', sample_job)])" by code_simp+
  ultimately show ?thesis by blast
qed

end
