(* ===== verification/DurableWorker.thy ===== *)
theory DurableWorker
  imports JobLedger
begin

text \<open>
  \<open>src/durable-worker.ts\<close>: the worker that polls a job ledger. It reaches the ledger only through
  \<open>step\<close>, the operations of a \<open>JobStore\<close>; other workers act on the same ledger between its steps.
  A run is the closure of one claimed job, with the flag set by its renewal timer; the in-flight map
  finds the newest run of a job id. Parsing a payload is the parameter \<open>parse\<close>, a handler is a
  function of the parsed payload and the attempt. Log lines and metrics are not modelled.
\<close>

section \<open>Configuration and state\<close>

datatype handler_result = Returns | Throws thrown

datatype outcome = DoneOk | DoneFailed | LeaseLost | DoneCancelled

record worker_config =
  wc_owner :: string
  wc_concurrency :: int
  wc_leaseMs :: int
  wc_renewIntervalMs :: int
  wc_pollIntervalMs :: int
  wc_types :: "string list"
  wc_tenantId :: "string option"

record worker_run =
  rn_job :: job_record
  rn_lost :: bool
  rn_ticking :: bool

record worker =
  wk_running :: bool
  wk_inFlight :: "(string, nat) js_map"
  wk_runs :: "(nat, worker_run) js_map"
  wk_nextRun :: nat
  wk_leaseLost :: nat
  wk_completed :: nat
  wk_failed :: nat
  wk_settled :: "(string \<times> outcome) list"

definition new_worker_config ::
  "string \<Rightarrow> int option \<Rightarrow> int option \<Rightarrow> int option \<Rightarrow> int option \<Rightarrow> string list \<Rightarrow> string option \<Rightarrow> worker_config" where
  "new_worker_config owner conc lease renew poll types tenant =
     (let leaseMs = max 1000 (default_to 60000 lease) in
      \<lparr>wc_owner = owner, wc_concurrency = max 1 (default_to 2 conc), wc_leaseMs = leaseMs,
       wc_renewIntervalMs = max 250 (default_to (leaseMs div 3) renew),
       wc_pollIntervalMs = max 10 (default_to 250 poll),
       wc_types = sort_by bytes_le types, wc_tenantId = tenant\<rparr>)"

definition new_worker :: worker where
  "new_worker = \<lparr>wk_running = False, wk_inFlight = [], wk_runs = [], wk_nextRun = 0, wk_leaseLost = 0,
     wk_completed = 0, wk_failed = 0, wk_settled = []\<rparr>"

section \<open>Operations\<close>

definition worker_start :: "worker_config \<Rightarrow> worker \<Rightarrow> worker result" where
  "worker_start c k =
     (if wk_running k then Inr k
      else if wc_types c = [] then Inl INVALID_INPUT
      else Inr (k\<lparr>wk_running := True\<rparr>))"

definition claim_request :: "worker_config \<Rightarrow> claim_options" where
  "claim_request c = \<lparr>co_owner = Some (wc_owner c), co_leaseMs = Some (wc_leaseMs c),
     co_types = Some (wc_types c), co_tenantId = wc_tenantId c\<rparr>"

definition claim_one ::
  "('p ledger_op \<Rightarrow> 's \<Rightarrow> ledger_answer \<times> 's) \<Rightarrow> worker_config \<Rightarrow> int \<Rightarrow> 's \<Rightarrow> job_record option \<times> 's" where
  "claim_one step c now s =
     (case step (Claim (claim_request c) (wc_owner c) now) s of
        (Claimed j, s') \<Rightarrow> (j, s')
      | (_, s') \<Rightarrow> (None, s'))"

text \<open>A failure is reported to the ledger without a retry delay.\<close>

definition report_failure ::
  "('p ledger_op \<Rightarrow> 's \<Rightarrow> ledger_answer \<times> 's) \<Rightarrow> worker_config \<Rightarrow> string \<Rightarrow> string \<Rightarrow> int \<Rightarrow> 's \<Rightarrow> 's" where
  "report_failure step c jid label now s = snd (step (Fail jid (wc_owner c) label 0 now) s)"

definition settle :: "nat \<Rightarrow> string \<Rightarrow> outcome \<Rightarrow> worker \<Rightarrow> worker" where
  "settle i jid out k = k\<lparr>wk_runs := AList.delete i (wk_runs k),
     wk_inFlight := AList.delete jid (wk_inFlight k), wk_settled := wk_settled k @ [(jid, out)]\<rparr>"

text \<open>The part of \<open>run\<close> up to the call of the handler: a job of an unknown type is failed and forgotten, a
  payload that does not parse is failed and settled, otherwise the run is in flight.\<close>

definition begin_run ::
  "('p ledger_op \<Rightarrow> 's \<Rightarrow> ledger_answer \<times> 's) \<Rightarrow> worker_config \<Rightarrow> (string \<Rightarrow> 'v option) \<Rightarrow> job_record \<Rightarrow> int \<Rightarrow>
    worker \<Rightarrow> 's \<Rightarrow> worker \<times> 's" where
  "begin_run step c parse job now k s =
     (if jb_type job \<notin> set (wc_types c)
      then (k, report_failure step c (jb_jobId job) ''NO_HANDLER'' now s)
      else
        (let i = wk_nextRun k;
             k = k\<lparr>wk_nextRun := i + 1,
               wk_runs := AList.update i \<lparr>rn_job = job, rn_lost = False, rn_ticking = True\<rparr> (wk_runs k),
               wk_inFlight := AList.update (jb_jobId job) i (wk_inFlight k)\<rparr>
         in case parse (jb_payload job) of
              None \<Rightarrow> (settle i (jb_jobId job) DoneFailed (k\<lparr>wk_failed := wk_failed k + 1\<rparr>),
                       report_failure step c (jb_jobId job) ''INVALID_PAYLOAD'' now s)
            | Some v \<Rightarrow> (k, s)))"

text \<open>One firing of a run's renewal timer. The first refusal aborts the run.\<close>

definition renew_tick ::
  "('p ledger_op \<Rightarrow> 's \<Rightarrow> ledger_answer \<times> 's) \<Rightarrow> worker_config \<Rightarrow> nat \<Rightarrow> int \<Rightarrow> worker \<Rightarrow> 's \<Rightarrow> worker \<times> 's" where
  "renew_tick step c i now k s =
     (case map_of (wk_runs k) i of
        None \<Rightarrow> (k, s)
      | Some r \<Rightarrow>
          if \<not> rn_ticking r then (k, s)
          else
            (let (a, s') = step (Renew (jb_jobId (rn_job r)) (wc_owner c) (wc_leaseMs c) now) s in
             if a = Accepted True \<or> rn_lost r then (k, s')
             else (k\<lparr>wk_runs := AList.update i (r\<lparr>rn_lost := True\<rparr>) (wk_runs k),
                     wk_leaseLost := wk_leaseLost k + 1\<rparr>, s')))"

definition throw_label :: "thrown \<Rightarrow> string" where
  "throw_label e = (case error_label e of Some c \<Rightarrow> code_name c | None \<Rightarrow> ''INTERNAL'')"

text \<open>The part of \<open>run\<close> after the handler: a run that lost its lease reports that and leaves the ledger alone, a
  refused completion counts as a lost lease, and a thrown error is reported as a failure.\<close>

definition finish_run ::
  "('p ledger_op \<Rightarrow> 's \<Rightarrow> ledger_answer \<times> 's) \<Rightarrow> worker_config \<Rightarrow> nat \<Rightarrow> handler_result \<Rightarrow> int \<Rightarrow> worker \<Rightarrow> 's \<Rightarrow>
    worker \<times> 's" where
  "finish_run step c i res now k s =
     (case map_of (wk_runs k) i of
        None \<Rightarrow> (k, s)
      | Some r \<Rightarrow>
          (let jid = jb_jobId (rn_job r) in
           case res of
             Returns \<Rightarrow>
               if rn_lost r then (settle i jid LeaseLost k, s)
               else
                 (let (a, s') = step (Complete jid (wc_owner c) now) s in
                  if a = Accepted True then (settle i jid DoneOk (k\<lparr>wk_completed := wk_completed k + 1\<rparr>), s')
                  else (settle i jid LeaseLost (k\<lparr>wk_leaseLost := wk_leaseLost k + 1\<rparr>), s'))
           | Throws e \<Rightarrow>
               (settle i jid (if rn_lost r then DoneCancelled else DoneFailed) (k\<lparr>wk_failed := wk_failed k + 1\<rparr>),
                report_failure step c jid (throw_label e) now s)))"

text \<open>The end of \<open>stop\<close>, after its deadline: every run still in flight loses its timer, its lease is released
  as a failure and it is reported cancelled. The run itself goes on.\<close>

fun release_all ::
  "('p ledger_op \<Rightarrow> 's \<Rightarrow> ledger_answer \<times> 's) \<Rightarrow> worker_config \<Rightarrow> (string \<times> nat) list \<Rightarrow> int \<Rightarrow> worker \<Rightarrow> 's \<Rightarrow>
    worker \<times> 's" where
  "release_all step c [] now k s = (k, s)"
| "release_all step c ((jid, i) # js) now k s =
     release_all step c js now
       (k\<lparr>wk_runs := map_vals (\<lambda>j r. if j = i then r\<lparr>rn_ticking := False\<rparr> else r) (wk_runs k),
          wk_inFlight := AList.delete jid (wk_inFlight k),
          wk_settled := wk_settled k @ [(jid, DoneCancelled)]\<rparr>)
       (report_failure step c jid ''LEASE_RELEASED'' now s)"

definition worker_stop ::
  "('p ledger_op \<Rightarrow> 's \<Rightarrow> ledger_answer \<times> 's) \<Rightarrow> worker_config \<Rightarrow> int \<Rightarrow> worker \<Rightarrow> 's \<Rightarrow> worker \<times> 's" where
  "worker_stop step c now k s = release_all step c (wk_inFlight k) now (k\<lparr>wk_running := False\<rparr>) s"

text \<open>\<open>drain\<close>: claim and run until nothing is left or the rounds are used up. A handler that does not fail is
  given by \<open>res\<close>; each round reads the clock once.\<close>

fun worker_drain ::
  "('p ledger_op \<Rightarrow> 's \<Rightarrow> ledger_answer \<times> 's) \<Rightarrow> worker_config \<Rightarrow> (string \<Rightarrow> 'v option) \<Rightarrow>
    (job_record \<Rightarrow> handler_result) \<Rightarrow> int \<Rightarrow> nat \<Rightarrow> worker \<Rightarrow> 's \<Rightarrow> nat \<times> worker \<times> 's" where
  "worker_drain step c parse res now 0 k s = (0, k, s)"
| "worker_drain step c parse res now (Suc rounds) k s =
     (case claim_one step c now s of
        (None, s') \<Rightarrow> (0, k, s')
      | (Some job, s') \<Rightarrow>
          (let i = wk_nextRun k;
               (k1, s1) = begin_run step c parse job now k s';
               (k2, s2) = finish_run step c i (res job) now k1 s1;
               (n, k3, s3) = worker_drain step c parse res now rounds k2 s2
           in (n + 1, k3, s3)))"

section \<open>The pump\<close>

text \<open>
  What \<open>pump\<close> does between two of its awaits, as a function of the running flag, the number of jobs in
  flight and the concurrency. The loop is a partial function: \<open>None\<close> means that it never
  reaches an await.
\<close>

datatype pump_yield = AwaitClaim | AwaitPoll | PumpEnds

partial_function (option) pump_loop :: "bool \<Rightarrow> int \<Rightarrow> int \<Rightarrow> pump_yield option" where
  "pump_loop running n conc =
     (if \<not> running then Some PumpEnds
      else if n < conc then Some AwaitClaim
      else pump_loop running n conc)"

text \<open>After the claim it awaited: \<open>found\<close> says whether there was a job, \<open>n\<close> is the number in flight at that
  moment.\<close>

definition pump_after_claim :: "bool \<Rightarrow> int \<Rightarrow> int \<Rightarrow> bool \<Rightarrow> bool \<Rightarrow> pump_yield option" where
  "pump_after_claim running n conc progressed found =
     (if found
      then (if running \<and> n + 1 < conc then Some AwaitClaim else pump_loop running (n + 1) conc)
      else if progressed \<or> running \<and> n \<ge> conc then pump_loop running n conc
      else Some AwaitPoll)"

definition safe_label :: "string \<Rightarrow> string" where
  "safe_label v =
     (if 1 \<le> length v \<and> length v \<le> 64 \<and> list_all (\<lambda>c. is_alnum c \<or> c \<in> set ''._:-'') v then v else ''other'')"

section \<open>What the worker relies on\<close>

lemma complete_accepted:
  assumes "job_store_step sha js lc step" "ledger_ok s" "fst (step (Complete j w now) s) = Accepted True"
  shows "\<exists>q. map_of s j = Some q \<and> jb_leaseOwner q = Some w \<and>
    map_of (snd (step (Complete j w now) s)) j = Some (completed_job now q)"
  using assms unfolding job_store_step_def
  by (auto simp: mem_complete_def if_owner_accepted owner_is_some if_owner_get sql_complete_def case_prod_unfold Let_def
      sql_owned_plain [OF assms(2)])

lemma fail_by_owner:
  assumes "job_store_step sha js lc step" "ledger_ok s" "map_of s j = Some q" "jb_leaseOwner q = Some w"
  shows "\<exists>ra. map_of (snd (step (Fail j w l d now) s)) j = Some ((failed_job l d now q)\<lparr>jb_runAfter := ra\<rparr>)"
proof -
  obtain ra where "sql_failed_job l d now q = (failed_job l d now q)\<lparr>jb_runAfter := ra\<rparr>"
    using sql_failed_job_failed by blast
  moreover have "\<exists>ra. failed_job l d now q = (failed_job l d now q)\<lparr>jb_runAfter := ra\<rparr>"
    by (rule exI [of _ "jb_runAfter (failed_job l d now q)"]) simp
  ultimately show ?thesis
    using assms unfolding job_store_step_def
    by (auto simp: mem_fail_def if_owner_get sql_fail_def case_prod_unfold Let_def sql_owned_plain [OF assms(2)])
qed

lemma complete_refused:
  assumes "job_store_step sha js lc step" "ledger_ok s" "fst (step (Complete j w now) s) \<noteq> Accepted True"
  shows "step (Complete j w now) s = (Accepted False, s)"
proof (cases "map_option jb_leaseOwner (map_of s j) = Some (Some w)")
  case True
  then have "fst (step (Complete j w now) s) = Accepted True"
    using assms(1) unfolding job_store_step_def owner_is_some
    by (auto simp: mem_complete_def if_owner_accepted owner_is_some sql_complete_def case_prod_unfold Let_def
      sql_owned_plain [OF assms(2)])
  with assms(3) show ?thesis by simp
next
  case False
  from job_ledger.not_owner_complete [OF store_ledger [OF assms(1)] assms(2) False] show ?thesis .
qed

section \<open>Properties\<close>

text \<open>C19. A worker reports the truth. When the handler of a run returns, the run is reported completed exactly when
  its lease was not lost and the ledger accepted the completion; then the worker held the job until that
  moment and the ledger now records it completed. Otherwise it is reported as a lost lease, nothing is
  counted as completed, and the ledger is left exactly as it was.\<close>

theorem worker_reports_truth:
  assumes "job_store_step sha js lc step"
    and "map_of (wk_runs k) i = Some r"
    and "finish_run step c i Returns now k (snd (ledger_run step before [])) = (k', s')"
  shows "last (wk_settled k') = (jb_jobId (rn_job r), DoneOk) \<and> \<not> rn_lost r \<and>
      wk_completed k' = wk_completed k + 1 \<and>
      (\<exists>q. map_of (snd (ledger_run step before [])) (jb_jobId (rn_job r)) = Some q \<and>
        jb_leaseOwner q = Some (wc_owner c) \<and> map_of s' (jb_jobId (rn_job r)) = Some (completed_job now q)) \<or>
    last (wk_settled k') = (jb_jobId (rn_job r), LeaseLost) \<and> wk_completed k' = wk_completed k \<and>
      s' = snd (ledger_run step before [])"
proof -
  let ?s = "snd (ledger_run step before [])"
  let ?x = "Complete (jb_jobId (rn_job r)) (wc_owner c) now"
  have ok: "ledger_ok ?s" using assms(1) by (rule store_run_ok)
  show ?thesis
  proof (cases "rn_lost r")
    case True
    with assms(2,3) show ?thesis by (auto simp: finish_run_def settle_def Let_def)
  next
    case False
    show ?thesis
    proof (cases "fst (step ?x ?s) = Accepted True")
      case True
      with complete_accepted [OF assms(1) ok True] False assms(2,3) show ?thesis
        by (auto simp: finish_run_def settle_def case_prod_unfold Let_def)
    next
      case refused: False
      with complete_refused [OF assms(1) ok refused] False assms(2,3) show ?thesis
        by (auto simp: finish_run_def settle_def Let_def)
    qed
  qed
qed

definition sample_config :: "string \<Rightarrow> worker_config" where
  "sample_config w = new_worker_config w None None None None [''reindex''] None"

definition sample_worker :: worker where
  "sample_worker = new_worker\<lparr>wk_running := True, wk_inFlight := [(''j1'', 0)],
     wk_runs := [(0, \<lparr>rn_job = sample_job, rn_lost = False, rn_ticking = True\<rparr>)], wk_nextRun := 1\<rparr>"

theorem worker_reports_truth_witness:
  "wk_completed (fst (finish_run (sql_step id (Some :: string \<Rightarrow> _)) (sample_config ''a'') 0 Returns 20 sample_worker
      (snd (ledger_run (sql_step id Some) [Enqueue sample_input ''u'' 0, Claim (claim_any ''a'') ''p'' 10] [])))) = 1"
proof -
  let ?s = "snd (ledger_run (sql_step id Some) [Enqueue sample_input ''u'' 0, Claim (claim_any ''a'') ''p'' 10] [])"
  let ?r = "finish_run (sql_step id (Some :: string \<Rightarrow> _)) (sample_config ''a'') 0 Returns 20 sample_worker ?s"
  have store: "job_store_step id Some bytes_le (sql_step id (Some :: string \<Rightarrow> _))" by (simp add: job_store_step_def)
  have run: "map_of (wk_runs sample_worker) 0 = Some \<lparr>rn_job = sample_job, rn_lost = False, rn_ticking = True\<rparr>"
    by (simp add: sample_worker_def)
  have "last (wk_settled (fst ?r)) \<noteq> (''j1'', LeaseLost)" by code_simp
  with worker_reports_truth [OF store run, of "sample_config ''a''" 20
      "[Enqueue sample_input ''u'' 0, Claim (claim_any ''a'') ''p'' 10]" "fst ?r" "snd ?r"]
  show ?thesis by (auto simp: sample_worker_def new_worker_def sample_job_def claimed_job_def new_job_def)
qed

text \<open>Stopping gives a running job away. The end of \<open>stop\<close> fails the job of a run that is still going, although
  the handler is neither finished nor aborted: the run stays, its lease flag unset and its renewal
  timer off, while the ledger takes the job from the worker, for a retry if attempts remain and
  otherwise as failed for good.\<close>

theorem stop_gives_running_job_away:
  assumes "job_store_step sha js lc step"
    and "map_of (snd (ledger_run step before [])) jid = Some q" and "jb_leaseOwner q = Some (wc_owner c)"
    and "wk_inFlight k = [(jid, i)]" and "map_of (wk_runs k) i = Some r"
    and "worker_stop step c now k (snd (ledger_run step before [])) = (k', s')"
  shows "map_of (wk_runs k') i = Some (r\<lparr>rn_ticking := False\<rparr>) \<and> last (wk_settled k') = (jid, DoneCancelled) \<and>
    (\<exists>q'. map_of s' jid = Some q' \<and> jb_leaseOwner q' = None \<and>
      jb_state q' = (if jb_attempt q < jb_maxAttempts q then Retrying else Failed))"
proof -
  have ok: "ledger_ok (snd (ledger_run step before []))" using assms(1) by (rule store_run_ok)
  from fail_by_owner [OF assms(1) ok assms(2,3), of "''LEASE_RELEASED''" 0 now] assms(4-6)
  show ?thesis
    by (auto simp: worker_stop_def report_failure_def table_simps failed_job_def unleased_job_def can_retry_def)
qed

theorem stop_gives_running_job_away_witness:
  "let (k', s') = worker_stop (sql_step id (Some :: string \<Rightarrow> _)) (sample_config ''a'') 20 sample_worker
      (snd (ledger_run (sql_step id Some) [Enqueue sample_input ''u'' 0, Claim (claim_any ''a'') ''p'' 10] []))
   in map_option rn_lost (map_of (wk_runs k') 0) = Some False \<and>
     map_option jb_state (map_of s' ''j1'') = Some Retrying"
proof -
  let ?s = "snd (ledger_run (sql_step id Some) [Enqueue sample_input ''u'' 0, Claim (claim_any ''a'') ''p'' 10] [])"
  obtain k' s' where stop: "worker_stop (sql_step id (Some :: string \<Rightarrow> _)) (sample_config ''a'') 20 sample_worker ?s = (k', s')"
    by (rule prod.exhaust)
  have store: "job_store_step id Some bytes_le (sql_step id (Some :: string \<Rightarrow> _))" by (simp add: job_store_step_def)
  have job: "map_of ?s ''j1'' = Some sample_job" by code_simp
  have own: "jb_leaseOwner sample_job = Some (wc_owner (sample_config ''a''))"
    by (simp add: sample_job_def sample_config_def new_worker_config_def Let_def)
  from stop_gives_running_job_away [OF store job own _ _ stop, of 0] stop show ?thesis
    by (auto simp: sample_worker_def sample_job_def claimed_job_def new_job_def)
qed

text \<open>A saturated pump never yields. Once as many jobs are in flight as the worker runs at a time, the pump
  loops without reaching an await, so no handler, timer or ledger call of the process can go on. It
  yields in every other case. In particular the claim that fills the last slot never yields.\<close>

theorem saturated_pump_never_yields:
  "(pump_loop running n conc = None \<longleftrightarrow> running \<and> conc \<le> n) \<and>
    pump_after_claim True (conc - 1) conc progressed True = None"
proof -
  have stuck: "pump_loop running n conc = Some y \<Longrightarrow> \<not> (running \<and> conc \<le> n)" for running n conc y
    by (erule pump_loop.raw_induct [where P = "\<lambda>running n conc y. \<not> (running \<and> conc \<le> n)", rotated])
      (auto split: if_splits)
  have yields: "\<not> (running \<and> conc \<le> n) \<Longrightarrow> pump_loop running n conc \<noteq> None" for running n conc
    by (subst pump_loop.simps) auto
  have "pump_loop running n conc = None \<longleftrightarrow> running \<and> conc \<le> n"
    using stuck yields by (metis not_None_eq)
  moreover have "pump_loop True conc conc = None" using stuck [of True conc conc] by (metis not_None_eq order_refl)
  ultimately show ?thesis by (simp add: pump_after_claim_def)
qed

end
