(* ===== verification/BatchLedger.thy ===== *)
theory BatchLedger
  imports Errors Json
begin

text \<open>
  \<open>src/batch-idempotency-store.ts\<close>: the durable ledger of idempotent batch requests. A row of the claims
  table is kept as it is stored and verified when it is read; a transaction is a function that
  returns an error and leaves the state alone, or returns a result and the new state. Outside the
  model are SHA-256, the keyed HMAC digest, and \<open>JSON.parse\<close> and \<open>JSON.stringify\<close>; they are the
  fields of \<open>batch_env\<close>. Errors of the database and of the
  file system other than an absent or unsafe marker are not modelled, nor is the creation of the
  directory, key and identity files. Strings are their UTF-8 bytes.
\<close>

section \<open>Data\<close>

record batch_input =
  bi_scope :: string
  bi_key :: string
  bi_fingerprint :: string
  bi_operation :: "string option"

datatype batch_answer = Fresh | Replay json

datatype restore_reason = ForRestore | ForMigration

datatype claim_state = ClaimInProgress | ClaimCompleted | ClaimReleased

record claim_row =
  cr_scopeHash :: string
  cr_keyHash :: string
  cr_fingerprint :: string
  cr_state :: claim_state
  cr_createdAt :: int
  cr_completedAt :: "int option"
  cr_response :: "string option"
  cr_responseBytes :: int
  cr_reservedBytes :: int
  cr_operation :: string
  cr_mac :: string
  cr_generation :: int

text \<open>A stored row: the state is any text, the operation may be null.\<close>

record raw_row =
  rw_scopeHash :: string
  rw_keyHash :: string
  rw_fingerprint :: string
  rw_state :: string
  rw_createdAt :: int
  rw_completedAt :: "int option"
  rw_response :: "string option"
  rw_responseBytes :: int
  rw_reservedBytes :: int
  rw_operation :: "string option"
  rw_mac :: string
  rw_generation :: int

record meta_row =
  mr_identity :: string
  mr_generation :: int
  mr_restorePending :: int
  mr_mac :: string

datatype mac_item = MacText string | MacNumber int

record batch_env =
  be_sha :: "string \<Rightarrow> string"
  be_hmac :: "string \<Rightarrow> string"
  be_items :: "mac_item list \<Rightarrow> string"
  be_stringify :: "json \<Rightarrow> string"
  be_parse :: "string \<Rightarrow> json option"

record batch_options =
  bo_maxBytes :: "int option"
  bo_maxEntries :: "int option"
  bo_maxEntriesPerScope :: "int option"
  bo_maxTotalBytes :: "int option"

record batch_config =
  bc_identity :: string
  bc_maxBytes :: int
  bc_maxEntries :: int
  bc_maxEntriesPerScope :: int
  bc_maxTotalBytes :: int

text \<open>The gate marker: a regular file with its content, or something else in its place.\<close>

datatype restore_marker = MarkerFile string | UnsafeMarker

record batch_state =
  bs_meta :: "meta_row option"
  bs_claims :: "(string \<times> string, raw_row) js_map"
  bs_marker :: "restore_marker option"

definition max_response_bytes :: int where "max_response_bytes = 2 * 1024 * 1024"

definition is_safe :: "int \<Rightarrow> bool" where
  "is_safe n \<longleftrightarrow> - max_safe \<le> n \<and> n \<le> max_safe"

text \<open>The bounds of the constructor's options.\<close>

definition new_batch_config :: "string \<Rightarrow> batch_options \<Rightarrow> batch_config result" where
  "new_batch_config identity opts =
     (let maxBytes = (case bo_maxBytes opts of None \<Rightarrow> max_response_bytes | Some n \<Rightarrow> n);
          maxEntries = (case bo_maxEntries opts of None \<Rightarrow> 10000 | Some n \<Rightarrow> n);
          perScope = (case bo_maxEntriesPerScope opts of None \<Rightarrow> min 1000 maxEntries | Some n \<Rightarrow> n);
          total = (case bo_maxTotalBytes opts of None \<Rightarrow> 64 * 1024 * 1024 | Some n \<Rightarrow> n)
      in if maxBytes < 1024 \<or> maxBytes > max_response_bytes then Inl INVALID_INPUT
         else if maxEntries < 1 \<or> maxEntries > 100000 then Inl INVALID_INPUT
         else if perScope < 1 \<or> perScope > maxEntries then Inl INVALID_INPUT
         else if total < maxBytes \<or> total > 1024 * 1024 * 1024 then Inl INVALID_INPUT
         else Inr \<lparr>bc_identity = identity, bc_maxBytes = maxBytes, bc_maxEntries = maxEntries,
                bc_maxEntriesPerScope = perScope, bc_maxTotalBytes = total\<rparr>)"

section \<open>Validating\<close>

definition operation_name :: "string \<Rightarrow> bool" where
  "operation_name s \<longleftrightarrow> s \<noteq> '''' \<and> length s \<le> 16 \<and> is_lower (hd s) \<and>
     list_all (\<lambda>c. is_lower c \<or> is_digit c \<or> c = CHR ''_'') (tl s)"

definition validate_input :: "batch_input \<Rightarrow> unit result" where
  "validate_input inp =
     (if \<not> hex_digest 64 64 (bi_scope inp) then Inl INVALID_INPUT
      else if length (bi_key inp) < 1 \<or> length (bi_key inp) > 128 then Inl INVALID_INPUT
      else if \<not> hex_digest 64 64 (bi_fingerprint inp) then Inl INVALID_INPUT
      else if (case bi_operation inp of None \<Rightarrow> False | Some s \<Rightarrow> \<not> operation_name s) then Inl INVALID_INPUT
      else Inr ())"

text \<open>The owner a marker names; a marker that cannot be read or recognised names none.\<close>

definition marker_reason :: "batch_env \<Rightarrow> restore_marker option \<Rightarrow> restore_reason option" where
  "marker_reason e m =
     (case m of
        Some (MarkerFile raw) \<Rightarrow>
          (case be_parse e raw of
             Some (JObj es) \<Rightarrow>
               (if map_of es ''format'' \<noteq> Some (JStr ''remembra-batch-restore'') then None
                else case map_of es ''version'' of
                    Some (JNum q) \<Rightarrow>
                      (case safe_integer q of
                         None \<Rightarrow> None
                       | Some v \<Rightarrow>
                           if v = 1 then Some ForRestore
                           else if map_of es ''reason'' = Some (JStr ''restore'') then Some ForRestore
                           else if map_of es ''reason'' = Some (JStr ''migration'') then Some ForMigration
                           else None)
                  | _ \<Rightarrow> None)
           | _ \<Rightarrow> None)
      | _ \<Rightarrow> None)"

section \<open>Rows\<close>

fun state_name :: "claim_state \<Rightarrow> string" where
  "state_name ClaimInProgress = ''in_progress''"
| "state_name ClaimCompleted = ''completed''"
| "state_name ClaimReleased = ''released''"

definition parse_state :: "string \<Rightarrow> claim_state option" where
  "parse_state s = (if s = ''in_progress'' then Some ClaimInProgress
     else if s = ''completed'' then Some ClaimCompleted
     else if s = ''released'' then Some ClaimReleased else None)"

lemma parse_state_name [simp]: "parse_state (state_name st) = Some st"
  by (cases st) (simp_all add: parse_state_def)

definition text_or_empty :: "string option \<Rightarrow> mac_item" where
  "text_or_empty v = (case v of None \<Rightarrow> MacText '''' | Some s \<Rightarrow> MacText s)"

definition number_or_empty :: "int option \<Rightarrow> mac_item" where
  "number_or_empty v = (case v of None \<Rightarrow> MacText '''' | Some n \<Rightarrow> MacNumber n)"

definition mac_payload :: "claim_row \<Rightarrow> bool \<Rightarrow> mac_item list" where
  "mac_payload r legacy =
     [MacText (cr_scopeHash r), MacText (cr_keyHash r), MacText (cr_fingerprint r),
      MacText (state_name (cr_state r)), MacNumber (cr_createdAt r), number_or_empty (cr_completedAt r),
      text_or_empty (cr_response r), MacNumber (cr_responseBytes r), MacNumber (cr_reservedBytes r),
      MacNumber (cr_generation r)] @ (if legacy then [] else [MacText (cr_operation r)])"

definition record_mac :: "batch_env \<Rightarrow> claim_row \<Rightarrow> bool \<Rightarrow> string" where
  "record_mac e r legacy = be_hmac e (be_items e (mac_payload r legacy))"

definition int_text :: "int \<Rightarrow> string" where
  "int_text n = (if n < 0 then ''-'' @ dec (nat (- n)) else dec (nat n))"

definition meta_mac :: "batch_env \<Rightarrow> string \<Rightarrow> int \<Rightarrow> bool \<Rightarrow> string" where
  "meta_mac e identity generation pending =
     be_hmac e (''identity:'' @ identity @ '':generation:'' @ int_text generation @
       '':restore:'' @ (if pending then ''1'' else ''0''))"

definition read_row :: "raw_row \<Rightarrow> claim_state \<Rightarrow> claim_row" where
  "read_row v st =
     \<lparr>cr_scopeHash = rw_scopeHash v, cr_keyHash = rw_keyHash v, cr_fingerprint = rw_fingerprint v,
      cr_state = st, cr_createdAt = rw_createdAt v, cr_completedAt = rw_completedAt v,
      cr_response = rw_response v, cr_responseBytes = rw_responseBytes v,
      cr_reservedBytes = rw_reservedBytes v,
      cr_operation = (case rw_operation v of None \<Rightarrow> '''' | Some s \<Rightarrow> s),
      cr_mac = rw_mac v, cr_generation = rw_generation v\<rparr>"

text \<open>Every check of a row, in the order of the code; each failure is the same error.\<close>

definition row_valid :: "batch_env \<Rightarrow> bool \<Rightarrow> claim_row \<Rightarrow> bool" where
  "row_valid e legacy r \<longleftrightarrow>
     hex_digest 64 64 (cr_scopeHash r) \<and> hex_digest 64 64 (cr_keyHash r) \<and> hex_digest 64 64 (cr_fingerprint r) \<and>
     (cr_operation r = '''' \<or> operation_name (cr_operation r)) \<and>
     is_safe (cr_createdAt r) \<and> 0 \<le> cr_createdAt r \<and> is_safe (cr_generation r) \<and> 0 \<le> cr_generation r \<and>
     (cr_state r = ClaimInProgress \<or> cr_state r = ClaimReleased \<longrightarrow>
       cr_completedAt r = None \<and> cr_response r = None \<and> cr_responseBytes r = 0) \<and>
     (cr_state r = ClaimCompleted \<longrightarrow>
       (case cr_completedAt r of None \<Rightarrow> False | Some t \<Rightarrow> is_safe t) \<and> cr_response r \<noteq> None \<and>
       0 \<le> cr_responseBytes r) \<and>
     (cr_state r = ClaimCompleted \<longrightarrow>
       int (length (case cr_response r of None \<Rightarrow> '''' | Some s \<Rightarrow> s)) = cr_responseBytes r) \<and>
     is_safe (cr_responseBytes r) \<and> 0 \<le> cr_responseBytes r \<and>
     is_safe (cr_reservedBytes r) \<and> 0 \<le> cr_reservedBytes r \<and>
     (legacy \<longrightarrow> cr_state r \<noteq> ClaimReleased) \<and>
     40 \<le> length (cr_mac r) \<and> length (cr_mac r) \<le> 128 \<and> cr_mac r = record_mac e r legacy"

definition parse_row :: "batch_env \<Rightarrow> bool \<Rightarrow> raw_row \<Rightarrow> claim_row result" where
  "parse_row e legacy v =
     (case parse_state (rw_state v) of
        None \<Rightarrow> Inl SERVICE_UNAVAILABLE
      | Some st \<Rightarrow>
          if row_valid e legacy (read_row v st) then Inr (read_row v st) else Inl SERVICE_UNAVAILABLE)"

text \<open>The row as the statements store it, with its keyed digest.\<close>

definition write_row :: "batch_env \<Rightarrow> claim_row \<Rightarrow> raw_row" where
  "write_row e r =
     \<lparr>rw_scopeHash = cr_scopeHash r, rw_keyHash = cr_keyHash r, rw_fingerprint = cr_fingerprint r,
      rw_state = state_name (cr_state r), rw_createdAt = cr_createdAt r, rw_completedAt = cr_completedAt r,
      rw_response = cr_response r, rw_responseBytes = cr_responseBytes r,
      rw_reservedBytes = cr_reservedBytes r, rw_operation = Some (cr_operation r),
      rw_mac = record_mac e r False, rw_generation = cr_generation r\<rparr>"

definition parse_response :: "batch_env \<Rightarrow> claim_row \<Rightarrow> json result" where
  "parse_response e r =
     (case (cr_state r, cr_response r) of
        (ClaimCompleted, Some s) \<Rightarrow>
          (case be_parse e s of None \<Rightarrow> Inl SERVICE_UNAVAILABLE | Some v \<Rightarrow> Inr v)
      | _ \<Rightarrow> Inl SERVICE_UNAVAILABLE)"

section \<open>Operations\<close>

definition current_meta :: "batch_env \<Rightarrow> batch_config \<Rightarrow> batch_state \<Rightarrow> (int \<times> bool) result" where
  "current_meta e c s =
     (case bs_meta s of
        None \<Rightarrow> Inl SERVICE_UNAVAILABLE
      | Some m \<Rightarrow>
          if mr_identity m \<noteq> bc_identity c \<or> \<not> is_safe (mr_generation m) \<or> mr_generation m < 0 \<or>
             mr_restorePending m \<noteq> 0 \<and> mr_restorePending m \<noteq> 1 then Inl SERVICE_UNAVAILABLE
          else if mr_mac m \<noteq> meta_mac e (bc_identity c) (mr_generation m) (mr_restorePending m = 1)
          then Inl SERVICE_UNAVAILABLE
          else Inr (mr_generation m, mr_restorePending m = 1))"

definition restore_pending :: "batch_env \<Rightarrow> batch_config \<Rightarrow> batch_state \<Rightarrow> bool" where
  "restore_pending e c s \<longleftrightarrow> bs_marker s \<noteq> None \<or>
     (case current_meta e c s of Inl x \<Rightarrow> True | Inr (g, p) \<Rightarrow> p)"

definition gate_reason :: "batch_env \<Rightarrow> batch_config \<Rightarrow> batch_state \<Rightarrow> restore_reason option" where
  "gate_reason e c s = (if restore_pending e c s then marker_reason e (bs_marker s) else None)"

definition find_row :: "batch_env \<Rightarrow> string \<times> string \<Rightarrow> batch_state \<Rightarrow> claim_row option result" where
  "find_row e k s =
     (case map_of (bs_claims s) k of
        None \<Rightarrow> Inr None
      | Some v \<Rightarrow> (case parse_row e False v of Inl x \<Rightarrow> Inl x | Inr r \<Rightarrow> Inr (Some r)))"

text \<open>The guard of every transaction on claims: no gate, in the file system or in the database, and a valid
  input; then the transaction runs with the current generation.\<close>

definition gated ::
  "batch_env \<Rightarrow> batch_config \<Rightarrow> batch_input \<Rightarrow> (int \<Rightarrow> batch_state \<Rightarrow> 'a result) \<Rightarrow> batch_state \<Rightarrow> 'a result" where
  "gated e c inp body s =
     (if restore_pending e c s then Inl SERVICE_UNAVAILABLE
      else and_then (validate_input inp) (\<lambda>u.
        and_then (current_meta e c s) (\<lambda>(g, p).
          if p then Inl SERVICE_UNAVAILABLE else body g s)))"

definition claim_key :: "batch_env \<Rightarrow> batch_input \<Rightarrow> string \<times> string" where
  "claim_key e inp = (bi_scope inp, be_sha e (bi_key inp))"

text \<open>The capacity query: the claims that are not released, and the bytes they reserve or hold.\<close>

definition counted :: "batch_state \<Rightarrow> ((string \<times> string) \<times> raw_row) list" where
  "counted s = filter (\<lambda>(k, v). rw_state v \<noteq> ''released'') (bs_claims s)"

definition row_bytes :: "raw_row \<Rightarrow> int" where
  "row_bytes v = (if rw_state v = ''in_progress'' then rw_reservedBytes v else rw_responseBytes v)"

definition total_bytes :: "batch_state \<Rightarrow> int" where
  "total_bytes s = sum_list (map (row_bytes \<circ> snd) (counted s))"

definition scope_count :: "string \<Rightarrow> batch_state \<Rightarrow> nat" where
  "scope_count scope s = length (filter (\<lambda>(k, v). fst k = scope) (counted s))"

definition at_capacity :: "batch_config \<Rightarrow> string \<Rightarrow> batch_state \<Rightarrow> bool" where
  "at_capacity c scope s \<longleftrightarrow> int (length (counted s)) \<ge> bc_maxEntries c \<or>
     total_bytes s + bc_maxBytes c > bc_maxTotalBytes c \<or>
     int (scope_count scope s) \<ge> bc_maxEntriesPerScope c"

definition new_row :: "batch_env \<Rightarrow> batch_config \<Rightarrow> batch_input \<Rightarrow> int \<Rightarrow> int \<Rightarrow> claim_row" where
  "new_row e c inp now generation =
     \<lparr>cr_scopeHash = bi_scope inp, cr_keyHash = be_sha e (bi_key inp), cr_fingerprint = bi_fingerprint inp,
      cr_state = ClaimInProgress, cr_createdAt = now, cr_completedAt = None, cr_response = None,
      cr_responseBytes = 0, cr_reservedBytes = bc_maxBytes c,
      cr_operation = (case bi_operation inp of None \<Rightarrow> '''' | Some s \<Rightarrow> s), cr_mac = '''',
      cr_generation = generation\<rparr>"

definition put_row :: "batch_env \<Rightarrow> claim_row \<Rightarrow> batch_state \<Rightarrow> batch_state" where
  "put_row e r s = s\<lparr>bs_claims := AList.update (cr_scopeHash r, cr_keyHash r) (write_row e r) (bs_claims s)\<rparr>"

definition insert_claim ::
  "batch_env \<Rightarrow> batch_config \<Rightarrow> batch_input \<Rightarrow> int \<Rightarrow> int \<Rightarrow> batch_state \<Rightarrow> (batch_answer \<times> batch_state) result" where
  "insert_claim e c inp now g s =
     (if at_capacity c (bi_scope inp) s then Inl SERVICE_UNAVAILABLE
      else Inr (Fresh, put_row e (new_row e c inp now g) s))"

definition claim_body ::
  "batch_env \<Rightarrow> batch_config \<Rightarrow> batch_input \<Rightarrow> int \<Rightarrow> int \<Rightarrow> batch_state \<Rightarrow> (batch_answer \<times> batch_state) result" where
  "claim_body e c inp now g s =
     and_then (find_row e (claim_key e inp) s) (\<lambda>existing.
       case existing of
         None \<Rightarrow> insert_claim e c inp now g s
       | Some r \<Rightarrow>
           if (cr_scopeHash r, cr_keyHash r) \<noteq> claim_key e inp then Inl SERVICE_UNAVAILABLE
           else if cr_generation r \<noteq> g then Inl SERVICE_UNAVAILABLE
           else if cr_state r = ClaimReleased then
             (if cr_operation r = '''' then Inl SERVICE_UNAVAILABLE
              else if bi_operation inp \<noteq> Some (cr_operation r) then Inl CONFLICT
              else insert_claim e c inp now g (s\<lparr>bs_claims := AList.delete (claim_key e inp) (bs_claims s)\<rparr>))
           else if cr_fingerprint r \<noteq> bi_fingerprint inp then Inl CONFLICT
           else if cr_state r = ClaimInProgress then Inl SERVICE_UNAVAILABLE
           else and_then (parse_response e r) (\<lambda>v. Inr (Replay v, s)))"

definition batch_claim ::
  "batch_env \<Rightarrow> batch_config \<Rightarrow> batch_input \<Rightarrow> int \<Rightarrow> batch_state \<Rightarrow> (batch_answer \<times> batch_state) result" where
  "batch_claim e c inp now s = gated e c inp (claim_body e c inp now) s"

definition complete_body ::
  "batch_env \<Rightarrow> batch_config \<Rightarrow> batch_input \<Rightarrow> string \<Rightarrow> int \<Rightarrow> int \<Rightarrow> batch_state \<Rightarrow> (unit \<times> batch_state) result" where
  "complete_body e c inp response now g s =
     and_then (find_row e (claim_key e inp) s) (\<lambda>existing.
       case existing of
         None \<Rightarrow> Inl SERVICE_UNAVAILABLE
       | Some r \<Rightarrow>
           if (cr_scopeHash r, cr_keyHash r) \<noteq> claim_key e inp then Inl SERVICE_UNAVAILABLE
           else if cr_generation r \<noteq> g then Inl SERVICE_UNAVAILABLE
           else if cr_fingerprint r \<noteq> bi_fingerprint inp then Inl CONFLICT
           else if cr_state r = ClaimCompleted then Inr ((), s)
           else if cr_state r = ClaimReleased then Inl SERVICE_UNAVAILABLE
           else Inr ((), put_row e (r\<lparr>cr_state := ClaimCompleted, cr_completedAt := Some now,
                  cr_response := Some response, cr_responseBytes := int (length response),
                  cr_reservedBytes := 0\<rparr>) s))"

definition batch_complete ::
  "batch_env \<Rightarrow> batch_config \<Rightarrow> batch_input \<Rightarrow> json \<Rightarrow> int \<Rightarrow> batch_state \<Rightarrow> (unit \<times> batch_state) result" where
  "batch_complete e c inp response now s =
     gated e c inp (\<lambda>g s.
       if int (length (be_stringify e response)) > bc_maxBytes c then Inl SERVICE_UNAVAILABLE
       else complete_body e c inp (be_stringify e response) now g s) s"

definition abandon_body ::
  "batch_env \<Rightarrow> batch_input \<Rightarrow> int \<Rightarrow> batch_state \<Rightarrow> (unit \<times> batch_state) result" where
  "abandon_body e inp g s =
     and_then (find_row e (claim_key e inp) s) (\<lambda>existing.
       case existing of
         None \<Rightarrow> Inr ((), s)
       | Some r \<Rightarrow>
           if cr_generation r \<noteq> g then Inl SERVICE_UNAVAILABLE
           else if cr_fingerprint r \<noteq> bi_fingerprint inp then Inl CONFLICT
           else if cr_state r = ClaimReleased then
             (if cr_operation r \<noteq> (case bi_operation inp of None \<Rightarrow> '''' | Some s \<Rightarrow> s) then Inl CONFLICT
              else Inr ((), s))
           else if cr_state r \<noteq> ClaimInProgress then Inl SERVICE_UNAVAILABLE
           else Inr ((), put_row e (r\<lparr>cr_state := ClaimReleased, cr_completedAt := None,
                  cr_reservedBytes := 0,
                  cr_operation := (case bi_operation inp of None \<Rightarrow> cr_operation r | Some s \<Rightarrow> s)\<rparr>) s))"

definition batch_abandon ::
  "batch_env \<Rightarrow> batch_config \<Rightarrow> batch_input \<Rightarrow> batch_state \<Rightarrow> (unit \<times> batch_state) result" where
  "batch_abandon e c inp s = gated e c inp (abandon_body e inp) s"

section \<open>The restore gate\<close>

fun reason_name :: "restore_reason \<Rightarrow> string" where
  "reason_name ForRestore = ''restore''"
| "reason_name ForMigration = ''migration''"

definition marker_text :: "batch_env \<Rightarrow> restore_reason \<Rightarrow> string \<Rightarrow> string" where
  "marker_text e reason stamp =
     be_stringify e (JObj [(''format'', JStr ''remembra-batch-restore''), (''version'', JNum (Some 2)),
       (''reason'', JStr (reason_name reason)), (''createdAt'', JStr stamp)]) @ [CHR 0x0A]"

definition set_pending :: "batch_env \<Rightarrow> batch_config \<Rightarrow> int \<Rightarrow> bool \<Rightarrow> batch_state \<Rightarrow> batch_state" where
  "set_pending e c g p s =
     s\<lparr>bs_meta := map_option (\<lambda>m. m\<lparr>mr_generation := g, mr_restorePending := (if p then 1 else 0),
       mr_mac := meta_mac e (bc_identity c) g p\<rparr>) (bs_meta s)\<rparr>"

text \<open>\<open>writable\<close> tells whether an absent marker can be created; when the marker cannot be established the
  flag in the database is taken back.\<close>

definition begin_restore ::
  "batch_env \<Rightarrow> batch_config \<Rightarrow> restore_reason \<Rightarrow> string \<Rightarrow> bool \<Rightarrow> batch_state \<Rightarrow> unit result \<times> batch_state" where
  "begin_restore e c reason stamp writable s =
     (case current_meta e c s of
        Inl x \<Rightarrow> (Inl x, s)
      | Inr (g, p) \<Rightarrow>
          if p then (Inl SERVICE_UNAVAILABLE, s)
          else if list_ex (\<lambda>(k, v). rw_state v = ''in_progress'') (bs_claims s) then (Inl SERVICE_UNAVAILABLE, s)
          else
            (let s1 = set_pending e c g True s in
             case bs_marker s1 of
               Some (MarkerFile raw) \<Rightarrow> (Inr (), s1)
             | Some UnsafeMarker \<Rightarrow> (Inl SERVICE_UNAVAILABLE, set_pending e c g False s1)
             | None \<Rightarrow>
                 if writable then (Inr (), s1\<lparr>bs_marker := Some (MarkerFile (marker_text e reason stamp))\<rparr>)
                 else (Inl SERVICE_UNAVAILABLE, set_pending e c g False s1)))"

definition invalidate :: "batch_env \<Rightarrow> batch_config \<Rightarrow> batch_state \<Rightarrow> unit result \<times> batch_state" where
  "invalidate e c s =
     (case current_meta e c s of
        Inl x \<Rightarrow> (Inl x, s)
      | Inr (g, p) \<Rightarrow>
          if \<not> is_safe (g + 1) then (Inl SERVICE_UNAVAILABLE, s)
          else (Inr (), set_pending e c (g + 1) False (s\<lparr>bs_claims := []\<rparr>)))"

definition complete_restore :: "batch_env \<Rightarrow> batch_config \<Rightarrow> batch_state \<Rightarrow> unit result \<times> batch_state" where
  "complete_restore e c s =
     (case bs_marker s of
        Some UnsafeMarker \<Rightarrow> (Inl SERVICE_UNAVAILABLE, s)
      | _ \<Rightarrow> invalidate e c (s\<lparr>bs_marker := None\<rparr>))"

section \<open>Opening\<close>

definition new_batch_state :: "batch_env \<Rightarrow> batch_config \<Rightarrow> batch_state" where
  "new_batch_state e c =
     \<lparr>bs_meta = Some \<lparr>mr_identity = bc_identity c, mr_generation = 1, mr_restorePending = 0,
        mr_mac = meta_mac e (bc_identity c) 1 False\<rparr>,
      bs_claims = [], bs_marker = None\<rparr>"

text \<open>Upgrading the table of the first version: each row must verify with its old or with the current
  digest, and is written back with the current one and no operation.\<close>

definition verify_legacy :: "batch_env \<Rightarrow> raw_row \<Rightarrow> claim_row result" where
  "verify_legacy e v =
     (case parse_row e True v of
        Inr r \<Rightarrow> Inr (r\<lparr>cr_operation := ''''\<rparr>)
      | Inl x \<Rightarrow> parse_row e False v)"

definition migrate_claims :: "batch_env \<Rightarrow> batch_state \<Rightarrow> batch_state result" where
  "migrate_claims e s =
     fold_res (\<lambda>t (k, v). and_then (verify_legacy e (v\<lparr>rw_operation := None\<rparr>))
         (\<lambda>r. Inr (put_row e (r\<lparr>cr_operation := ''''\<rparr>) t)))
       (s\<lparr>bs_claims := []\<rparr>) (bs_claims s)"

section \<open>Runs\<close>

datatype batch_op =
    BClaim batch_input int
  | BComplete batch_input json int
  | BAbandon batch_input
  | BBegin restore_reason string bool
  | BCompleteRestore
  | BInvalidate

datatype batch_result = Answered "batch_answer result" | Done "unit result"

definition keep_state :: "'s \<Rightarrow> ('a \<times> 's) result \<Rightarrow> 'a result \<times> 's" where
  "keep_state s r = (case r of Inl x \<Rightarrow> (Inl x, s) | Inr (a, s') \<Rightarrow> (Inr a, s'))"

fun batch_step :: "batch_env \<Rightarrow> batch_config \<Rightarrow> batch_op \<Rightarrow> batch_state \<Rightarrow> batch_result \<times> batch_state" where
  "batch_step e c (BClaim inp now) s = map_prod Answered id (keep_state s (batch_claim e c inp now s))"
| "batch_step e c (BComplete inp v now) s = map_prod Done id (keep_state s (batch_complete e c inp v now s))"
| "batch_step e c (BAbandon inp) s = map_prod Done id (keep_state s (batch_abandon e c inp s))"
| "batch_step e c (BBegin reason stamp w) s = map_prod Done id (begin_restore e c reason stamp w s)"
| "batch_step e c BCompleteRestore s = map_prod Done id (complete_restore e c s)"
| "batch_step e c BInvalidate s = map_prod Done id (invalidate e c s)"

fun batch_run :: "batch_env \<Rightarrow> batch_config \<Rightarrow> batch_op list \<Rightarrow> batch_state \<Rightarrow> batch_result list \<times> batch_state" where
  "batch_run e c [] s = ([], s)"
| "batch_run e c (x # xs) s =
     (let (a, s') = batch_step e c x s; (as, s'') = batch_run e c xs s' in (a # as, s''))"

lemma batch_run_Cons [simp]:
  "fst (batch_run e c (x # xs) s) = fst (batch_step e c x s) # fst (batch_run e c xs (snd (batch_step e c x s)))"
  "snd (batch_run e c (x # xs) s) = snd (batch_run e c xs (snd (batch_step e c x s)))"
  by (simp_all add: Let_def split: prod.splits)

lemma batch_run_append:
  "snd (batch_run e c (xs @ ys) s) = snd (batch_run e c ys (snd (batch_run e c xs s)))"
  by (induction xs arbitrary: s) (simp_all del: batch_run.simps(2))

text \<open>What each accepted operation did to the claims.\<close>

inductive claims_change ::
  "batch_env \<Rightarrow> batch_config \<Rightarrow> batch_op \<Rightarrow> batch_state \<Rightarrow> batch_state \<Rightarrow> bool" for e c where
  same: "claims_change e c x s s"
| gate: "x = BBegin reason stamp w \<or> x = BCompleteRestore \<or> x = BInvalidate \<Longrightarrow> bs_claims s' = bs_claims s \<Longrightarrow>
    claims_change e c x s s'"
| fresh: "find_row e (claim_key e inp) s = Inr None \<Longrightarrow> \<not> at_capacity c (bi_scope inp) s \<Longrightarrow>
    validate_input inp = Inr () \<Longrightarrow> current_meta e c s = Inr (g, False) \<Longrightarrow>
    claims_change e c (BClaim inp now) s (put_row e (new_row e c inp now g) s)"
| again: "find_row e (claim_key e inp) s = Inr (Some r) \<Longrightarrow> cr_state r = ClaimReleased \<Longrightarrow>
    bi_operation inp = Some (cr_operation r) \<Longrightarrow> cr_operation r \<noteq> '''' \<Longrightarrow>
    s1 = s\<lparr>bs_claims := AList.delete (claim_key e inp) (bs_claims s)\<rparr> \<Longrightarrow>
    \<not> at_capacity c (bi_scope inp) s1 \<Longrightarrow>
    validate_input inp = Inr () \<Longrightarrow> current_meta e c s = Inr (g, False) \<Longrightarrow>
    claims_change e c (BClaim inp now) s (put_row e (new_row e c inp now g) s1)"
| finished: "find_row e (claim_key e inp) s = Inr (Some r) \<Longrightarrow> cr_state r = ClaimInProgress \<Longrightarrow>
    (cr_scopeHash r, cr_keyHash r) = claim_key e inp \<Longrightarrow> cr_generation r = g \<Longrightarrow>
    cr_fingerprint r = bi_fingerprint inp \<Longrightarrow> int (length (be_stringify e v)) \<le> bc_maxBytes c \<Longrightarrow>
    current_meta e c s = Inr (g, False) \<Longrightarrow>
    claims_change e c (BComplete inp v now) s
      (put_row e (r\<lparr>cr_state := ClaimCompleted, cr_completedAt := Some now, cr_response := Some (be_stringify e v),
         cr_responseBytes := int (length (be_stringify e v)), cr_reservedBytes := 0\<rparr>) s)"
| released: "find_row e (claim_key e inp) s = Inr (Some r) \<Longrightarrow> cr_state r = ClaimInProgress \<Longrightarrow>
    validate_input inp = Inr () \<Longrightarrow> current_meta e c s = Inr (g, False) \<Longrightarrow>
    claims_change e c (BAbandon inp) s
      (put_row e (r\<lparr>cr_state := ClaimReleased, cr_completedAt := None, cr_reservedBytes := 0,
         cr_operation := (case bi_operation inp of None \<Rightarrow> cr_operation r | Some s \<Rightarrow> s)\<rparr>) s)"
| wiped: "x = BCompleteRestore \<or> x = BInvalidate \<Longrightarrow> bs_claims s' = [] \<Longrightarrow> claims_change e c x s s'"

lemma gated_Inr:
  "gated e c inp body s = Inr r \<longleftrightarrow> \<not> restore_pending e c s \<and> validate_input inp = Inr () \<and>
     (\<exists>g. current_meta e c s = Inr (g, False) \<and> body g s = Inr r)"
  by (auto simp: gated_def and_then_Inr_iff split: if_splits)

lemma set_pending_claims [simp]: "bs_claims (set_pending e c g p s) = bs_claims s"
  by (simp add: set_pending_def)

lemma find_row_absent: "find_row e k s = Inr None \<longleftrightarrow> map_of (bs_claims s) k = None"
  by (auto simp: find_row_def split: option.splits sum.splits)

lemma find_row_present:
  "find_row e k s = Inr (Some r) \<longleftrightarrow> (\<exists>v. map_of (bs_claims s) k = Some v \<and> parse_row e False v = Inr r)"
  by (auto simp: find_row_def split: option.splits sum.splits)

lemma claim_body_cases:
  assumes "claim_body e c inp now g s = Inr (a, s')"
  obtains "find_row e (claim_key e inp) s = Inr None" "\<not> at_capacity c (bi_scope inp) s" "a = Fresh"
      "s' = put_row e (new_row e c inp now g) s"
  | r where "find_row e (claim_key e inp) s = Inr (Some r)" "cr_state r = ClaimReleased"
      "bi_operation inp = Some (cr_operation r)" "cr_operation r \<noteq> ''''" "a = Fresh"
      "\<not> at_capacity c (bi_scope inp) (s\<lparr>bs_claims := AList.delete (claim_key e inp) (bs_claims s)\<rparr>)"
      "s' = put_row e (new_row e c inp now g) (s\<lparr>bs_claims := AList.delete (claim_key e inp) (bs_claims s)\<rparr>)"
  | r v where "find_row e (claim_key e inp) s = Inr (Some r)" "cr_state r = ClaimCompleted" "cr_generation r = g"
      "cr_fingerprint r = bi_fingerprint inp" "parse_response e r = Inr v" "a = Replay v" "s' = s"
proof (cases "find_row e (claim_key e inp) s")
  case (Inl x)
  with assms show ?thesis by (simp add: claim_body_def)
next
  case (Inr existing)
  show ?thesis
  proof (cases existing)
    case None
    with Inr assms show ?thesis
      by (intro that(1)) (simp_all add: claim_body_def insert_claim_def split: if_splits)
  next
    case (Some r)
    with Inr assms that(2) [of r] that(3) [of r] show ?thesis
      by (cases "cr_state r") (auto simp: claim_body_def insert_claim_def and_then_Inr_iff split: if_splits)
  qed
qed

lemma complete_body_cases:
  assumes "complete_body e c inp text now g s = Inr (u, s')"
  obtains r where "find_row e (claim_key e inp) s = Inr (Some r)" "cr_state r = ClaimCompleted" "s' = s"
  | r where "find_row e (claim_key e inp) s = Inr (Some r)" "cr_state r = ClaimInProgress"
      "(cr_scopeHash r, cr_keyHash r) = claim_key e inp" "cr_generation r = g"
      "cr_fingerprint r = bi_fingerprint inp"
      "s' = put_row e (r\<lparr>cr_state := ClaimCompleted, cr_completedAt := Some now, cr_response := Some text,
         cr_responseBytes := int (length text), cr_reservedBytes := 0\<rparr>) s"
proof -
  from assms obtain r where r: "find_row e (claim_key e inp) s = Inr (Some r)"
    by (auto simp: complete_body_def and_then_Inr_iff split: option.splits)
  with assms that(1) [OF r] that(2) [OF r] show ?thesis
    by (cases "cr_state r") (simp_all add: complete_body_def split: if_splits)
qed

lemma abandon_body_cases:
  assumes "abandon_body e inp g s = Inr (u, s')"
  obtains "s' = s"
  | r where "find_row e (claim_key e inp) s = Inr (Some r)" "cr_state r = ClaimInProgress"
      "s' = put_row e (r\<lparr>cr_state := ClaimReleased, cr_completedAt := None, cr_reservedBytes := 0,
         cr_operation := (case bi_operation inp of None \<Rightarrow> cr_operation r | Some s \<Rightarrow> s)\<rparr>) s"
proof (cases "find_row e (claim_key e inp) s")
  case (Inl x)
  with assms show ?thesis by (simp add: abandon_body_def)
next
  case (Inr existing)
  show ?thesis
  proof (cases existing)
    case None
    with Inr assms that(1) show ?thesis by (simp add: abandon_body_def)
  next
    case (Some r)
    with Inr assms that(1) that(2) [of r] show ?thesis
      by (cases "cr_state r") (simp_all add: abandon_body_def split: if_splits)
  qed
qed

lemma step_claims_change: "claims_change e c x s (snd (batch_step e c x s))"
proof (cases x)
  case (BClaim inp now)
  show ?thesis
  proof (cases "batch_claim e c inp now s")
    case (Inr r)
    then obtain a s' where r: "batch_claim e c inp now s = Inr (a, s')" by (cases r) simp
    then obtain g where g: "validate_input inp = Inr ()" "current_meta e c s = Inr (g, False)"
      and body: "claim_body e c inp now g s = Inr (a, s')"
      unfolding batch_claim_def gated_Inr by blast
    from body have "claims_change e c x s s'"
    proof (rule claim_body_cases)
      assume "find_row e (claim_key e inp) s = Inr None" "\<not> at_capacity c (bi_scope inp) s"
        and s': "s' = put_row e (new_row e c inp now g) s"
      then show ?thesis unfolding BClaim s' using g by (intro claims_change.fresh)
    next
      fix r
      assume "find_row e (claim_key e inp) s = Inr (Some r)" "cr_state r = ClaimReleased"
        "bi_operation inp = Some (cr_operation r)" "cr_operation r \<noteq> ''''"
        "\<not> at_capacity c (bi_scope inp) (s\<lparr>bs_claims := AList.delete (claim_key e inp) (bs_claims s)\<rparr>)"
        and s': "s' = put_row e (new_row e c inp now g) (s\<lparr>bs_claims := AList.delete (claim_key e inp) (bs_claims s)\<rparr>)"
      then show ?thesis unfolding BClaim s' using g by (intro claims_change.again [OF _ _ _ _ refl])
    qed (simp add: claims_change.same)
    with r show ?thesis by (simp add: BClaim keep_state_def)
  qed (simp add: BClaim keep_state_def claims_change.same)
next
  case (BComplete inp v now)
  show ?thesis
  proof (cases "batch_complete e c inp v now s")
    case (Inr r)
    then obtain s' where r: "batch_complete e c inp v now s = Inr ((), s')" by (cases r) simp
    then obtain g where g: "current_meta e c s = Inr (g, False)" "int (length (be_stringify e v)) \<le> bc_maxBytes c"
      and body: "complete_body e c inp (be_stringify e v) now g s = Inr ((), s')"
      unfolding batch_complete_def gated_Inr by (auto split: if_splits)
    from body have "claims_change e c x s s'"
    proof (rule complete_body_cases)
      fix r
      assume "find_row e (claim_key e inp) s = Inr (Some r)" "cr_state r = ClaimInProgress"
        "(cr_scopeHash r, cr_keyHash r) = claim_key e inp" "cr_generation r = g"
        "cr_fingerprint r = bi_fingerprint inp"
        and s': "s' = put_row e (r\<lparr>cr_state := ClaimCompleted, cr_completedAt := Some now,
          cr_response := Some (be_stringify e v), cr_responseBytes := int (length (be_stringify e v)),
          cr_reservedBytes := 0\<rparr>) s"
      then show ?thesis unfolding BComplete s' using g by (intro claims_change.finished)
    qed (simp add: claims_change.same)
    with r show ?thesis by (simp add: BComplete keep_state_def)
  qed (simp add: BComplete keep_state_def claims_change.same)
next
  case (BAbandon inp)
  show ?thesis
  proof (cases "batch_abandon e c inp s")
    case (Inr r)
    then obtain s' where r: "batch_abandon e c inp s = Inr ((), s')" by (cases r) simp
    then obtain g where g: "validate_input inp = Inr ()" "current_meta e c s = Inr (g, False)"
      and body: "abandon_body e inp g s = Inr ((), s')"
      unfolding batch_abandon_def gated_Inr by blast
    from body have "claims_change e c x s s'"
    proof (rule abandon_body_cases)
      fix r
      assume "find_row e (claim_key e inp) s = Inr (Some r)" "cr_state r = ClaimInProgress"
        and s': "s' = put_row e (r\<lparr>cr_state := ClaimReleased, cr_completedAt := None, cr_reservedBytes := 0,
          cr_operation := (case bi_operation inp of None \<Rightarrow> cr_operation r | Some s \<Rightarrow> s)\<rparr>) s"
      then show ?thesis unfolding BAbandon s' using g by (intro claims_change.released)
    qed (simp add: claims_change.same)
    with r show ?thesis by (simp add: BAbandon keep_state_def)
  qed (simp add: BAbandon keep_state_def claims_change.same)
next
  case (BBegin reason stamp w)
  then have "bs_claims (snd (batch_step e c x s)) = bs_claims s"
    by (auto simp: begin_restore_def Let_def split: sum.splits option.splits restore_marker.splits)
  with BBegin show ?thesis by (intro claims_change.gate [of _ reason stamp w]) simp_all
qed (auto simp: complete_restore_def invalidate_def intro: claims_change.intros
    split: sum.splits option.splits restore_marker.splits)

section \<open>What is stored stays keyed and taken\<close>

definition keyed :: "batch_state \<Rightarrow> bool" where
  "keyed s \<longleftrightarrow> map_ok (bs_claims s) \<and>
     (\<forall>k v. map_of (bs_claims s) k = Some v \<longrightarrow> k = (rw_scopeHash v, rw_keyHash v))"

definition taken :: "string \<times> string \<Rightarrow> batch_state \<Rightarrow> bool" where
  "taken k s \<longleftrightarrow> (\<exists>v. map_of (bs_claims s) k = Some v \<and> rw_state v \<noteq> ''released'')"

text \<open>The operations that give a key back: abandoning it, and wiping the ledger.\<close>

fun frees :: "batch_env \<Rightarrow> string \<times> string \<Rightarrow> batch_op \<Rightarrow> bool" where
  "frees e k (BAbandon inp) \<longleftrightarrow> claim_key e inp = k"
| "frees e k BCompleteRestore \<longleftrightarrow> True"
| "frees e k BInvalidate \<longleftrightarrow> True"
| "frees e k x \<longleftrightarrow> False"

lemma parse_row_keeps:
  assumes "parse_row e legacy v = Inr r"
  shows "cr_scopeHash r = rw_scopeHash v" "cr_keyHash r = rw_keyHash v" "parse_state (rw_state v) = Some (cr_state r)"
    "cr_fingerprint r = rw_fingerprint v" "cr_generation r = rw_generation v"
  using assms by (auto simp: parse_row_def read_row_def split: option.splits if_splits)

lemma parse_state_Some: "parse_state t = Some st \<Longrightarrow> t = state_name st"
  by (auto simp: parse_state_def split: if_splits)

lemma keyed_put_row [simp]: "keyed s \<Longrightarrow> keyed (put_row e r s)"
  by (auto simp: keyed_def put_row_def table_simps write_row_def)

lemma keyed_delete [simp]: "keyed s \<Longrightarrow> keyed (s\<lparr>bs_claims := AList.delete k (bs_claims s)\<rparr>)"
  by (auto simp: keyed_def table_simps split: if_splits)

lemma claims_change_keyed: "claims_change e c x s s' \<Longrightarrow> keyed s \<Longrightarrow> keyed s'"
  by (induction rule: claims_change.induct) (simp_all, simp_all add: keyed_def)

lemma keyed_run: "keyed s \<Longrightarrow> keyed (snd (batch_run e c xs s))"
  by (induction xs arbitrary: s)
    (simp_all del: batch_run.simps(2) add: claims_change_keyed [OF step_claims_change])

lemma keyed_new [simp]: "keyed (new_batch_state e c)"
  by (simp add: keyed_def new_batch_state_def)

lemma new_row_key: "(cr_scopeHash (new_row e c inp now g), cr_keyHash (new_row e c inp now g)) = claim_key e inp"
  by (simp add: new_row_def claim_key_def)

lemma found_row:
  assumes "keyed s" "find_row e k s = Inr (Some r)"
  shows "k = (cr_scopeHash r, cr_keyHash r)"
    "\<exists>v. map_of (bs_claims s) k = Some v \<and> rw_state v = state_name (cr_state r)"
  using assms parse_row_keeps(1,2) parse_state_Some [OF parse_row_keeps(3)]
  unfolding find_row_present keyed_def by metis+

lemma taken_put_row: "taken k (put_row e r s) \<longleftrightarrow>
    (if k = (cr_scopeHash r, cr_keyHash r) then cr_state r \<noteq> ClaimReleased else taken k s)"
  by (cases "cr_state r") (auto simp: taken_def put_row_def table_simps write_row_def)

lemma taken_change:
  assumes "claims_change e c x s s'" and "keyed s" and "taken k s" and "\<not> frees e k x"
  shows "taken k s'"
  using assms
proof (induction rule: claims_change.induct)
  case (same x s)
  then show ?case by simp
next
  case (gate x reason stamp w s' s)
  then show ?case by (simp add: taken_def)
next
  case (fresh inp s g now)
  then show ?case unfolding taken_put_row new_row_key
    by (auto simp: taken_def find_row_absent new_row_def)
next
  case (again inp s r s1 g now)
  have "claim_key e inp \<noteq> k"
    using found_row(2) [OF again.prems(1) again.hyps(1)] again.hyps(2) again.prems(2) by (auto simp: taken_def)
  with again.prems(2) show ?case unfolding taken_put_row new_row_key
    by (auto simp: again.hyps(5) taken_def table_simps)
next
  case (finished inp s r g v now)
  then show ?case by (simp add: taken_put_row)
next
  case (released inp s r g)
  have "k \<noteq> (cr_scopeHash r, cr_keyHash r)"
    using found_row(1) [OF released.prems(1) released.hyps(1)] released.prems(3) by auto
  with released.prems(2) show ?case by (simp add: taken_put_row)
next
  case (wiped x s' s)
  then show ?case by auto
qed

lemma taken_run:
  assumes "keyed s" and "taken k s" and "\<forall>x \<in> set xs. \<not> frees e k x"
  shows "taken k (snd (batch_run e c xs s))"
  using assms
proof (induction xs arbitrary: s)
  case Nil
  then show ?case by simp
next
  case (Cons x xs)
  from Cons.prems(3) have "\<not> frees e k x" "\<forall>x \<in> set xs. \<not> frees e k x" by simp_all
  with taken_change [OF step_claims_change Cons.prems(1,2)] claims_change_keyed [OF step_claims_change Cons.prems(1)]
  show ?case unfolding batch_run_Cons by (intro Cons.IH) simp_all
qed

lemma fresh_means:
  assumes "fst (batch_step e c (BClaim inp now) s) = Answered (Inr Fresh)"
  shows "\<exists>g s'. validate_input inp = Inr () \<and> current_meta e c s = Inr (g, False) \<and>
    claim_body e c inp now g s = Inr (Fresh, s') \<and> snd (batch_step e c (BClaim inp now) s) = s'"
proof (cases "batch_claim e c inp now s")
  case (Inl x)
  with assms show ?thesis by (simp add: keep_state_def)
next
  case (Inr r)
  with assms obtain s' where r: "batch_claim e c inp now s = Inr (Fresh, s')"
    by (cases r) (simp add: keep_state_def)
  then show ?thesis unfolding batch_claim_def gated_Inr by (auto simp: keep_state_def batch_claim_def gated_def)
qed

lemma fresh_takes:
  assumes "fst (batch_step e c (BClaim inp now) s) = Answered (Inr Fresh)" and "keyed s"
  shows "\<not> taken (claim_key e inp) s" and "taken (claim_key e inp) (snd (batch_step e c (BClaim inp now) s))"
proof -
  from fresh_means [OF assms(1)] obtain g s' where
    body: "claim_body e c inp now g s = Inr (Fresh, s')" and s': "snd (batch_step e c (BClaim inp now) s) = s'"
    by blast
  from body have "\<not> taken (claim_key e inp) s \<and> taken (claim_key e inp) s'"
  proof (rule claim_body_cases)
    assume "find_row e (claim_key e inp) s = Inr None" and "s' = put_row e (new_row e c inp now g) s"
    then show ?thesis
      by (simp add: taken_put_row new_row_key find_row_absent) (simp add: taken_def new_row_def)
  next
    fix r
    assume "find_row e (claim_key e inp) s = Inr (Some r)" "cr_state r = ClaimReleased"
      and "s' = put_row e (new_row e c inp now g) (s\<lparr>bs_claims := AList.delete (claim_key e inp) (bs_claims s)\<rparr>)"
    with found_row(2) [OF assms(2) this(1)] have "\<not> taken (claim_key e inp) s" by (auto simp: taken_def)
    with \<open>s' = _\<close> show ?thesis by (simp add: taken_put_row new_row_key) (simp add: new_row_def)
  qed simp
  then show "\<not> taken (claim_key e inp) s" "taken (claim_key e inp) (snd (batch_step e c (BClaim inp now) s))"
    unfolding s' by simp_all
qed

section \<open>Rows the ledger wrote\<close>

text \<open>What the model relies on of SHA-256 and the HMAC: the shape of their digests.\<close>

definition env_ok :: "batch_env \<Rightarrow> bool" where
  "env_ok e \<longleftrightarrow> (\<forall>t. hex_digest 64 64 (be_sha e t)) \<and>
     (\<forall>t. 40 \<le> length (be_hmac e t) \<and> length (be_hmac e t) \<le> 128)"

definition batch_config_ok :: "batch_config \<Rightarrow> bool" where
  "batch_config_ok c \<longleftrightarrow> 0 \<le> bc_maxBytes c \<and> bc_maxBytes c \<le> max_response_bytes \<and> 1 \<le> bc_maxEntries c \<and>
     0 \<le> bc_maxTotalBytes c \<and> 0 \<le> bc_maxEntriesPerScope c"

fun state_fields_ok :: "batch_config \<Rightarrow> claim_row \<Rightarrow> claim_state \<Rightarrow> bool" where
  "state_fields_ok c r ClaimInProgress \<longleftrightarrow> cr_completedAt r = None \<and> cr_response r = None \<and>
     cr_responseBytes r = 0 \<and> cr_reservedBytes r = bc_maxBytes c"
| "state_fields_ok c r ClaimCompleted \<longleftrightarrow> (\<exists>t. cr_completedAt r = Some t \<and> is_safe t) \<and>
     (\<exists>s. cr_response r = Some s \<and> cr_responseBytes r = int (length s)) \<and>
     cr_responseBytes r \<le> bc_maxBytes c \<and> cr_reservedBytes r = 0"
| "state_fields_ok c r ClaimReleased \<longleftrightarrow> cr_completedAt r = None \<and> cr_response r = None \<and>
     cr_responseBytes r = 0 \<and> cr_reservedBytes r = 0"

definition row_ok :: "batch_config \<Rightarrow> int \<Rightarrow> claim_row \<Rightarrow> bool" where
  "row_ok c g r \<longleftrightarrow> hex_digest 64 64 (cr_scopeHash r) \<and> hex_digest 64 64 (cr_keyHash r) \<and>
     hex_digest 64 64 (cr_fingerprint r) \<and> (cr_operation r = '''' \<or> operation_name (cr_operation r)) \<and>
     0 \<le> cr_createdAt r \<and> is_safe (cr_createdAt r) \<and> cr_generation r = g \<and> 0 \<le> g \<and> is_safe g \<and>
     state_fields_ok c r (cr_state r)"

definition batch_ok :: "batch_env \<Rightarrow> batch_config \<Rightarrow> batch_state \<Rightarrow> bool" where
  "batch_ok e c s \<longleftrightarrow> keyed s \<and>
     (\<exists>g p. current_meta e c s = Inr (g, p) \<and>
       (\<forall>k v. map_of (bs_claims s) k = Some v \<longrightarrow> (\<exists>r. v = write_row e r \<and> row_ok c g r)))"

fun timely :: "batch_op \<Rightarrow> bool" where
  "timely (BClaim inp now) \<longleftrightarrow> 0 \<le> now \<and> is_safe now"
| "timely (BComplete inp v now) \<longleftrightarrow> is_safe now"
| "timely x \<longleftrightarrow> True"

text \<open>Reading a row the ledger wrote gives the claim back: the verification never refuses it.\<close>

lemma small_safe: "batch_config_ok c \<Longrightarrow> 0 \<le> n \<Longrightarrow> n \<le> bc_maxBytes c \<Longrightarrow> is_safe n"
  by (simp add: batch_config_ok_def is_safe_def max_safe_def max_response_bytes_def)

lemma record_mac_ignores_mac [simp]: "record_mac e (r\<lparr>cr_mac := m\<rparr>) legacy = record_mac e r legacy"
  by (simp add: record_mac_def mac_payload_def)

lemma parse_write_row:
  assumes "env_ok e" "batch_config_ok c" "row_ok c g r"
  shows "parse_row e False (write_row e r) = Inr (r\<lparr>cr_mac := record_mac e r False\<rparr>)"
proof -
  have safe: "is_safe (cr_responseBytes r)" "0 \<le> cr_responseBytes r" "is_safe (cr_reservedBytes r)" "0 \<le> cr_reservedBytes r"
    using assms(2,3) small_safe [OF assms(2)]
    by (cases "cr_state r"; auto simp: row_ok_def batch_config_ok_def)+
  have mac: "40 \<le> length (record_mac e r False)" "length (record_mac e r False) \<le> 128"
    using assms(1) by (simp_all add: env_ok_def record_mac_def)
  have row: "read_row (write_row e r) (cr_state r) = r\<lparr>cr_mac := record_mac e r False\<rparr>"
    by (simp add: read_row_def write_row_def)
  have "row_valid e False (r\<lparr>cr_mac := record_mac e r False\<rparr>)"
    using assms(3) safe mac by (cases "cr_state r") (auto simp: row_valid_def row_ok_def)
  moreover have "parse_state (rw_state (write_row e r)) = Some (cr_state r)" by (simp add: write_row_def)
  ultimately show ?thesis by (simp add: parse_row_def row)
qed

section \<open>The invariant\<close>

lemma row_ok_new:
  assumes "validate_input inp = Inr ()" "env_ok e" "0 \<le> now" "is_safe now" "0 \<le> g" "is_safe g"
  shows "row_ok c g (new_row e c inp now g)"
  using assms by (auto simp: row_ok_def new_row_def validate_input_def env_ok_def split: if_splits option.splits)

lemma row_ok_completed:
  assumes "row_ok c g r" "is_safe now" "int (length t) \<le> bc_maxBytes c"
  shows "row_ok c g (r\<lparr>cr_state := ClaimCompleted, cr_completedAt := Some now, cr_response := Some t,
    cr_responseBytes := int (length t), cr_reservedBytes := 0\<rparr>)"
  using assms by (simp add: row_ok_def)

lemma row_ok_released:
  assumes "row_ok c g r" "cr_state r = ClaimInProgress" "validate_input inp = Inr ()"
  shows "row_ok c g (r\<lparr>cr_state := ClaimReleased, cr_completedAt := None, cr_reservedBytes := 0,
    cr_operation := (case bi_operation inp of None \<Rightarrow> cr_operation r | Some s \<Rightarrow> s)\<rparr>)"
  using assms by (auto simp: row_ok_def validate_input_def split: option.splits if_splits)

lemma row_ok_mac [simp]: "row_ok c g (r\<lparr>cr_mac := m\<rparr>) = row_ok c g r"
  by (cases "cr_state r") (simp_all add: row_ok_def)

lemma put_row_mac [simp]: "write_row e (r\<lparr>cr_mac := m\<rparr>) = write_row e r"
  by (simp add: write_row_def)

lemma batch_ok_find:
  assumes "batch_ok e c s" "env_ok e" "batch_config_ok c" "current_meta e c s = Inr (g, p)"
    "find_row e k s = Inr (Some r)"
  shows "row_ok c g r"
proof -
  from assms(5) obtain v where v: "map_of (bs_claims s) k = Some v" "parse_row e False v = Inr r"
    unfolding find_row_present by blast
  with assms(1,4) obtain q where q: "v = write_row e q" "row_ok c g q" unfolding batch_ok_def by fastforce
  with v(2) parse_write_row [OF assms(2,3) q(2)] show ?thesis by auto
qed

lemma batch_ok_rows:
  assumes "batch_ok e c s" "env_ok e" "batch_config_ok c"
  shows "find_row e k s = (case map_of (bs_claims s) k of None \<Rightarrow> Inr None
    | Some v \<Rightarrow> Inr (Some (read_row v (the (parse_state (rw_state v))))))"
proof (cases "map_of (bs_claims s) k")
  case None
  then show ?thesis by (simp add: find_row_def)
next
  case (Some v)
  with assms(1) obtain g r where r: "v = write_row e r" "row_ok c g r" unfolding batch_ok_def by blast
  have "rw_state v = state_name (cr_state r)" by (simp add: r(1) write_row_def)
  with parse_write_row [OF assms(2,3) r(2), folded r(1)] Some show ?thesis
    by (simp add: find_row_def) (simp add: parse_row_def split: if_splits)
qed

lemma meta_put_row [simp]: "current_meta e c (put_row e r s) = current_meta e c s"
  by (simp add: current_meta_def put_row_def)

lemma meta_claims [simp]: "current_meta e c (s\<lparr>bs_claims := m\<rparr>) = current_meta e c s"
  by (simp add: current_meta_def)

lemma meta_marker [simp]: "current_meta e c (s\<lparr>bs_marker := m\<rparr>) = current_meta e c s"
  by (simp add: current_meta_def)

lemma meta_set_pending:
  assumes "current_meta e c s = Inr (g, p)" and "0 \<le> g'" "is_safe g'"
  shows "current_meta e c (set_pending e c g' q s) = Inr (g', q)"
  using assms by (auto simp: current_meta_def set_pending_def split: option.splits if_splits)

lemma current_meta_range: "current_meta e c s = Inr (g, p) \<Longrightarrow> 0 \<le> g \<and> is_safe g"
  by (auto simp: current_meta_def split: option.splits if_splits)

lemma batch_ok_put_row:
  assumes "batch_ok e c s" "current_meta e c s = Inr (g, p)" "row_ok c g r"
  shows "batch_ok e c (put_row e r s)"
proof -
  have "map_of (bs_claims (put_row e r s)) k = (if k = (cr_scopeHash r, cr_keyHash r) then Some (write_row e r)
      else map_of (bs_claims s) k)" for k
    by (simp add: put_row_def table_simps)
  with assms show ?thesis unfolding batch_ok_def by auto
qed

lemma batch_ok_delete:
  "batch_ok e c s \<Longrightarrow> batch_ok e c (s\<lparr>bs_claims := AList.delete k (bs_claims s)\<rparr>)"
  unfolding batch_ok_def by (auto simp: table_simps)

lemma batch_ok_same_claims:
  assumes "batch_ok e c s" "bs_claims s' = bs_claims s" "current_meta e c s = Inr (g, p)" "current_meta e c s' = Inr (g, q)"
  shows "batch_ok e c s'"
  using assms by (auto simp: batch_ok_def keyed_def)

text \<open>The answers of the restore operations, with the metadata they leave.\<close>

lemma begin_restore_meta:
  assumes "current_meta e c s = Inr (g, p)"
  shows "\<exists>q. current_meta e c (snd (begin_restore e c reason stamp w s)) = Inr (g, q)"
    and "bs_claims (snd (begin_restore e c reason stamp w s)) = bs_claims s"
  using assms meta_set_pending [OF assms] meta_set_pending [OF meta_set_pending [OF assms]]
    current_meta_range [OF assms]
  by (auto simp: begin_restore_def Let_def split: option.splits restore_marker.splits)

lemma invalidate_ok:
  assumes "batch_ok e c s"
  shows "batch_ok e c (snd (invalidate e c s))"
proof -
  from assms obtain g p where g: "current_meta e c s = Inr (g, p)" by (auto simp: batch_ok_def)
  show ?thesis
  proof (cases "is_safe (g + 1)")
    case True
    have "current_meta e c (set_pending e c (g + 1) False (s\<lparr>bs_claims := []\<rparr>)) = Inr (g + 1, False)"
      using meta_set_pending [of e c "s\<lparr>bs_claims := []\<rparr>" g p "g + 1"] g True current_meta_range [OF g] by simp
    with g True show ?thesis by (auto simp: invalidate_def batch_ok_def keyed_def)
  qed (use assms g in \<open>simp add: invalidate_def\<close>)
qed

lemma batch_ok_marker: "batch_ok e c s \<Longrightarrow> batch_ok e c (s\<lparr>bs_marker := m\<rparr>)"
  by (simp add: batch_ok_def keyed_def)

lemma batch_step_ok:
  assumes "batch_ok e c s" "env_ok e" "batch_config_ok c" "timely x"
  shows "batch_ok e c (snd (batch_step e c x s))"
proof -
  from assms(1) obtain g0 p0 where meta: "current_meta e c s = Inr (g0, p0)" by (auto simp: batch_ok_def)
  note range = current_meta_range [OF meta]
  note found = batch_ok_find [OF assms(1-3)]
  from step_claims_change [of e c x s] show ?thesis
  proof cases
    case same
    with assms(1) show ?thesis by simp
  next
    case (gate reason stamp w)
    then show ?thesis
      using begin_restore_meta [OF meta, of reason stamp w] batch_ok_same_claims [OF assms(1) _ meta]
        invalidate_ok [OF assms(1)] invalidate_ok [OF batch_ok_marker [OF assms(1)]] assms(1)
      by (auto simp: complete_restore_def split: option.splits restore_marker.splits)
  next
    case (fresh inp g now)
    with meta range assms(4) row_ok_new [OF fresh(5) assms(2), of now g] show ?thesis
      unfolding fresh(2) by (intro batch_ok_put_row [OF assms(1)]) auto
  next
    case (again inp r s1 g now)
    have "batch_ok e c s1" unfolding again(7) using assms(1) by (rule batch_ok_delete)
    with again meta range assms(4) row_ok_new [OF again(9) assms(2), of now g] show ?thesis
      unfolding again(2) by (intro batch_ok_put_row) auto
  next
    case (finished inp r g v now)
    have "row_ok c g r" using found [OF finished(9,3)] .
    with finished assms(4) show ?thesis unfolding finished(2)
      by (intro batch_ok_put_row [OF assms(1) finished(9)] row_ok_completed) auto
  next
    case (released inp r g)
    have "row_ok c g r" using found [OF released(6,3)] .
    with released show ?thesis unfolding released(2)
      by (intro batch_ok_put_row [OF assms(1) released(6)] row_ok_released) auto
  next
    case wiped
    then show ?thesis
      using invalidate_ok [OF assms(1)] invalidate_ok [OF batch_ok_marker [OF assms(1)]] assms(1)
      by (auto simp: complete_restore_def split: option.splits restore_marker.splits)
  qed
qed

lemma batch_run_ok:
  assumes "batch_ok e c s" "env_ok e" "batch_config_ok c" "\<forall>x \<in> set xs. timely x"
  shows "batch_ok e c (snd (batch_run e c xs s))"
  using assms by (induction xs arbitrary: s) (simp_all del: batch_run.simps(2) add: batch_step_ok)

lemma batch_ok_new: "batch_ok e c (new_batch_state e c)"
  by (auto simp: batch_ok_def keyed_def new_batch_state_def current_meta_def is_safe_def max_safe_def)

section \<open>Accounting\<close>

lemma sum_update:
  fixes f :: "'k \<Rightarrow> 'v \<Rightarrow> int"
  assumes "map_ok m"
  shows "sum_list (map (\<lambda>(k, v). f k v) (AList.update k v m)) =
    sum_list (map (\<lambda>(k, v). f k v) m) + f k v - (case map_of m k of None \<Rightarrow> 0 | Some u \<Rightarrow> f k u)"
  using assms
proof (induction m)
  case Nil
  then show ?case by simp
next
  case (Cons p m)
  obtain j u where p: "p = (j, u)" by (cases p)
  from Cons.prems have "map_ok m" by (simp add: map_ok_def)
  with Cons.IH show ?case by (auto simp: p split: option.splits)
qed

lemma sum_delete:
  fixes f :: "'k \<Rightarrow> 'v \<Rightarrow> int"
  assumes "map_ok m"
  shows "sum_list (map (\<lambda>(k, v). f k v) (AList.delete k m)) =
    sum_list (map (\<lambda>(k, v). f k v) m) - (case map_of m k of None \<Rightarrow> 0 | Some u \<Rightarrow> f k u)"
  using assms
proof (induction m)
  case Nil
  then show ?case by simp
next
  case (Cons p m)
  obtain j u where p: "p = (j, u)" by (cases p)
  from Cons.prems have ok: "map_ok m" and "map_of m j = None"
    by (simp_all add: p map_ok_def map_of_eq_None_iff)
  then have "AList.delete j m = m" by (intro delete_absent) (simp add: map_has_def)
  with Cons.IH [OF ok] show ?case by (auto simp: p \<open>map_of m j = None\<close> split: option.splits)
qed

text \<open>What a row weighs: a unit, its bytes, a unit of its scope.\<close>

definition weigh :: "(string \<times> string \<Rightarrow> raw_row \<Rightarrow> int) \<Rightarrow> string \<times> string \<Rightarrow> raw_row \<Rightarrow> int" where
  "weigh f k v = (if rw_state v = ''released'' then 0 else f k v)"

definition weight :: "(string \<times> string \<Rightarrow> raw_row \<Rightarrow> int) \<Rightarrow> batch_state \<Rightarrow> int" where
  "weight f s = sum_list (map (\<lambda>(k, v). weigh f k v) (bs_claims s))"

lemma counted_sum: "sum_list (map (\<lambda>(k, v). f k v) (counted s)) = weight f s"
proof -
  have "sum_list (map (\<lambda>(k, v). f k v) (filter (\<lambda>(k, v). rw_state v \<noteq> ''released'') m)) =
      sum_list (map (\<lambda>(k, v). weigh f k v) m)" for m
    by (induction m) (auto simp: weigh_def)
  then show ?thesis by (simp add: counted_def weight_def)
qed

lemma counted_weights:
  "int (length (counted s)) = weight (\<lambda>k v. 1) s"
  "total_bytes s = weight (\<lambda>k. row_bytes) s"
  "int (scope_count scope s) = weight (\<lambda>k v. if fst k = scope then 1 else 0) s"
proof -
  have one: "int (length xs) = sum_list (map (\<lambda>(k, v). 1) xs)" for xs :: "('k \<times> 'v) list"
    by (induction xs) auto
  show "int (length (counted s)) = weight (\<lambda>k v. 1) s"
    by (simp add: one counted_sum [of "\<lambda>k v. 1", symmetric])
  show "total_bytes s = weight (\<lambda>k. row_bytes) s"
    by (simp add: total_bytes_def counted_sum [of "\<lambda>k. row_bytes", symmetric] comp_def case_prod_unfold)
  have "int (length (filter (\<lambda>(k, v). fst k = scope) xs)) =
      sum_list (map (\<lambda>(k, v). if fst k = scope then 1 else 0) xs)" for xs :: "((string \<times> string) \<times> raw_row) list"
    by (induction xs) auto
  then show "int (scope_count scope s) = weight (\<lambda>k v. if fst k = scope then 1 else 0) s"
    by (simp add: scope_count_def counted_sum [symmetric])
qed

lemma weight_put_row:
  assumes "keyed s" "k = (cr_scopeHash r, cr_keyHash r)"
  shows "weight f (put_row e r s) = weight f s + weigh f k (write_row e r) -
    (case map_of (bs_claims s) k of None \<Rightarrow> 0 | Some u \<Rightarrow> weigh f k u)"
  using sum_update [of "bs_claims s" "weigh f" k "write_row e r"] assms
  by (simp add: weight_def put_row_def keyed_def)

lemma weight_delete:
  assumes "keyed s"
  shows "weight f (s\<lparr>bs_claims := AList.delete k (bs_claims s)\<rparr>) = weight f s -
    (case map_of (bs_claims s) k of None \<Rightarrow> 0 | Some u \<Rightarrow> weigh f k u)"
  using sum_delete [of "bs_claims s" "weigh f" k] assms by (simp add: weight_def keyed_def)

definition within_capacity :: "batch_config \<Rightarrow> batch_state \<Rightarrow> bool" where
  "within_capacity c s \<longleftrightarrow> int (length (counted s)) \<le> bc_maxEntries c \<and>
     total_bytes s \<le> bc_maxTotalBytes c \<and> (\<forall>scope. int (scope_count scope s) \<le> bc_maxEntriesPerScope c)"

text \<open>A new claim weighs one unit and its reservation; replacing a claim in progress by its completion or by
  its tombstone never adds weight.\<close>

lemma weigh_new:
  "weigh f k (write_row e (new_row e c inp now g)) = f k (write_row e (new_row e c inp now g))"
  by (simp add: weigh_def write_row_def new_row_def)

lemma capacity_insert:
  assumes "keyed s" "within_capacity c s" "\<not> at_capacity c (bi_scope inp) s" "map_of (bs_claims s) (claim_key e inp) = None"
  shows "within_capacity c (put_row e (new_row e c inp now g) s)"
proof -
  have w: "weight f (put_row e (new_row e c inp now g) s) =
      weight f s + f (claim_key e inp) (write_row e (new_row e c inp now g))" for f
    using weight_put_row [OF assms(1) new_row_key [of e c inp now g, symmetric], of f] assms(4)
    by (simp add: weigh_new)
  have bytes: "row_bytes (write_row e (new_row e c inp now g)) = bc_maxBytes c"
    by (simp add: row_bytes_def write_row_def new_row_def)
  have "fst (claim_key e inp) = bi_scope inp" by (simp add: claim_key_def)
  with assms(2,3) show ?thesis
    unfolding within_capacity_def at_capacity_def counted_weights w bytes by auto
qed

lemma capacity_replace:
  assumes "keyed s" "within_capacity c s" "map_of (bs_claims s) k = Some v" "rw_state v = ''in_progress''"
    and "k = (cr_scopeHash r, cr_keyHash r)" "row_bytes (write_row e r) \<le> row_bytes v" "0 \<le> row_bytes v"
  shows "within_capacity c (put_row e r s)"
proof -
  note w = weight_put_row [OF assms(1,5), unfolded assms(3) option.case]
  have u: "weigh f k v = f k v" for f using assms(4) by (simp add: weigh_def)
  have le: "weigh f k (write_row e r) \<le> f k v" if "f k (write_row e r) \<le> f k v" "0 \<le> f k v" for f
    using that by (simp add: weigh_def)
  show ?thesis
    using assms(2,6,7) le [of "\<lambda>k v. 1"] le [of "\<lambda>k. row_bytes"] le [of "\<lambda>k v. if fst k = _ then 1 else 0"]
    unfolding within_capacity_def counted_weights w u by (smt (verit))
qed

lemma capacity_delete_released:
  assumes "keyed s" "within_capacity c s" "map_of (bs_claims s) k = Some v" "rw_state v = ''released''"
  shows "within_capacity c (s\<lparr>bs_claims := AList.delete k (bs_claims s)\<rparr>)"
proof -
  have "weight f (s\<lparr>bs_claims := AList.delete k (bs_claims s)\<rparr>) = weight f s" for f
    using weight_delete [OF assms(1), of f k] assms(3,4) by (simp add: weigh_def)
  with assms(2) show ?thesis by (simp add: within_capacity_def counted_weights)
qed

lemma stored_claim:
  assumes "batch_ok e c s" "env_ok e" "batch_config_ok c" "find_row e k s = Inr (Some r)" "cr_state r = ClaimInProgress"
  shows "\<exists>v. map_of (bs_claims s) k = Some v \<and> rw_state v = ''in_progress'' \<and> row_bytes v = bc_maxBytes c"
proof -
  from assms(1) obtain g p where g: "current_meta e c s = Inr (g, p)" by (auto simp: batch_ok_def)
  from assms(4) obtain v where v: "map_of (bs_claims s) k = Some v" "parse_row e False v = Inr r"
    unfolding find_row_present by blast
  from assms(1) v(1) g obtain q where q: "v = write_row e q" "row_ok c g q" unfolding batch_ok_def by fastforce
  from parse_write_row [OF assms(2,3) q(2)] v(2) q(1) have "cr_state q = ClaimInProgress"
    using assms(5) by auto
  with q v(1) show ?thesis by (simp add: write_row_def row_ok_def row_bytes_def)
qed

lemma capacity_step:
  assumes "batch_ok e c s" "env_ok e" "batch_config_ok c" "within_capacity c s"
  shows "within_capacity c (snd (batch_step e c x s))"
proof -
  from assms(1) have keyed: "keyed s" by (simp add: batch_ok_def)
  note stored = stored_claim [OF assms(1-3)]
  have nonneg: "0 \<le> bc_maxBytes c" using assms(3) by (simp add: batch_config_ok_def)
  from step_claims_change [of e c x s] show ?thesis
  proof cases
    case same
    with assms(4) show ?thesis by simp
  next
    case (gate reason stamp w)
    with assms(4) show ?thesis by (simp add: within_capacity_def counted_def total_bytes_def scope_count_def)
  next
    case (fresh inp g now)
    then show ?thesis unfolding fresh(2) find_row_absent
      by (intro capacity_insert [OF keyed assms(4)])
  next
    case (again inp r s1 g now)
    from found_row(2) [OF keyed again(3)] again(4) obtain v where
      v: "map_of (bs_claims s) (claim_key e inp) = Some v" "rw_state v = ''released''" by auto
    show ?thesis unfolding again(2)
    proof (rule capacity_insert)
      show "keyed s1" using keyed again(7) by simp
      show "within_capacity c s1" unfolding again(7) by (rule capacity_delete_released [OF keyed assms(4) v])
      show "\<not> at_capacity c (bi_scope inp) s1" by (rule again(8))
      show "map_of (bs_claims s1) (claim_key e inp) = None" by (simp add: again(7) table_simps)
    qed
  next
    case (finished inp r g v now)
    from stored [OF finished(3,4)] obtain u where
      u: "map_of (bs_claims s) (claim_key e inp) = Some u" "rw_state u = ''in_progress''" "row_bytes u = bc_maxBytes c"
      by blast
    show ?thesis unfolding finished(2)
      by (rule capacity_replace [OF keyed assms(4) u(1,2)])
        (use finished u nonneg in \<open>simp_all add: row_bytes_def write_row_def\<close>)
  next
    case (released inp r g)
    from stored [OF released(3,4)] obtain u where
      u: "map_of (bs_claims s) (claim_key e inp) = Some u" "rw_state u = ''in_progress''" "row_bytes u = bc_maxBytes c"
      by blast
    have "cr_responseBytes r = 0"
      using batch_ok_find [OF assms(1-3) released(6,3)] released(4) by (simp add: row_ok_def)
    then show ?thesis unfolding released(2)
      by (intro capacity_replace [OF keyed assms(4) u(1,2)])
        (use found_row(1) [OF keyed released(3)] u nonneg in \<open>simp_all add: row_bytes_def write_row_def\<close>)
  next
    case wiped
    with assms(3) show ?thesis
      by (simp add: within_capacity_def counted_def total_bytes_def scope_count_def batch_config_ok_def)
  qed
qed

lemma capacity_run:
  assumes "batch_ok e c s" "env_ok e" "batch_config_ok c" "within_capacity c s" "\<forall>x \<in> set xs. timely x"
  shows "within_capacity c (snd (batch_run e c xs s))"
  using assms
  by (induction xs arbitrary: s) (simp_all del: batch_run.simps(2) add: batch_step_ok capacity_step)

section \<open>Completed claims stay\<close>

lemma completed_change:
  assumes "claims_change e c x s s'" and "keyed s" and "map_of (bs_claims s) k = Some v" and "rw_state v = ''completed''"
    and "x \<noteq> BCompleteRestore" "x \<noteq> BInvalidate"
  shows "map_of (bs_claims s') k = Some v"
  using assms(1)
proof cases
  case (fresh inp g now)
  with assms(3) show ?thesis unfolding fresh(2) find_row_absent
    using new_row_key [of e c inp now g] by (auto simp: put_row_def table_simps)
next
  case (again inp r s1 g now)
  with found_row(2) [OF assms(2) again(3)] assms(3,4) have "claim_key e inp \<noteq> k" by auto
  with assms(3) again(7) show ?thesis unfolding again(2)
    using new_row_key [of e c inp now g] by (auto simp: put_row_def table_simps)
next
  case (finished inp r g u now)
  with found_row(2) [OF assms(2) finished(3)] assms(3,4) have "claim_key e inp \<noteq> k" by auto
  with assms(3) finished(5) show ?thesis unfolding finished(2) by (auto simp: put_row_def table_simps)
next
  case (released inp r g)
  with found_row [OF assms(2) released(3)] assms(3,4) have "(cr_scopeHash r, cr_keyHash r) \<noteq> k" by auto
  with assms(3) show ?thesis unfolding released(2) by (auto simp: put_row_def table_simps)
qed (use assms in auto)

lemma completed_run:
  assumes "keyed s" "map_of (bs_claims s) k = Some v" "rw_state v = ''completed''"
    and "\<forall>x \<in> set xs. x \<noteq> BCompleteRestore \<and> x \<noteq> BInvalidate"
  shows "map_of (bs_claims (snd (batch_run e c xs s))) k = Some v"
  using assms
proof (induction xs arbitrary: s)
  case Nil
  then show ?case by simp
next
  case (Cons x xs)
  then have "x \<noteq> BCompleteRestore" "x \<noteq> BInvalidate" by simp_all
  with completed_change [OF step_claims_change Cons.prems(1-3)] claims_change_keyed [OF step_claims_change Cons.prems(1)]
    Cons.prems(3,4) show ?case unfolding batch_run_Cons by (intro Cons.IH) simp_all
qed

lemma completion_stored:
  assumes "keyed s" and "map_option rw_state (map_of (bs_claims s) (claim_key e inp)) = Some ''in_progress''"
    and "fst (batch_step e c (BComplete inp v now) s) = Done (Inr ())"
  shows "\<exists>q. map_of (bs_claims (snd (batch_step e c (BComplete inp v now) s))) (claim_key e inp) = Some (write_row e q) \<and>
    cr_state q = ClaimCompleted \<and> cr_response q = Some (be_stringify e v) \<and> cr_fingerprint q = bi_fingerprint inp"
proof -
  from assms(3) obtain s' where s': "batch_complete e c inp v now s = Inr ((), s')"
    by (cases "batch_complete e c inp v now s") (auto simp: keep_state_def)
  then obtain g where "complete_body e c inp (be_stringify e v) now g s = Inr ((), s')"
    unfolding batch_complete_def gated_Inr by (auto split: if_splits)
  then show ?thesis
  proof (rule complete_body_cases)
    fix r
    assume "find_row e (claim_key e inp) s = Inr (Some r)" "cr_state r = ClaimCompleted"
    with found_row(2) [OF assms(1)] assms(2) show ?thesis by fastforce
  next
    fix r
    assume r: "(cr_scopeHash r, cr_keyHash r) = claim_key e inp" "cr_fingerprint r = bi_fingerprint inp"
      and new: "s' = put_row e (r\<lparr>cr_state := ClaimCompleted, cr_completedAt := Some now,
        cr_response := Some (be_stringify e v), cr_responseBytes := int (length (be_stringify e v)),
        cr_reservedBytes := 0\<rparr>) s"
    let ?q = "r\<lparr>cr_state := ClaimCompleted, cr_completedAt := Some now,
        cr_response := Some (be_stringify e v), cr_responseBytes := int (length (be_stringify e v)),
        cr_reservedBytes := 0\<rparr>"
    have "map_of (bs_claims s') (claim_key e inp) = Some (write_row e ?q)"
      unfolding new by (simp add: put_row_def table_simps r(1))
    moreover have "snd (batch_step e c (BComplete inp v now) s) = s'" by (simp add: keep_state_def s')
    ultimately show ?thesis using r(2) by (intro exI [of _ ?q]) simp
  qed
qed

section \<open>Properties\<close>

text \<open>C20. A batch is executed at most once. After a claim was granted as fresh, whatever happens before, in
  between and concurrently to other keys, no later claim of the same scope and key is granted as
  fresh, whatever its request, unless the key was abandoned or the whole ledger was wiped.\<close>

theorem batch_executes_once:
  assumes "fst (batch_step e c (BClaim inp now) (snd (batch_run e c before (new_batch_state e c)))) = Answered (Inr Fresh)"
    and "\<forall>x \<in> set xs. \<not> frees e (claim_key e inp) x"
    and "bi_scope inp2 = bi_scope inp" "bi_key inp2 = bi_key inp"
  shows "fst (batch_step e c (BClaim inp2 t)
    (snd (batch_run e c (before @ BClaim inp now # xs) (new_batch_state e c)))) \<noteq> Answered (Inr Fresh)"
proof
  let ?s = "snd (batch_run e c before (new_batch_state e c))"
  let ?s1 = "snd (batch_step e c (BClaim inp now) ?s)"
  let ?s2 = "snd (batch_run e c xs ?s1)"
  have keyed: "keyed ?s" "keyed ?s1" "keyed ?s2"
    by (rule keyed_run keyed_new claims_change_keyed [OF step_claims_change])+
  have key: "claim_key e inp2 = claim_key e inp" using assms(3,4) by (simp add: claim_key_def)
  have "taken (claim_key e inp) ?s2"
    by (rule taken_run [OF keyed(2) fresh_takes(2) [OF assms(1) keyed(1)] assms(2)])
  moreover assume "fst (batch_step e c (BClaim inp2 t)
    (snd (batch_run e c (before @ BClaim inp now # xs) (new_batch_state e c)))) = Answered (Inr Fresh)"
  then have "fst (batch_step e c (BClaim inp2 t) ?s2) = Answered (Inr Fresh)"
    unfolding batch_run_append batch_run_Cons .
  from fresh_takes(1) [OF this keyed(3)] have "\<not> taken (claim_key e inp) ?s2" unfolding key .
  ultimately show False by simp
qed

definition sample_env :: batch_env where
  "sample_env = \<lparr>be_sha = (\<lambda>t. replicate 64 (CHR ''a'')), be_hmac = (\<lambda>t. replicate 43 (CHR ''b'')),
     be_items = (\<lambda>is. ''''), be_stringify = (\<lambda>v. ''null''), be_parse = (\<lambda>t. Some JNull)\<rparr>"

definition sample_batch_config :: batch_config where
  "sample_batch_config = \<lparr>bc_identity = ''id'', bc_maxBytes = 1024, bc_maxEntries = 2, bc_maxEntriesPerScope = 2,
     bc_maxTotalBytes = 4096\<rparr>"

definition sample_batch :: "char \<Rightarrow> batch_input" where
  "sample_batch f = \<lparr>bi_scope = replicate 64 (CHR ''0''), bi_key = ''k'', bi_fingerprint = replicate 64 f,
     bi_operation = Some ''write''\<rparr>"

lemma sample_env_ok: "env_ok sample_env" "batch_config_ok sample_batch_config"
  by (simp_all add: env_ok_def sample_env_def batch_config_ok_def sample_batch_config_def max_response_bytes_def
      hex_digest_def char_class_defs list_all_iff)

theorem batch_executes_once_witness:
  "fst (batch_step sample_env sample_batch_config (BClaim (sample_batch CHR ''2'') 9)
     (snd (batch_run sample_env sample_batch_config ([] @ BClaim (sample_batch CHR ''1'') 5 #
        [BComplete (sample_batch CHR ''1'') JNull 6]) (new_batch_state sample_env sample_batch_config)))) \<noteq> Answered (Inr Fresh)"
proof (rule batch_executes_once)
  show "fst (batch_step sample_env sample_batch_config (BClaim (sample_batch CHR ''1'') 5)
      (snd (batch_run sample_env sample_batch_config [] (new_batch_state sample_env sample_batch_config)))) = Answered (Inr Fresh)"
    by code_simp
qed (simp_all add: sample_batch_def)

text \<open>C21. A repeated batch replays its answer. Once a claim in progress is completed, then whatever else happens
  short of wiping the ledger, a later claim of the key returns exactly the stored response to the
  same request and a conflict to any other, and changes nothing. The ledger never refuses a row it
  wrote itself.\<close>

theorem batch_replays:
  assumes "env_ok e" "batch_config_ok c" "be_parse e (be_stringify e v) = Some v"
    and "\<forall>x \<in> set (before @ BComplete inp v now # xs). timely x"
    and "map_option rw_state (map_of (bs_claims (snd (batch_run e c before (new_batch_state e c)))) (claim_key e inp)) =
      Some ''in_progress''"
    and "fst (batch_step e c (BComplete inp v now) (snd (batch_run e c before (new_batch_state e c)))) = Done (Inr ())"
    and "\<forall>x \<in> set xs. x \<noteq> BCompleteRestore \<and> x \<noteq> BInvalidate"
    and "s = snd (batch_run e c (before @ BComplete inp v now # xs) (new_batch_state e c))"
    and "\<not> restore_pending e c s" "validate_input inp2 = Inr ()" "claim_key e inp2 = claim_key e inp"
  shows "batch_step e c (BClaim inp2 t) s =
    (Answered (if bi_fingerprint inp2 = bi_fingerprint inp then Inr (Replay v) else Inl CONFLICT), s)"
proof -
  let ?s0 = "snd (batch_run e c before (new_batch_state e c))"
  let ?s1 = "snd (batch_step e c (BComplete inp v now) ?s0)"
  have keyed: "keyed ?s0" "keyed ?s1" by (rule keyed_run keyed_new claims_change_keyed [OF step_claims_change])+
  have s: "s = snd (batch_run e c xs ?s1)" unfolding assms(8) batch_run_append batch_run_Cons ..
  have ok: "batch_ok e c s" unfolding assms(8)
    by (rule batch_run_ok [OF batch_ok_new assms(1,2,4)])
  from completion_stored [OF keyed(1) assms(5,6)] obtain q where
    q: "map_of (bs_claims ?s1) (claim_key e inp) = Some (write_row e q)" "cr_state q = ClaimCompleted"
      "cr_response q = Some (be_stringify e v)" "cr_fingerprint q = bi_fingerprint inp" by blast
  have stored: "map_of (bs_claims s) (claim_key e inp) = Some (write_row e q)"
    unfolding s by (rule completed_run [OF keyed(2) q(1) _ assms(7)]) (simp add: write_row_def q(2))
  from assms(9) obtain g where g: "current_meta e c s = Inr (g, False)"
    by (auto simp: restore_pending_def split: sum.splits)
  let ?r = "read_row (write_row e q) ClaimCompleted"
  have find: "find_row e (claim_key e inp) s = Inr (Some ?r)"
    using batch_ok_rows [OF ok assms(1,2), of "claim_key e inp"] stored by (simp add: write_row_def q(2) parse_state_def)
  have "row_ok c g ?r" by (rule batch_ok_find [OF ok assms(1,2) g find])
  then have gen: "cr_generation ?r = g" by (simp add: row_ok_def)
  have key: "(cr_scopeHash ?r, cr_keyHash ?r) = claim_key e inp"
    using found_row(1) [OF _ find] ok by (simp add: batch_ok_def)
  have fields: "cr_state ?r = ClaimCompleted" "cr_response ?r = Some (be_stringify e v)"
    "cr_fingerprint ?r = bi_fingerprint inp"
    by (simp_all add: read_row_def write_row_def q)
  have "claim_body e c inp2 t g s =
      (if bi_fingerprint inp2 = bi_fingerprint inp then Inr (Replay v, s) else Inl CONFLICT)"
    using find gen key fields assms(3)
    by (simp add: claim_body_def assms(11) parse_response_def eq_commute [of "bi_fingerprint inp"])
  then show ?thesis
    using assms(9,10) g by (simp add: batch_claim_def gated_def keep_state_def)
qed

theorem batch_replays_witness:
  "fst (batch_step sample_env sample_batch_config (BClaim (sample_batch CHR ''1'') 9)
     (snd (batch_run sample_env sample_batch_config ([BClaim (sample_batch CHR ''1'') 5] @
        BComplete (sample_batch CHR ''1'') JNull 6 # [BAbandon (sample_batch CHR ''1'')])
        (new_batch_state sample_env sample_batch_config)))) = Answered (Inr (Replay JNull))"
proof -
  let ?i = "sample_batch CHR ''1''"
  let ?s = "snd (batch_run sample_env sample_batch_config ([BClaim ?i 5] @ BComplete ?i JNull 6 # [BAbandon ?i])
        (new_batch_state sample_env sample_batch_config))"
  have "be_parse sample_env (be_stringify sample_env JNull) = Some JNull" by (simp add: sample_env_def)
  moreover have "\<forall>x \<in> set ([BClaim ?i 5] @ BComplete ?i JNull 6 # [BAbandon ?i]). timely x"
    by (simp add: is_safe_def max_safe_def)
  moreover have "map_option rw_state (map_of (bs_claims (snd (batch_run sample_env sample_batch_config [BClaim ?i 5]
      (new_batch_state sample_env sample_batch_config)))) (claim_key sample_env ?i)) = Some ''in_progress''" by code_simp
  moreover have "fst (batch_step sample_env sample_batch_config (BComplete ?i JNull 6)
      (snd (batch_run sample_env sample_batch_config [BClaim ?i 5]
      (new_batch_state sample_env sample_batch_config)))) = Done (Inr ())" by code_simp
  moreover have "\<not> restore_pending sample_env sample_batch_config ?s" by code_simp
  moreover have "validate_input ?i = Inr ()" by code_simp
  ultimately have "batch_step sample_env sample_batch_config (BClaim ?i 9) ?s =
      (Answered (if bi_fingerprint ?i = bi_fingerprint ?i then Inr (Replay JNull) else Inl CONFLICT), ?s)"
    by (intro batch_replays [OF sample_env_ok _ _ _ _ _ refl]) simp_all
  then show ?thesis by simp
qed

text \<open>C22. The ledger stays within its capacity. In every reachable state the claims that are not released are
  at most the configured number, in all and per scope, and the bytes they reserve or hold are at
  most the configured total.\<close>

theorem batch_capacity:
  assumes "env_ok e" "batch_config_ok c" "\<forall>x \<in> set xs. timely x"
  shows "int (length (counted (snd (batch_run e c xs (new_batch_state e c))))) \<le> bc_maxEntries c \<and>
    total_bytes (snd (batch_run e c xs (new_batch_state e c))) \<le> bc_maxTotalBytes c \<and>
    int (scope_count scope (snd (batch_run e c xs (new_batch_state e c)))) \<le> bc_maxEntriesPerScope c"
proof -
  have "within_capacity c (new_batch_state e c)"
    using assms(2) by (simp add: within_capacity_def counted_def total_bytes_def scope_count_def new_batch_state_def
        batch_config_ok_def)
  from capacity_run [OF batch_ok_new assms(1,2) this assms(3)] show ?thesis by (simp add: within_capacity_def)
qed

theorem batch_capacity_witness:
  "total_bytes (snd (batch_run sample_env sample_batch_config [BClaim (sample_batch CHR ''1'') 5,
     BComplete (sample_batch CHR ''1'') JNull 6] (new_batch_state sample_env sample_batch_config))) \<le> 4096"
  using batch_capacity [OF sample_env_ok, of "[BClaim (sample_batch CHR ''1'') 5, BComplete (sample_batch CHR ''1'') JNull 6]"]
  by (simp add: is_safe_def max_safe_def sample_batch_config_def)

text \<open>C23. The restore gate. Once a restore has begun, which is refused while any claim is in progress, every
  claim, completion and abandonment is refused as unavailable and changes nothing, until the restore
  is completed: that empties the ledger, starts a new generation and opens the gate.\<close>

theorem restore_gate:
  assumes "begin_restore e c reason stamp w s = (Inr (), s1)"
    and "\<forall>x \<in> set xs. \<exists>inp v now. x = BClaim inp now \<or> x = BComplete inp v now \<or> x = BAbandon inp"
  shows "\<not> list_ex (\<lambda>(k, v). rw_state v = ''in_progress'') (bs_claims s) \<and>
    snd (batch_run e c xs s1) = s1 \<and>
    set (fst (batch_run e c xs s1)) \<subseteq> {Answered (Inl SERVICE_UNAVAILABLE), Done (Inl SERVICE_UNAVAILABLE)} \<and>
    (\<exists>g. current_meta e c s1 = Inr (g, True) \<and>
      (is_safe (g + 1) \<longrightarrow> (\<exists>s2. complete_restore e c s1 = (Inr (), s2) \<and> bs_claims s2 = [] \<and>
        current_meta e c s2 = Inr (g + 1, False) \<and> \<not> restore_pending e c s2)))"
proof -
  from assms(1) obtain g where g: "current_meta e c s = Inr (g, False)"
    and idle: "\<not> list_ex (\<lambda>(k, v). rw_state v = ''in_progress'') (bs_claims s)"
    by (auto simp: begin_restore_def split: sum.splits if_splits)
  note range = current_meta_range [OF g]
  from assms(1) g idle have marker: "\<exists>raw. bs_marker s1 = Some (MarkerFile raw)"
    and meta: "current_meta e c s1 = Inr (g, True)"
    using meta_set_pending [OF g, of g True] range
    by (auto simp: begin_restore_def Let_def split: option.splits restore_marker.splits if_splits)
  have shut: "restore_pending e c s1" using marker by (auto simp: restore_pending_def)
  then have gated: "gated e c inp body s1 = Inl SERVICE_UNAVAILABLE" for inp and body :: "int \<Rightarrow> batch_state \<Rightarrow> 'x result"
    by (simp add: gated_def)
  have step: "snd (batch_step e c x s1) = s1 \<and>
      fst (batch_step e c x s1) \<in> {Answered (Inl SERVICE_UNAVAILABLE), Done (Inl SERVICE_UNAVAILABLE)}"
    if "\<exists>inp v now. x = BClaim inp now \<or> x = BComplete inp v now \<or> x = BAbandon inp" for x
    using that shut by (auto simp: batch_claim_def batch_complete_def batch_abandon_def gated_def keep_state_def)
  have run: "snd (batch_run e c xs s1) = s1 \<and>
    set (fst (batch_run e c xs s1)) \<subseteq> {Answered (Inl SERVICE_UNAVAILABLE), Done (Inl SERVICE_UNAVAILABLE)}"
    using assms(2)
  proof (induction xs)
    case (Cons x xs)
    then have "\<exists>inp v now. x = BClaim inp now \<or> x = BComplete inp v now \<or> x = BAbandon inp" by simp
    from step [OF this] Cons show ?case unfolding batch_run_Cons by (simp del: batch_step.simps)
  qed simp
  have "\<exists>s2. complete_restore e c s1 = (Inr (), s2) \<and> bs_claims s2 = [] \<and>
      current_meta e c s2 = Inr (g + 1, False) \<and> \<not> restore_pending e c s2" if "is_safe (g + 1)"
  proof -
    let ?t = "s1\<lparr>bs_marker := None\<rparr>"
    let ?s2 = "set_pending e c (g + 1) False (?t\<lparr>bs_claims := []\<rparr>)"
    have "current_meta e c ?t = Inr (g, True)" using meta by simp
    with that have "invalidate e c ?t = (Inr (), ?s2)" by (simp add: invalidate_def)
    moreover have "current_meta e c ?s2 = Inr (g + 1, False)"
      using meta_set_pending [of e c "?t\<lparr>bs_claims := []\<rparr>" g True "g + 1" False] meta that range by simp
    moreover have "bs_marker ?s2 = None" by (simp add: set_pending_def)
    ultimately show ?thesis using marker by (auto simp: complete_restore_def restore_pending_def)
  qed
  with idle run meta show ?thesis by blast
qed

theorem restore_gate_witness:
  "snd (batch_run sample_env sample_batch_config [BClaim (sample_batch CHR ''1'') 5]
     (snd (begin_restore sample_env sample_batch_config ForRestore ''t'' True (new_batch_state sample_env sample_batch_config)))) =
   snd (begin_restore sample_env sample_batch_config ForRestore ''t'' True (new_batch_state sample_env sample_batch_config))"
proof -
  let ?r = "begin_restore sample_env sample_batch_config ForRestore ''t'' True (new_batch_state sample_env sample_batch_config)"
  have "fst ?r = Inr ()" by code_simp
  then have "?r = (Inr (), snd ?r)" by (simp add: prod_eq_iff)
  from restore_gate [OF this, of "[BClaim (sample_batch CHR ''1'') 5]"] show ?thesis by simp
qed

section \<open>Upgrading the table\<close>

lemma migrate_fold:
  assumes "fold_res (\<lambda>t (k, v). and_then (verify_legacy e (v\<lparr>rw_operation := None\<rparr>))
      (\<lambda>r. Inr (put_row e (r\<lparr>cr_operation := ''''\<rparr>) t))) t0 es = Inr t"
    and "distinct (map fst es)" and "\<forall>(k, v) \<in> set es. k = (rw_scopeHash v, rw_keyHash v)"
  shows "case map_of es k of
      None \<Rightarrow> map_of (bs_claims t) k = map_of (bs_claims t0) k
    | Some v \<Rightarrow> (\<exists>r. verify_legacy e (v\<lparr>rw_operation := None\<rparr>) = Inr r \<and>
        map_of (bs_claims t) k = Some (write_row e (r\<lparr>cr_operation := ''''\<rparr>)))"
  using assms
proof (induction es arbitrary: t0)
  case Nil
  then show ?case by simp
next
  case (Cons p es)
  obtain j u where p: "p = (j, u)" by (cases p)
  from Cons.prems(1) obtain r where r: "verify_legacy e (u\<lparr>rw_operation := None\<rparr>) = Inr r"
    and rest: "fold_res (\<lambda>t (k, v). and_then (verify_legacy e (v\<lparr>rw_operation := None\<rparr>))
      (\<lambda>r. Inr (put_row e (r\<lparr>cr_operation := ''''\<rparr>) t))) (put_row e (r\<lparr>cr_operation := ''''\<rparr>) t0) es = Inr t"
    by (auto simp: p and_then_Inr_iff)
  have "(cr_scopeHash r, cr_keyHash r) = j"
    using r parse_row_keeps(1,2) [of e True "u\<lparr>rw_operation := None\<rparr>"]
      parse_row_keeps(1,2) [of e False "u\<lparr>rw_operation := None\<rparr>"] Cons.prems(3)
    by (fastforce simp: verify_legacy_def p split: sum.splits)
  then have put: "map_of (bs_claims (put_row e (r\<lparr>cr_operation := ''''\<rparr>) t0)) k =
      (if k = j then Some (write_row e (r\<lparr>cr_operation := ''''\<rparr>)) else map_of (bs_claims t0) k)"
    by (simp add: put_row_def table_simps)
  have IH: "case map_of es k of
      None \<Rightarrow> map_of (bs_claims t) k = map_of (bs_claims (put_row e (r\<lparr>cr_operation := ''''\<rparr>) t0)) k
    | Some v \<Rightarrow> (\<exists>r. verify_legacy e (v\<lparr>rw_operation := None\<rparr>) = Inr r \<and>
        map_of (bs_claims t) k = Some (write_row e (r\<lparr>cr_operation := ''''\<rparr>)))"
    using Cons.prems(2,3) by (intro Cons.IH [OF rest]) (simp_all add: p)
  show ?case
  proof (cases "k = j")
    case True
    with Cons.prems(2) have "map_of es k = None" by (simp add: p map_of_eq_None_iff)
    with IH True r put show ?thesis by (simp add: p)
  next
    case False
    with IH put show ?thesis by (simp add: p split: option.splits)
  qed
qed

lemma verified_row_rewritten:
  assumes "env_ok e" "verify_legacy e v = Inr r"
  shows "parse_row e False (write_row e (r\<lparr>cr_operation := ''''\<rparr>)) =
    Inr (r\<lparr>cr_operation := '''', cr_mac := record_mac e (r\<lparr>cr_operation := ''''\<rparr>) False\<rparr>)"
proof -
  have "\<exists>legacy q. row_valid e legacy q \<and> r\<lparr>cr_operation := ''''\<rparr> = q\<lparr>cr_operation := ''''\<rparr>"
  proof (cases "parse_row e True v")
    case (Inl x)
    with assms(2) have "row_valid e False r"
      by (auto simp: verify_legacy_def parse_row_def split: option.splits if_splits)
    then show ?thesis by blast
  next
    case (Inr q)
    then have "row_valid e True q" by (auto simp: parse_row_def split: option.splits if_splits)
    moreover have "r\<lparr>cr_operation := ''''\<rparr> = q\<lparr>cr_operation := ''''\<rparr>"
      using assms(2) Inr by (auto simp: verify_legacy_def)
    ultimately show ?thesis by blast
  qed
  then obtain legacy q where q: "row_valid e legacy q" "r\<lparr>cr_operation := ''''\<rparr> = q\<lparr>cr_operation := ''''\<rparr>" by blast
  let ?m = "record_mac e (r\<lparr>cr_operation := ''''\<rparr>) False"
  have mac: "40 \<le> length ?m" "length ?m \<le> 128" using assms(1) by (simp_all add: env_ok_def record_mac_def)
  have row: "read_row (write_row e (r\<lparr>cr_operation := ''''\<rparr>)) (cr_state r) = r\<lparr>cr_operation := '''', cr_mac := ?m\<rparr>"
    by (simp add: read_row_def write_row_def)
  have same: "record_mac e (r\<lparr>cr_operation := '''', cr_mac := ?m\<rparr>) False = ?m"
    by (simp add: record_mac_def mac_payload_def)
  have "row_valid e False (r\<lparr>cr_operation := '''', cr_mac := ?m\<rparr>)"
    using q(1) mac same arg_cong [OF q(2), of cr_scopeHash] arg_cong [OF q(2), of cr_keyHash]
      arg_cong [OF q(2), of cr_fingerprint] arg_cong [OF q(2), of cr_createdAt] arg_cong [OF q(2), of cr_generation]
      arg_cong [OF q(2), of cr_state] arg_cong [OF q(2), of cr_completedAt] arg_cong [OF q(2), of cr_response]
      arg_cong [OF q(2), of cr_responseBytes] arg_cong [OF q(2), of cr_reservedBytes]
    by (simp add: row_valid_def)
  moreover have "parse_state (rw_state (write_row e (r\<lparr>cr_operation := ''''\<rparr>))) = Some (cr_state r)"
    by (simp add: write_row_def)
  ultimately show ?thesis by (simp add: parse_row_def row)
qed

text \<open>The upgrade keeps every claim: each row that was there verifies, is stored under its key again, and reads
  back as the same claim without an operation.\<close>

lemma migration_keeps_claims:
  assumes "env_ok e" "keyed s" "migrate_claims e s = Inr t"
  shows "case map_of (bs_claims s) k of
      None \<Rightarrow> map_of (bs_claims t) k = None
    | Some v \<Rightarrow> (\<exists>r m. verify_legacy e (v\<lparr>rw_operation := None\<rparr>) = Inr r \<and>
        find_row e k t = Inr (Some (r\<lparr>cr_operation := '''', cr_mac := m\<rparr>)))"
proof -
  have "distinct (map fst (bs_claims s))" "\<forall>(k, v) \<in> set (bs_claims s). k = (rw_scopeHash v, rw_keyHash v)"
    using assms(2) by (auto simp: keyed_def map_ok_def)
  from migrate_fold [OF assms(3) [unfolded migrate_claims_def] this, of k] verified_row_rewritten [OF assms(1)]
  show ?thesis by (fastforce simp: find_row_present split: option.splits)
qed

section \<open>Tombstones are not counted\<close>

text \<open>With room for a single claim, the table holds as many released rows as there were keys.\<close>

definition padded :: "string \<Rightarrow> string" where
  "padded t = replicate (64 - length t) (CHR ''0'') @ t"

definition padding_env :: batch_env where
  "padding_env = \<lparr>be_sha = padded, be_hmac = (\<lambda>t. replicate 43 (CHR ''b'')), be_items = (\<lambda>is. ''''),
     be_stringify = (\<lambda>v. ''null''), be_parse = (\<lambda>t. Some JNull)\<rparr>"

definition one_claim :: batch_config where
  "one_claim = \<lparr>bc_identity = ''id'', bc_maxBytes = 1024, bc_maxEntries = 1, bc_maxEntriesPerScope = 1, bc_maxTotalBytes = 1024\<rparr>"

definition keyed_batch :: "string \<Rightarrow> batch_input" where
  "keyed_batch k = \<lparr>bi_scope = replicate 64 (CHR ''0''), bi_key = k, bi_fingerprint = replicate 64 (CHR ''1''),
     bi_operation = Some ''write''\<rparr>"

lemma tombstones_exceed_capacity:
  "length (bs_claims (snd (batch_run padding_env one_claim
     (concat (map (\<lambda>k. [BClaim (keyed_batch k) 1, BAbandon (keyed_batch k)]) [''a'', ''b'']))
     (new_batch_state padding_env one_claim)))) = 2 \<and> bc_maxEntries one_claim = 1"
  by code_simp

end
