(* ===== verification/LineDiff.thy ===== *)
theory LineDiff
  imports Prelude "HOL-Library.Sublist"
begin

text \<open>
  \<open>src/diff.ts\<close>: the line diff of two versions of a memory. The table of longest common subsequences
  is filled row by row from the end, as the code fills it; the edit script walks it; the script is
  grouped into hunks with two lines of context. Applying the hunks is defined here to state that
  they turn the old lines into the new ones.
\<close>

section \<open>The table and the edit script\<close>

datatype op_kind = Keep | Add | Remove

record diff_op =
  op_kind :: op_kind
  op_line :: string

definition max_cells :: nat where "max_cells = 4000000"
definition diff_context :: nat where "diff_context = 2"

text \<open>One row, from the row below it, and the table of all rows.\<close>

fun dp_row :: "string \<Rightarrow> string list \<Rightarrow> nat list \<Rightarrow> nat list" where
  "dp_row x [] below = [0]"
| "dp_row x (y # ys) below =
     (let right = dp_row x ys (tl below)
      in (if x = y then below ! 1 + 1 else max (below ! 0) (right ! 0)) # right)"

fun dp_table :: "string list \<Rightarrow> string list \<Rightarrow> nat list list" where
  "dp_table [] ys = [replicate (length ys + 1) 0]"
| "dp_table (x # xs) ys = (let rows = dp_table xs ys in dp_row x ys (rows ! 0) # rows)"

function lcs_walk :: "string list \<Rightarrow> string list \<Rightarrow> nat list list \<Rightarrow> nat \<Rightarrow> nat \<Rightarrow> diff_op list" where
  "lcs_walk a b dp i j =
     (if i < length a \<and> j < length b then
        (if a ! i = b ! j then \<lparr>op_kind = Keep, op_line = a ! i\<rparr> # lcs_walk a b dp (i + 1) (j + 1)
         else if dp ! (i + 1) ! j \<ge> dp ! i ! (j + 1)
         then \<lparr>op_kind = Remove, op_line = a ! i\<rparr> # lcs_walk a b dp (i + 1) j
         else \<lparr>op_kind = Add, op_line = b ! j\<rparr> # lcs_walk a b dp i (j + 1))
      else map (\<lambda>l. \<lparr>op_kind = Remove, op_line = l\<rparr>) (drop i a) @
           map (\<lambda>l. \<lparr>op_kind = Add, op_line = l\<rparr>) (drop j b))"
  by pat_completeness auto
termination by (relation "measure (\<lambda>(a, b, dp, i, j). (length a - i) + (length b - j))") auto

declare lcs_walk.simps [simp del]

definition lcs_ops :: "string list \<Rightarrow> string list \<Rightarrow> diff_op list" where
  "lcs_ops a b = lcs_walk a b (dp_table a b) 0 0"

section \<open>Hunks\<close>

record hunk =
  hk_aStart :: nat
  hk_aCount :: nat
  hk_bStart :: nat
  hk_bCount :: nat
  hk_ops :: "diff_op list"

definition is_keep :: "diff_op \<Rightarrow> bool" where
  "is_keep x \<longleftrightarrow> op_kind x = Keep"

text \<open>The length of the run of kept lines at a position.\<close>

definition keep_run :: "diff_op list \<Rightarrow> nat \<Rightarrow> nat" where
  "keep_run ops i = length (takeWhile is_keep (drop i ops))"

lemma keep_run_pos: "i < length ops \<Longrightarrow> is_keep (ops ! i) \<Longrightarrow> 0 < keep_run ops i"
  by (simp add: keep_run_def Cons_nth_drop_Suc [symmetric])

lemma keep_run_progress: "is_keep (ops ! e) \<Longrightarrow> e + keep_run ops e < length ops \<Longrightarrow> 0 < keep_run ops e \<and> e < length ops"
  using keep_run_pos [of e ops] by simp

text \<open>The end of the changed region: gaps of at most twice the context are bridged.\<close>

function expand_end :: "diff_op list \<Rightarrow> nat \<Rightarrow> nat" where
  "expand_end ops e =
     (if e < length ops then
        (if \<not> is_keep (ops ! e) then expand_end ops (e + 1)
         else
           (let run = keep_run ops e; probe = e + run in
            if probe < length ops \<and> run \<le> diff_context * 2 then expand_end ops probe else e))
      else e)"
  by pat_completeness auto
termination
  by (relation "measure (\<lambda>(ops, e). length ops - e)") (auto dest: keep_run_progress)

declare expand_end.simps [simp del]

definition a_lines :: "diff_op list \<Rightarrow> string list" where
  "a_lines ops = map op_line (filter (\<lambda>x. op_kind x \<noteq> Add) ops)"

definition b_lines :: "diff_op list \<Rightarrow> string list" where
  "b_lines ops = map op_line (filter (\<lambda>x. op_kind x \<noteq> Remove) ops)"

definition make_hunk :: "diff_op list \<Rightarrow> nat \<Rightarrow> nat \<Rightarrow> hunk" where
  "make_hunk ops start stop =
     (let body = take (stop - start) (drop start ops) in
      \<lparr>hk_aStart = length (a_lines (take start ops)) + 1, hk_aCount = length (a_lines body),
       hk_bStart = length (b_lines (take start ops)) + 1, hk_bCount = length (b_lines body),
       hk_ops = body\<rparr>)"

lemma expand_end_bounds: "e \<le> expand_end ops e \<and> (e \<le> length ops \<longrightarrow> expand_end ops e \<le> length ops)"
proof (induction ops e rule: expand_end.induct)
  case (1 ops e)
  show ?case
  proof (cases "e < length ops")
    case True
    show ?thesis
    proof (cases "is_keep (ops ! e)")
      case keep: True
      show ?thesis
      proof (cases "e + keep_run ops e < length ops \<and> keep_run ops e \<le> diff_context * 2")
        case bridge: True
        then have "expand_end ops e = expand_end ops (e + keep_run ops e)"
          using True keep by (subst expand_end.simps) (simp add: Let_def)
        moreover from 1(2) [OF True _ refl refl bridge] keep bridge
        have "e + keep_run ops e \<le> expand_end ops (e + keep_run ops e)"
          "expand_end ops (e + keep_run ops e) \<le> length ops" by simp_all
        ultimately show ?thesis by linarith
      next
        case False
        then have "expand_end ops e = e" using True keep by (subst expand_end.simps) (auto simp: Let_def)
        with True show ?thesis by simp
      qed
    next
      case False
      then have "expand_end ops e = expand_end ops (e + 1)" using True by (subst expand_end.simps) simp
      with 1(1) [OF True False] True show ?thesis by simp
    qed
  qed (simp add: expand_end.simps)
qed

lemma expand_end_change: "e < length ops \<Longrightarrow> \<not> is_keep (ops ! e) \<Longrightarrow> e < expand_end ops e"
  using expand_end_bounds [of "e + 1" ops] by (subst expand_end.simps) simp

function hunks_from :: "diff_op list \<Rightarrow> nat \<Rightarrow> hunk list" where
  "hunks_from ops idx =
     (if idx < length ops then
        (if is_keep (ops ! idx) then hunks_from ops (idx + 1)
         else
           (let e = expand_end ops idx;
                stop = min (length ops) (e + diff_context)
            in make_hunk ops (idx - diff_context) stop # hunks_from ops stop))
      else [])"
  by pat_completeness auto
termination
  by (relation "measure (\<lambda>(ops, i). length ops - i)")
    (auto dest: expand_end_change simp: min_def intro!: diff_less_mono2)

declare hunks_from.simps [simp del]

section \<open>Text\<close>

text \<open>\<open>split("\n")\<close> and the rendering of a diff.\<close>

definition split_lines :: "string \<Rightarrow> string list" where
  "split_lines s = split_on (CHR 0x0A) s"

definition op_text :: "diff_op \<Rightarrow> string" where
  "op_text x = (case op_kind x of Keep \<Rightarrow> '' '' | Remove \<Rightarrow> ''-'' | Add \<Rightarrow> ''+'') @ op_line x"

definition newline :: string where "newline = [CHR 0x0A]"

definition range_text :: "nat \<Rightarrow> nat \<Rightarrow> nat \<Rightarrow> nat \<Rightarrow> string" where
  "range_text aStart aCount bStart bCount =
     ''@@ -'' @ dec aStart @ '','' @ dec aCount @ '' +'' @ dec bStart @ '','' @ dec bCount @ '' @@''"

definition hunk_text :: "hunk \<Rightarrow> string" where
  "hunk_text h = newline @ range_text (hk_aStart h) (hk_aCount h) (hk_bStart h) (hk_bCount h) @ newline @
     join_with newline (map op_text (hk_ops h))"

definition unified_diff :: "string \<Rightarrow> string \<Rightarrow> string \<Rightarrow> string \<Rightarrow> string" where
  "unified_diff prev_text next_text from_label to_label =
     (if prev_text = next_text then ''''
      else
        (let a = split_lines prev_text; b = split_lines next_text in
         if (length a + 1) * (length b + 1) > max_cells
         then join_with newline
           ([''--- '' @ from_label, ''+++ '' @ to_label,
             range_text 1 (length a) 1 (length b) @ '' (diff omitted: content too large for line diff)''] @
            map (\<lambda>l. ''-'' @ l) a @ map (\<lambda>l. ''+'' @ l) b)
         else join_with newline [''--- '' @ from_label, ''+++ '' @ to_label] @
           concat (map hunk_text (hunks_from (lcs_ops a b) 0)) @ newline))"

section \<open>Applying a diff\<close>

text \<open>The reference: walk through the old lines, keep what lies before a hunk, check that the hunk's old
  lines are there and put its new lines in their place. \<open>pos\<close> counts the old lines consumed.\<close>

fun apply_hunks :: "hunk list \<Rightarrow> nat \<Rightarrow> string list \<Rightarrow> string list option" where
  "apply_hunks [] pos rest = Some rest"
| "apply_hunks (h # hs) pos rest =
     (let gap = hk_aStart h - 1 - pos; old = a_lines (hk_ops h) in
      if hk_aStart h < pos + 1 \<or> take (hk_aCount h) (drop gap rest) \<noteq> old then None
      else map_option (\<lambda>tail. take gap rest @ b_lines (hk_ops h) @ tail)
        (apply_hunks hs (hk_aStart h - 1 + hk_aCount h) (drop (gap + hk_aCount h) rest)))"

section \<open>The edit script\<close>

fun lcs_len :: "'a list \<Rightarrow> 'a list \<Rightarrow> nat" where
  "lcs_len [] ys = 0"
| "lcs_len xs [] = 0"
| "lcs_len (x # xs) (y # ys) =
     (if x = y then lcs_len xs ys + 1 else max (lcs_len xs (y # ys)) (lcs_len (x # xs) ys))"

lemma lcs_len_Nil [simp]: "lcs_len xs [] = 0"
  by (cases xs) simp_all

lemma lcs_len_upper:
  "subseq zs xs \<Longrightarrow> subseq zs ys \<Longrightarrow> length zs \<le> lcs_len xs ys"
proof (induction xs ys arbitrary: zs rule: lcs_len.induct)
  case (3 x xs y ys)
  show ?case
  proof (cases zs)
    case Nil
    then show ?thesis by simp
  next
    case (Cons z ws)
    show ?thesis
    proof (cases "x = y")
      case True
      show ?thesis
      proof (cases "z = x")
        case zx: True
        with 3(1) [OF True, of ws] 3(4,5) True Cons show ?thesis by (auto simp: subseq_Cons2_iff)
      next
        case False
        with 3(4,5) Cons True have "subseq zs xs" "subseq zs ys" by (auto simp: subseq_Cons2_iff split: if_splits)
        with 3(1) [OF True] True show ?thesis by fastforce
      qed
    next
      case False
      with 3(4,5) Cons have "subseq zs xs \<or> subseq zs ys" by (auto simp: subseq_Cons2_iff split: if_splits)
      with 3(2,3) [OF False] 3(4,5) False show ?thesis by (auto simp: le_max_iff_disj)
    qed
  qed
qed (auto dest: list_emb_length)

text \<open>The same script, defined on the two suffixes.\<close>

fun diff_spec :: "string list \<Rightarrow> string list \<Rightarrow> diff_op list" where
  "diff_spec [] ys = map (\<lambda>l. \<lparr>op_kind = Add, op_line = l\<rparr>) ys"
| "diff_spec xs [] = map (\<lambda>l. \<lparr>op_kind = Remove, op_line = l\<rparr>) xs"
| "diff_spec (x # xs) (y # ys) =
     (if x = y then \<lparr>op_kind = Keep, op_line = x\<rparr> # diff_spec xs ys
      else if lcs_len xs (y # ys) \<ge> lcs_len (x # xs) ys
      then \<lparr>op_kind = Remove, op_line = x\<rparr> # diff_spec xs (y # ys)
      else \<lparr>op_kind = Add, op_line = y\<rparr> # diff_spec (x # xs) ys)"

lemma diff_spec_Nil: "diff_spec xs [] = map (\<lambda>l. \<lparr>op_kind = Remove, op_line = l\<rparr>) xs"
  by (cases xs) simp_all

lemma dp_row_nth:
  assumes "\<And>j. j \<le> length ys \<Longrightarrow> below ! j = lcs_len xs (drop j ys)" and "length below = length ys + 1"
  shows "length (dp_row x ys below) = length ys + 1 \<and>
    (\<forall>j \<le> length ys. dp_row x ys below ! j = lcs_len (x # xs) (drop j ys))"
  using assms
proof (induction ys arbitrary: below)
  case Nil
  then show ?case by simp
next
  case (Cons y ys)
  obtain u us where below: "below = u # us" using Cons.prems(2) by (cases below) simp_all
  have tail: "us ! j = lcs_len xs (drop j ys)" if "j \<le> length ys" for j
    using Cons.prems(1) [of "Suc j"] that below by simp
  have IH: "length (dp_row x ys us) = length ys + 1 \<and>
      (\<forall>j \<le> length ys. dp_row x ys us ! j = lcs_len (x # xs) (drop j ys))"
    by (rule Cons.IH) (use tail Cons.prems(2) below in simp_all)
  have "u = lcs_len xs (y # ys)" "us ! 0 = lcs_len xs ys"
    using Cons.prems(1) [of 0] tail [of 0] below by simp_all
  with IH show ?case
    by (auto simp: below Let_def nth_Cons split: nat.splits)
qed

lemma dp_table_nth:
  "length (dp_table xs ys) = length xs + 1 \<and>
    (\<forall>i \<le> length xs. length (dp_table xs ys ! i) = length ys + 1 \<and>
      (\<forall>j \<le> length ys. dp_table xs ys ! i ! j = lcs_len (drop i xs) (drop j ys)))"
proof (induction xs)
  case Nil
  have "replicate (length ys + 1) (0 :: nat) ! j = 0" if "j \<le> length ys" for j
    using that by (intro nth_replicate) simp
  then show ?case by simp
next
  case (Cons x xs)
  let ?below = "dp_table xs ys ! 0"
  have below: "\<And>j. j \<le> length ys \<Longrightarrow> ?below ! j = lcs_len xs (drop j ys)" "length ?below = length ys + 1"
    using Cons.IH by simp_all
  note row = dp_row_nth [where x = x, OF below]
  show ?case
  proof (intro conjI allI impI)
    fix i
    assume "i \<le> length (x # xs)"
    then show "length (dp_table (x # xs) ys ! i) = length ys + 1"
      using row Cons.IH by (cases i) (simp_all add: Let_def)
    fix j
    assume "j \<le> length ys"
    then show "dp_table (x # xs) ys ! i ! j = lcs_len (drop i (x # xs)) (drop j ys)"
      using row Cons.IH \<open>i \<le> length (x # xs)\<close> by (cases i) (simp_all add: Let_def)
  qed (use Cons.IH in \<open>simp add: Let_def\<close>)
qed

lemma lcs_walk_spec:
  "i \<le> length a \<Longrightarrow> j \<le> length b \<Longrightarrow> lcs_walk a b (dp_table a b) i j = diff_spec (drop i a) (drop j b)"
proof (induction "(length a - i) + (length b - j)" arbitrary: i j rule: less_induct)
  case less
  show ?case
  proof (cases "i < length a \<and> j < length b")
    case True
    have a: "drop i a = a ! i # drop (i + 1) a" and b: "drop j b = b ! j # drop (j + 1) b"
      using True by (simp_all add: Cons_nth_drop_Suc)
    have dp: "dp_table a b ! (i + 1) ! j = lcs_len (drop (i + 1) a) (drop j b)"
      "dp_table a b ! i ! (j + 1) = lcs_len (drop i a) (drop (j + 1) b)"
      using dp_table_nth [of a b] True by simp_all
    have IH: "lcs_walk a b (dp_table a b) (i + 1) (j + 1) = diff_spec (drop (i + 1) a) (drop (j + 1) b)"
      "lcs_walk a b (dp_table a b) (i + 1) j = diff_spec (drop (i + 1) a) (drop j b)"
      "lcs_walk a b (dp_table a b) i (j + 1) = diff_spec (drop i a) (drop (j + 1) b)"
      by (rule less(1); use True in linarith)+
    have spec: "diff_spec (drop i a) (drop j b) =
        (if a ! i = b ! j then \<lparr>op_kind = Keep, op_line = a ! i\<rparr> # diff_spec (drop (i + 1) a) (drop (j + 1) b)
         else if lcs_len (drop (i + 1) a) (drop j b) \<ge> lcs_len (drop i a) (drop (j + 1) b)
         then \<lparr>op_kind = Remove, op_line = a ! i\<rparr> # diff_spec (drop (i + 1) a) (drop j b)
         else \<lparr>op_kind = Add, op_line = b ! j\<rparr> # diff_spec (drop i a) (drop (j + 1) b))"
      using diff_spec.simps(3) [of "a ! i" "drop (i + 1) a" "b ! j" "drop (j + 1) b"] unfolding a [symmetric] b [symmetric] .
    show ?thesis using True unfolding spec by (subst lcs_walk.simps) (simp only: dp IH if_True simp_thms)
  next
    case False
    with less.prems have "drop i a = [] \<or> drop j b = []" by auto
    with False show ?thesis by (subst lcs_walk.simps) (auto simp: diff_spec_Nil)
  qed
qed

lemma lcs_ops_spec: "lcs_ops a b = diff_spec a b"
  using lcs_walk_spec [of 0 a 0 b] by (simp add: lcs_ops_def)

lemma lines_Cons [simp]:
  "a_lines [] = []" "b_lines [] = []"
  "a_lines (x # ops) = (if op_kind x = Add then a_lines ops else op_line x # a_lines ops)"
  "b_lines (x # ops) = (if op_kind x = Remove then b_lines ops else op_line x # b_lines ops)"
  by (simp_all add: a_lines_def b_lines_def)

lemma lines_append [simp]:
  "a_lines (xs @ ys) = a_lines xs @ a_lines ys" "b_lines (xs @ ys) = b_lines xs @ b_lines ys"
  by (simp_all add: a_lines_def b_lines_def)

lemma lines_map [simp]:
  "a_lines (map (\<lambda>l. \<lparr>op_kind = Add, op_line = l\<rparr>) ls) = []"
  "b_lines (map (\<lambda>l. \<lparr>op_kind = Add, op_line = l\<rparr>) ls) = ls"
  "a_lines (map (\<lambda>l. \<lparr>op_kind = Remove, op_line = l\<rparr>) ls) = ls"
  "b_lines (map (\<lambda>l. \<lparr>op_kind = Remove, op_line = l\<rparr>) ls) = []"
  by (induction ls) simp_all

lemma diff_spec_lines: "a_lines (diff_spec a b) = a \<and> b_lines (diff_spec a b) = b"
  by (induction a b rule: diff_spec.induct) (simp_all add: comp_def)

definition kept_lines :: "diff_op list \<Rightarrow> string list" where
  "kept_lines ops = map op_line (filter is_keep ops)"

lemma diff_spec_kept: "length (kept_lines (diff_spec a b)) = lcs_len a b"
  by (induction a b rule: diff_spec.induct) (auto simp: kept_lines_def is_keep_def max_def)

lemma kept_subseq: "subseq (kept_lines ops) (a_lines ops)" "subseq (kept_lines ops) (b_lines ops)"
  by (induction ops) (auto simp: kept_lines_def is_keep_def)

section \<open>The hunks\<close>

lemma keep_run_kept: "k < keep_run ops i \<Longrightarrow> is_keep (ops ! (i + k))"
proof -
  assume k: "k < keep_run ops i"
  then have "is_keep (takeWhile is_keep (drop i ops) ! k)"
    using set_takeWhileD nth_mem unfolding keep_run_def by metis
  moreover have "takeWhile is_keep (drop i ops) ! k = drop i ops ! k"
    using k by (simp add: keep_run_def takeWhile_nth)
  moreover have "k < length (drop i ops)"
    using k length_takeWhile_le [of is_keep "drop i ops"] by (simp add: keep_run_def)
  ultimately show ?thesis by (simp add: add.commute)
qed

lemma keep_run_le: "i + keep_run ops i \<le> max i (length ops)"
  using length_takeWhile_le [of is_keep "drop i ops"] by (simp add: keep_run_def)

text \<open>After the end of a changed region, the next change is more than four lines away.\<close>

lemma expand_end_far:
  "expand_end ops e \<le> k \<Longrightarrow> k < length ops \<Longrightarrow> \<not> is_keep (ops ! k) \<Longrightarrow> expand_end ops e + 5 \<le> k"
proof (induction ops e rule: expand_end.induct)
  case (1 ops e)
  show ?case
  proof (cases "e < length ops")
    case True
    show ?thesis
    proof (cases "is_keep (ops ! e)")
      case keep: True
      show ?thesis
      proof (cases "e + keep_run ops e < length ops \<and> keep_run ops e \<le> diff_context * 2")
        case bridge: True
        then have eq: "expand_end ops e = expand_end ops (e + keep_run ops e)"
          using True keep by (subst expand_end.simps) (simp add: Let_def)
        from 1(2) [OF True _ refl refl bridge] keep 1(3-5) show ?thesis unfolding eq by simp
      next
        case False
        then have eq: "expand_end ops e = e" using True keep by (subst expand_end.simps) (auto simp: Let_def)
        have "\<not> k - e < keep_run ops e"
          using keep_run_kept [of "k - e" ops e] 1(3,5) unfolding eq by auto
        with False 1(3,4) eq keep_run_le [of e ops] True show ?thesis by (auto simp: diff_context_def)
      qed
    next
      case False
      then have eq: "expand_end ops e = expand_end ops (e + 1)" using True by (subst expand_end.simps) simp
      from 1(1) [OF True False] 1(3-5) show ?thesis unfolding eq by simp
    qed
  next
    case False
    with 1(3,4) show ?thesis by (simp add: expand_end.simps)
  qed
qed

lemma all_keep_lines: "list_all is_keep ops \<Longrightarrow> a_lines ops = b_lines ops"
  by (induction ops) (simp_all add: is_keep_def)

lemma segment_keep:
  assumes "p \<le> q" "q \<le> length ops" "\<And>i. p \<le> i \<Longrightarrow> i < q \<Longrightarrow> is_keep (ops ! i)"
  shows "list_all is_keep (take (q - p) (drop p ops))"
  using assms by (auto simp: list_all_length)

lemma hunks_apply:
  assumes "p \<le> idx" "p \<le> length ops" "\<And>i. p \<le> i \<Longrightarrow> i < idx \<Longrightarrow> i < length ops \<Longrightarrow> is_keep (ops ! i)"
    and "\<And>k. idx \<le> k \<Longrightarrow> k < length ops \<Longrightarrow> \<not> is_keep (ops ! k) \<Longrightarrow> p \<le> k - diff_context"
  shows "apply_hunks (hunks_from ops idx) (length (a_lines (take p ops))) (a_lines (drop p ops)) =
    Some (b_lines (drop p ops))"
  using assms
proof (induction ops idx arbitrary: p rule: hunks_from.induct)
  case (1 ops idx)
  show ?case
  proof (cases "idx < length ops")
    case False
    have "list_all is_keep (take (length ops - p) (drop p ops))"
      by (rule segment_keep) (use 1(3-6) False in auto)
    with False all_keep_lines show ?thesis by (simp add: hunks_from.simps)
  next
    case True
    show ?thesis
    proof (cases "is_keep (ops ! idx)")
      case keep: True
      then have "hunks_from ops idx = hunks_from ops (idx + 1)" using True by (subst hunks_from.simps) simp
      moreover have "apply_hunks (hunks_from ops (idx + 1)) (length (a_lines (take p ops))) (a_lines (drop p ops)) =
          Some (b_lines (drop p ops))"
        by (rule 1(1) [OF True keep]) (use 1(3-6) keep in \<open>auto simp: less_Suc_eq\<close>)
      ultimately show ?thesis by simp
    next
      case change: False
      let ?e = "expand_end ops idx"
      let ?start = "idx - diff_context"
      let ?stop = "min (length ops) (?e + diff_context)"
      let ?seg = "take (?start - p) (drop p ops)"
      let ?body = "take (?stop - ?start) (drop ?start ops)"
      have bounds: "idx < ?e" "?e \<le> length ops"
        using expand_end_change [OF True change] expand_end_bounds [of idx ops] True by simp_all
      have p: "p \<le> ?start" using 1(6) [of idx] True change by simp
      have order: "?start \<le> ?stop" "?stop \<le> length ops" using bounds by linarith+
      have split: "drop p ops = ?seg @ ?body @ drop ?stop ops"
        using p order by (metis append_take_drop_id drop_drop le_add_diff_inverse2)
      have keep: "a_lines ?seg = b_lines ?seg"
        by (rule all_keep_lines [OF segment_keep]) (use p 1(5) True in \<open>auto simp: diff_context_def\<close>)
      have take_start: "take ?start ops = take p ops @ ?seg"
        using p by (metis le_add_diff_inverse take_add)
      have take_stop: "take ?stop ops = take p ops @ ?seg @ ?body"
        using order p by (metis append_assoc le_add_diff_inverse take_add take_start)
      have IH: "apply_hunks (hunks_from ops ?stop) (length (a_lines (take ?stop ops))) (a_lines (drop ?stop ops)) =
          Some (b_lines (drop ?stop ops))"
      proof (rule 1(2) [OF True change refl refl])
        show "?stop \<le> ?stop" "?stop \<le> length ops" by simp_all
        show "\<And>i. ?stop \<le> i \<Longrightarrow> i < ?stop \<Longrightarrow> i < length ops \<Longrightarrow> is_keep (ops ! i)" by simp
        fix k
        assume k: "?stop \<le> k" "k < length ops" "\<not> is_keep (ops ! k)"
        then have "?e \<le> k" by simp
        from expand_end_far [OF this k(2,3)] k(1,2) show "?stop \<le> k - diff_context"
          by (simp add: diff_context_def)
      qed
      have hunks: "hunks_from ops idx = make_hunk ops ?start ?stop # hunks_from ops ?stop"
        using True change by (subst hunks_from.simps) (simp add: Let_def)
      have fields: "hk_aStart (make_hunk ops ?start ?stop) = length (a_lines (take p ops)) + length (a_lines ?seg) + 1"
        "hk_aCount (make_hunk ops ?start ?stop) = length (a_lines ?body)"
        "hk_ops (make_hunk ops ?start ?stop) = ?body"
        by (simp_all only: make_hunk_def Let_def hunk.simps take_start lines_append length_append)
      have next_pos: "length (a_lines (take p ops)) + length (a_lines ?seg) + length (a_lines ?body) =
          length (a_lines (take ?stop ops))"
        by (simp only: take_stop lines_append length_append)
      have "apply_hunks (hunks_from ops idx) (length (a_lines (take p ops)))
          (a_lines ?seg @ a_lines ?body @ a_lines (drop ?stop ops)) =
        Some (b_lines ?seg @ b_lines ?body @ b_lines (drop ?stop ops))"
        unfolding hunks apply_hunks.simps fields Let_def
        using IH next_pos keep by (simp del: min_def drop_drop)
      then show ?thesis by (metis split lines_append)
    qed
  qed
qed

section \<open>Properties\<close>

text \<open>C24. The edit script is right and minimal. Its kept and removed lines are exactly the old lines in
  order, its kept and added lines exactly the new ones, and no common subsequence of the two texts
  is longer than the lines it keeps.\<close>

theorem edit_script_minimal:
  "a_lines (lcs_ops a b) = a \<and> b_lines (lcs_ops a b) = b \<and>
    subseq (kept_lines (lcs_ops a b)) a \<and> subseq (kept_lines (lcs_ops a b)) b \<and>
    (subseq zs a \<and> subseq zs b \<longrightarrow> length zs \<le> length (kept_lines (lcs_ops a b)))"
proof -
  note lines = diff_spec_lines [of a b]
  have "subseq (kept_lines (diff_spec a b)) a" "subseq (kept_lines (diff_spec a b)) b"
    using kept_subseq [of "diff_spec a b"] lines by simp_all
  with lines lcs_len_upper [of zs a b] show ?thesis by (simp add: lcs_ops_spec diff_spec_kept)
qed

theorem edit_script_minimal_witness:
  "length [''x'', ''z''] \<le> length (kept_lines (lcs_ops [''x'', ''y'', ''z''] [''x'', ''z'']))"
  using edit_script_minimal [of "[''x'', ''y'', ''z'']" "[''x'', ''z'']" "[''x'', ''z'']"] by simp

text \<open>C25. The hunks of a diff turn the old lines into the new ones. Applied to the old lines, every hunk finds
  its old lines at its recorded position and count, the hunks do not overlap, and the result is
  exactly the new lines.\<close>

theorem hunks_patch:
  "apply_hunks (hunks_from (lcs_ops a b) 0) 0 a = Some b"
proof -
  have "apply_hunks (hunks_from (lcs_ops a b) 0) (length (a_lines (take 0 (lcs_ops a b))))
      (a_lines (drop 0 (lcs_ops a b))) = Some (b_lines (drop 0 (lcs_ops a b)))"
    by (rule hunks_apply) simp_all
  then show ?thesis using diff_spec_lines [of a b] by (simp add: lcs_ops_spec)
qed

end
