(* ===== verification/ContextBudget.thy ===== *)
theory ContextBudget
  imports Errors Complex_Main "HOL-Library.Sublist"
begin

text \<open>
  \<open>src/context.ts\<close>: the selection of ranked memories for a context window and the fallback token counter.
  A token counter is any function from a text to a number, \<open>None\<close> where that is not finite; the fallback
  counts a text given as its Unicode code points. The input schema (a Zod object) is not modelled.
\<close>

definition max_context_tokens :: nat where "max_context_tokens = 100000"
definition max_context_candidates :: nat where "max_context_candidates = 100"
definition default_context_tokens :: nat where "default_context_tokens = 4000"

record context_memory =
  cm_id :: string
  cm_type :: string
  cm_scope :: string
  cm_trust :: string
  cm_content :: string

section \<open>The fallback counter\<close>

definition is_cjk :: "nat \<Rightarrow> bool" where
  "is_cjk code \<longleftrightarrow> 0x3400 \<le> code \<and> code \<le> 0x4dbf \<or> 0x4e00 \<le> code \<and> code \<le> 0x9fff \<or>
     0xf900 \<le> code \<and> code \<le> 0xfaff \<or> 0x20000 \<le> code \<and> code \<le> 0x2ffff"

definition default_token_count :: "nat list \<Rightarrow> nat" where
  "default_token_count codes =
     (if codes = [] then 0
      else
        (let cjk = length (filter is_cjk codes)
         in nat (max 1 \<lceil>rat_of_nat cjk + rat_of_nat (length codes - cjk) / 4\<rceil>)))"

section \<open>Selection\<close>

definition upper_char :: "char \<Rightarrow> char" where
  "upper_char c = (if is_lower c then char_of (code_of c - 32) else c)"

definition render_memory :: "context_memory \<Rightarrow> string" where
  "render_memory m =
     ''['' @ cm_id m @ ''] '' @ map upper_char (cm_type m) @ '' (scope: '' @ cm_scope m @ '', trust: '' @
     cm_trust m @ '')'' @ [CHR 0x0A] @ cm_content m"

record selection =
  sl_memories :: "context_memory list"
  sl_context :: string
  sl_omitted :: nat

record context_result =
  cx_memories :: "context_memory list"
  cx_context :: string
  cx_tokenCount :: rat
  cx_omittedCount :: nat

definition checked_count :: "(string \<Rightarrow> rat option) \<Rightarrow> string \<Rightarrow> thrown + rat" where
  "checked_count counter text =
     (case counter text of
        None \<Rightarrow> Inl (JsError ''Error'' ''token counter returned an invalid count'')
      | Some q \<Rightarrow> if q < 0 then Inl (JsError ''Error'' ''token counter returned an invalid count'') else Inr q)"

definition extend_context :: "string \<Rightarrow> string \<Rightarrow> string" where
  "extend_context ctx rendered = (if ctx \<noteq> '''' then ctx @ [CHR 0x0A, CHR 0x0A] @ rendered else rendered)"

definition select_step ::
  "(string \<Rightarrow> rat option) \<Rightarrow> rat \<Rightarrow> selection \<Rightarrow> context_memory \<Rightarrow> thrown + selection" where
  "select_step counter maxTokens s m =
     (let next_text = extend_context (sl_context s) (render_memory m)
      in and_then (checked_count counter next_text) (\<lambda>n.
        Inr (if n > maxTokens then s\<lparr>sl_omitted := sl_omitted s + 1\<rparr>
             else s\<lparr>sl_memories := sl_memories s @ [m], sl_context := next_text\<rparr>)))"

definition select_context ::
  "context_memory list \<Rightarrow> rat \<Rightarrow> (string \<Rightarrow> rat option) \<Rightarrow> thrown + context_result" where
  "select_context ranked maxTokens counter =
     (if of_int \<lfloor>maxTokens\<rfloor> \<noteq> maxTokens \<or> maxTokens < 1
      then Inl (Remembra INVALID_INPUT ''maxTokens must be a positive integer'')
      else
        and_then (fold_res (select_step counter maxTokens)
            \<lparr>sl_memories = [], sl_context = '''', sl_omitted = 0\<rparr> ranked) (\<lambda>s.
        and_then (if sl_context s \<noteq> '''' then checked_count counter (sl_context s) else Inr 0) (\<lambda>n.
          Inr \<lparr>cx_memories = sl_memories s, cx_context = sl_context s, cx_tokenCount = n,
               cx_omittedCount = sl_omitted s\<rparr>)))"

section \<open>Facts\<close>

definition context_of :: "context_memory list \<Rightarrow> string" where
  "context_of ms = join_with [CHR 0x0A, CHR 0x0A] (map render_memory ms)"

lemma render_not_empty [simp]: "render_memory m \<noteq> ''''"
  by (simp add: render_memory_def)

lemma join_with_snoc: "xs \<noteq> [] \<Longrightarrow> join_with sep (xs @ [x]) = join_with sep xs @ sep @ x"
proof (induction sep xs rule: join_with.induct)
  case (3 sep s t ts)
  then show ?case by simp
qed simp_all

lemma context_of_empty: "context_of ms = '''' \<longleftrightarrow> ms = []"
proof (cases ms)
  case (Cons m rest)
  then show ?thesis by (cases rest) (simp_all add: context_of_def)
qed (simp add: context_of_def)

lemma context_of_snoc: "context_of (ms @ [m]) = extend_context (context_of ms) (render_memory m)"
proof (cases "ms = []")
  case False
  then have "context_of ms \<noteq> ''''" by (simp add: context_of_empty)
  with False show ?thesis by (simp add: extend_context_def) (simp add: context_of_def join_with_snoc)
qed (simp add: extend_context_def context_of_def)

text \<open>What the loop keeps: the context is that of the selected memories, it fits, and the selected ones are the
  ranked ones seen so far without the omitted.\<close>

definition selection_ok :: "(string \<Rightarrow> rat option) \<Rightarrow> rat \<Rightarrow> context_memory list \<Rightarrow> selection \<Rightarrow> bool" where
  "selection_ok counter maxTokens seen s \<longleftrightarrow> sl_context s = context_of (sl_memories s) \<and>
     subseq (sl_memories s) seen \<and> length (sl_memories s) + sl_omitted s = length seen \<and>
     (sl_memories s \<noteq> [] \<longrightarrow> (\<exists>n. checked_count counter (sl_context s) = Inr n \<and> n \<le> maxTokens))"

lemma select_step_ok:
  assumes "selection_ok counter maxTokens seen s" "select_step counter maxTokens s m = Inr t"
  shows "selection_ok counter maxTokens (seen @ [m]) t"
proof -
  from assms(2) obtain n where n: "checked_count counter (extend_context (sl_context s) (render_memory m)) = Inr n"
    and t: "t = (if n > maxTokens then s\<lparr>sl_omitted := sl_omitted s + 1\<rparr>
      else s\<lparr>sl_memories := sl_memories s @ [m], sl_context := extend_context (sl_context s) (render_memory m)\<rparr>)"
    by (auto simp: select_step_def Let_def and_then_Inr_iff)
  have "subseq (sl_memories s) (seen @ [m])" "subseq (sl_memories s @ [m]) (seen @ [m])"
    using assms(1) by (auto simp: selection_ok_def intro: list_emb_append2 subseq_rev_drop_many)
  then show ?thesis
    using assms(1) n by (auto simp: t selection_ok_def context_of_snoc)
qed

lemma select_fold_ok:
  assumes "fold_res (select_step counter maxTokens) s ranked = Inr t" "selection_ok counter maxTokens seen s"
  shows "selection_ok counter maxTokens (seen @ ranked) t"
  using assms
proof (induction ranked arbitrary: s seen)
  case Nil
  then show ?case by simp
next
  case (Cons m ms)
  from Cons.prems(1) obtain u where "select_step counter maxTokens s m = Inr u"
    and rest: "fold_res (select_step counter maxTokens) u ms = Inr t" by (auto simp: and_then_Inr_iff)
  from Cons.IH [OF rest select_step_ok [OF Cons.prems(2) this(1)]] show ?case by simp
qed

text \<open>C26. The context never exceeds its budget. Whatever the token counter, a selection that returns holds a
  context of at most the requested tokens, measured by that counter on the whole text; it is exactly
  the rendering of the selected memories, which keep their rank order, and every candidate is either
  selected or counted as omitted.\<close>

theorem context_within_budget:
  assumes "select_context ranked maxTokens counter = Inr r"
  shows "cx_tokenCount r \<le> maxTokens \<and> 0 \<le> cx_tokenCount r \<and>
    (cx_memories r \<noteq> [] \<longrightarrow> counter (cx_context r) = Some (cx_tokenCount r)) \<and>
    cx_context r = context_of (cx_memories r) \<and> subseq (cx_memories r) ranked \<and>
    length (cx_memories r) + cx_omittedCount r = length ranked"
proof -
  from assms obtain s n where fold: "fold_res (select_step counter maxTokens)
      \<lparr>sl_memories = [], sl_context = '''', sl_omitted = 0\<rparr> ranked = Inr s"
    and n: "(if sl_context s \<noteq> '''' then checked_count counter (sl_context s) else Inr 0) = Inr n"
    and r: "r = \<lparr>cx_memories = sl_memories s, cx_context = sl_context s, cx_tokenCount = n, cx_omittedCount = sl_omitted s\<rparr>"
    and one: "1 \<le> maxTokens"
    by (auto simp: select_context_def and_then_Inr_iff split: if_splits)
  have "selection_ok counter maxTokens [] \<lparr>sl_memories = [], sl_context = '''', sl_omitted = 0\<rparr>"
    by (simp add: selection_ok_def context_of_def)
  from select_fold_ok [OF fold this] have ok: "selection_ok counter maxTokens ranked s" by simp
  then have ctx: "sl_context s = '''' \<longleftrightarrow> sl_memories s = []"
    by (simp add: selection_ok_def context_of_empty)
  have "n \<le> maxTokens \<and> 0 \<le> n \<and> (sl_memories s \<noteq> [] \<longrightarrow> counter (sl_context s) = Some n)"
  proof (cases "sl_memories s = []")
    case True
    with n ctx one show ?thesis by simp
  next
    case False
    with n ctx have count: "checked_count counter (sl_context s) = Inr n" by simp
    with False ok have "n \<le> maxTokens" by (auto simp: selection_ok_def)
    with count show ?thesis by (auto simp: checked_count_def split: option.splits if_splits)
  qed
  with ok show ?thesis by (simp add: r selection_ok_def)
qed

definition sample_memory :: "string \<Rightarrow> context_memory" where
  "sample_memory t = \<lparr>cm_id = ''m1'', cm_type = ''fact'', cm_scope = ''a'', cm_trust = ''high'', cm_content = t\<rparr>"

theorem context_within_budget_witness:
  "\<exists>r. select_context [sample_memory ''hello'', sample_memory ''world''] 50 (\<lambda>t. Some (of_nat (length t))) = Inr r \<and>
     cx_tokenCount r \<le> 50"
proof -
  let ?r = "select_context [sample_memory ''hello'', sample_memory ''world''] 50 (\<lambda>t. Some (of_nat (length t)))"
  obtain r where "?r = Inr r"
    by (simp add: select_context_def select_step_def checked_count_def extend_context_def render_memory_def
        sample_memory_def and_then_def)
  with context_within_budget [OF this] show ?thesis by blast
qed

text \<open>The fallback counter: nothing for an empty text, at least one token otherwise, never more than one per code
  point.\<close>

lemma default_token_count_bounds:
  "default_token_count [] = 0"
  "codes \<noteq> [] \<Longrightarrow> 1 \<le> default_token_count codes \<and> default_token_count codes \<le> length codes"
proof -
  show "default_token_count [] = 0" by (simp add: default_token_count_def)
  assume ne: "codes \<noteq> []"
  let ?c = "length (filter is_cjk codes)"
  have le: "?c \<le> length codes" by simp
  have "\<lceil>rat_of_nat ?c + rat_of_nat (length codes - ?c) / 4\<rceil> \<le> int (length codes)"
    using le by (simp add: ceiling_le_iff of_nat_diff field_simps)
  moreover have "1 \<le> int (length codes)" using ne by (cases codes) simp_all
  moreover have "1 \<le> nat (max 1 x) \<and> nat (max 1 x) \<le> length codes" if "x \<le> int (length codes)" "1 \<le> int (length codes)" for x
    using that by linarith
  ultimately show "1 \<le> default_token_count codes \<and> default_token_count codes \<le> length codes"
    using ne unfolding default_token_count_def Let_def by presburger
qed

end
