(* ===== verification/JobQueue.thy ===== *)
theory JobQueue
  imports Errors Complex_Main "HOL-Library.Multiset"
begin

text \<open>
  \<open>src/job-queue.ts\<close>: the bounded in-process work queue. A job is an object, so it has a serial number of
  its own besides the id the host chose. What a handler does is an event: it resolves, it throws, a
  retry pause ends, and the continuation that follows a settled execution removes the job and pumps
  again. A callback of the host that fails is caught by the code and not modelled, nor are metrics
  and log lines.
\<close>

section \<open>State\<close>

datatype job_phase = Handling | RetryPause | Finished

datatype final_state = JCompleted | JFailed | JCancelled

record queue_job =
  qj_serial :: nat
  qj_id :: string
  qj_type :: string
  qj_attempts :: nat
  qj_aborted :: bool
  qj_phase :: job_phase

record settlement =
  se_serial :: nat
  se_id :: string
  se_state :: final_state
  se_attempts :: nat

record queue_config =
  qc_concurrency :: nat
  qc_maxQueue :: nat
  qc_maxAttempts :: nat
  qc_retryDelayMs :: rat

record job_queue =
  jq_closed :: bool
  jq_handlers :: "string list"
  jq_queue :: "queue_job list"
  jq_running :: "queue_job list"
  jq_settled :: "settlement list"
  jq_waiting :: nat
  jq_released :: nat
  jq_next :: nat

text \<open>A number that is not finite is \<open>None\<close>.\<close>

definition positive_integer :: "rat option \<Rightarrow> nat result" where
  "positive_integer v =
     (case v of
        None \<Rightarrow> Inl INVALID_INPUT
      | Some q \<Rightarrow> if of_int \<lfloor>q\<rfloor> \<noteq> q \<or> q \<le> 0 then Inl INVALID_INPUT else Inr (nat \<lfloor>q\<rfloor>))"

definition non_negative_number :: "rat option \<Rightarrow> rat result" where
  "non_negative_number v =
     (case v of None \<Rightarrow> Inl INVALID_INPUT | Some q \<Rightarrow> if q < 0 then Inl INVALID_INPUT else Inr q)"

definition given_or :: "rat \<Rightarrow> rat option option \<Rightarrow> rat option" where
  "given_or d v = (case v of None \<Rightarrow> Some d | Some x \<Rightarrow> x)"

definition new_queue_config ::
  "rat option option \<Rightarrow> rat option option \<Rightarrow> rat option option \<Rightarrow> rat option option \<Rightarrow> queue_config result" where
  "new_queue_config conc max_queue max_attempts delay =
     and_then (positive_integer (given_or 2 conc)) (\<lambda>c.
     and_then (positive_integer (given_or 100 max_queue)) (\<lambda>q.
     and_then (positive_integer (given_or 3 max_attempts)) (\<lambda>a.
     and_then (non_negative_number (given_or 0 delay)) (\<lambda>d.
       Inr \<lparr>qc_concurrency = c, qc_maxQueue = q, qc_maxAttempts = a, qc_retryDelayMs = d\<rparr>))))"

definition new_job_queue :: job_queue where
  "new_job_queue = \<lparr>jq_closed = False, jq_handlers = [], jq_queue = [], jq_running = [], jq_settled = [],
     jq_waiting = 0, jq_released = 0, jq_next = 0\<rparr>"

definition known_job_types :: "string list" where
  "known_job_types = [''embed-memory'', ''reindex-memory'', ''consolidate-memory'', ''validate-memory'',
     ''archive-memory'', ''maintenance'']"

definition job_type_label :: "string \<Rightarrow> string" where
  "job_type_label t = (if t \<in> set known_job_types then t else ''other'')"

section \<open>Operations\<close>

definition notify_drain :: "job_queue \<Rightarrow> job_queue" where
  "notify_drain s =
     (if jq_queue s \<noteq> [] \<or> jq_running s \<noteq> [] then s
      else s\<lparr>jq_released := jq_released s + jq_waiting s, jq_waiting := 0\<rparr>)"

text \<open>Starting an execution: the first attempt, whose handler is called at once.\<close>

definition start_job :: "queue_job \<Rightarrow> queue_job" where
  "start_job j = j\<lparr>qj_attempts := 1, qj_phase := Handling\<rparr>"

function pump_jobs :: "queue_config \<Rightarrow> job_queue \<Rightarrow> job_queue" where
  "pump_jobs c s =
     (if \<not> jq_closed s \<and> length (jq_running s) < qc_concurrency c \<and> jq_queue s \<noteq> []
      then pump_jobs c (s\<lparr>jq_queue := tl (jq_queue s), jq_running := jq_running s @ [start_job (hd (jq_queue s))]\<rparr>)
      else s)"
  by pat_completeness auto
termination by (relation "measure (\<lambda>(c, s). length (jq_queue s))") auto

declare pump_jobs.simps [simp del]

definition pump :: "queue_config \<Rightarrow> job_queue \<Rightarrow> job_queue" where
  "pump c s = notify_drain (pump_jobs c s)"

definition register_type :: "string \<Rightarrow> job_queue \<Rightarrow> job_queue result" where
  "register_type t s =
     (if jq_closed s then Inl QUEUE_CLOSED
      else if t \<in> set (jq_handlers s) then Inl INVALID_INPUT
      else Inr (s\<lparr>jq_handlers := jq_handlers s @ [t]\<rparr>))"

definition enqueue_job :: "queue_config \<Rightarrow> string \<Rightarrow> string \<Rightarrow> job_queue \<Rightarrow> job_queue result" where
  "enqueue_job c t jid s =
     (if jq_closed s then Inl QUEUE_CLOSED
      else if t \<notin> set (jq_handlers s) then Inl SERVICE_UNAVAILABLE
      else if length (jq_queue s) \<ge> qc_maxQueue c then Inl QUEUE_FULL
      else Inr (pump c (s\<lparr>jq_queue := jq_queue s @ [\<lparr>qj_serial = jq_next s, qj_id = jid, qj_type = t,
             qj_attempts = 0, qj_aborted = False, qj_phase = Handling\<rparr>], jq_next := jq_next s + 1\<rparr>)))"

definition settlement_of :: "final_state \<Rightarrow> queue_job \<Rightarrow> settlement" where
  "settlement_of st j = \<lparr>se_serial = qj_serial j, se_id = qj_id j, se_state = st, se_attempts = qj_attempts j\<rparr>"

definition update_job :: "nat \<Rightarrow> (queue_job \<Rightarrow> queue_job) \<Rightarrow> job_queue \<Rightarrow> job_queue" where
  "update_job n f s = s\<lparr>jq_running := map (\<lambda>j. if qj_serial j = n then f j else j) (jq_running s)\<rparr>"

text \<open>Settling a running job; its execution returns.\<close>

definition settle_job :: "final_state \<Rightarrow> queue_job \<Rightarrow> job_queue \<Rightarrow> job_queue" where
  "settle_job st j s = update_job (qj_serial j) (\<lambda>j. j\<lparr>qj_phase := Finished\<rparr>)
     (s\<lparr>jq_settled := jq_settled s @ [settlement_of st j]\<rparr>)"

definition running_in :: "job_phase \<Rightarrow> nat \<Rightarrow> job_queue \<Rightarrow> queue_job option" where
  "running_in p n s = find (\<lambda>j. qj_serial j = n \<and> qj_phase j = p) (jq_running s)"

definition handler_resolves :: "nat \<Rightarrow> job_queue \<Rightarrow> job_queue" where
  "handler_resolves n s =
     (case running_in Handling n s of
        None \<Rightarrow> s
      | Some j \<Rightarrow> settle_job (if qj_aborted j then JCancelled else JCompleted) j s)"

definition handler_throws :: "queue_config \<Rightarrow> nat \<Rightarrow> job_queue \<Rightarrow> job_queue" where
  "handler_throws c n s =
     (case running_in Handling n s of
        None \<Rightarrow> s
      | Some j \<Rightarrow>
          if qj_aborted j then settle_job JCancelled j s
          else if qj_attempts j \<ge> qc_maxAttempts c then settle_job JFailed j s
          else update_job n (\<lambda>j. j\<lparr>qj_phase := RetryPause\<rparr>) s)"

text \<open>The pause before a retry ends, by its timer or by an abort.\<close>

definition retry_pause_over :: "nat \<Rightarrow> job_queue \<Rightarrow> job_queue" where
  "retry_pause_over n s =
     (case running_in RetryPause n s of
        None \<Rightarrow> s
      | Some j \<Rightarrow>
          if qj_aborted j then settle_job JCancelled j s
          else update_job n (\<lambda>j. j\<lparr>qj_attempts := qj_attempts j + 1, qj_phase := Handling\<rparr>) s)"

text \<open>The continuation after the execution has returned.\<close>

definition after_execute :: "queue_config \<Rightarrow> nat \<Rightarrow> job_queue \<Rightarrow> job_queue" where
  "after_execute c n s =
     (case running_in Finished n s of
        None \<Rightarrow> s
      | Some j \<Rightarrow>
          (let s = notify_drain (s\<lparr>jq_running := filter (\<lambda>j. qj_serial j \<noteq> n) (jq_running s)\<rparr>)
           in if jq_closed s then s else pump c s))"

definition drain_jobs :: "job_queue \<Rightarrow> job_queue" where
  "drain_jobs s =
     (if jq_queue s = [] \<and> jq_running s = [] then s\<lparr>jq_released := jq_released s + 1\<rparr>
      else s\<lparr>jq_waiting := jq_waiting s + 1\<rparr>)"

definition shutdown_queue :: "job_queue \<Rightarrow> job_queue" where
  "shutdown_queue s =
     (if jq_closed s then drain_jobs s
      else drain_jobs (s\<lparr>jq_closed := True, jq_queue := [],
        jq_settled := jq_settled s @ map (settlement_of JCancelled) (jq_queue s),
        jq_running := map (\<lambda>j. j\<lparr>qj_aborted := True\<rparr>) (jq_running s)\<rparr>))"

section \<open>Runs\<close>

datatype queue_event =
    QRegister string
  | QEnqueue string string
  | QResolve nat
  | QThrow nat
  | QPauseOver nat
  | QAfter nat
  | QDrain
  | QShutdown

definition accepted_or :: "job_queue \<Rightarrow> job_queue result \<Rightarrow> job_queue" where
  "accepted_or s r = (case r of Inl x \<Rightarrow> s | Inr t \<Rightarrow> t)"

fun queue_step :: "queue_config \<Rightarrow> queue_event \<Rightarrow> job_queue \<Rightarrow> job_queue" where
  "queue_step c (QRegister t) s = accepted_or s (register_type t s)"
| "queue_step c (QEnqueue t jid) s = accepted_or s (enqueue_job c t jid s)"
| "queue_step c (QResolve n) s = handler_resolves n s"
| "queue_step c (QThrow n) s = handler_throws c n s"
| "queue_step c (QPauseOver n) s = retry_pause_over n s"
| "queue_step c (QAfter n) s = after_execute c n s"
| "queue_step c QDrain s = drain_jobs s"
| "queue_step c QShutdown s = shutdown_queue s"

fun queue_run :: "queue_config \<Rightarrow> queue_event list \<Rightarrow> job_queue \<Rightarrow> job_queue" where
  "queue_run c [] s = s"
| "queue_run c (x # xs) s = queue_run c xs (queue_step c x s)"

section \<open>What every state satisfies\<close>

definition unfinished :: "queue_job list \<Rightarrow> queue_job list" where
  "unfinished js = filter (\<lambda>j. qj_phase j \<noteq> Finished) js"

definition settled_serials :: "job_queue \<Rightarrow> nat list" where
  "settled_serials s = map se_serial (jq_settled s)"

text \<open>The serials of a state: settled, waiting, and running without a result.\<close>

definition all_serials :: "job_queue \<Rightarrow> nat multiset" where
  "all_serials s = mset (settled_serials s) + mset (map qj_serial (jq_queue s))
     + mset (map qj_serial (unfinished (jq_running s)))"

definition jobs_sound :: "queue_config \<Rightarrow> job_queue \<Rightarrow> bool" where
  "jobs_sound c s \<longleftrightarrow>
     (\<forall>j \<in> set (jq_queue s). qj_attempts j = 0 \<and> \<not> qj_aborted j) \<and>
     (\<forall>j \<in> set (jq_running s). 1 \<le> qj_attempts j \<and> qj_attempts j \<le> qc_maxAttempts c \<and>
        (qj_aborted j \<longleftrightarrow> jq_closed s) \<and> (qj_phase j = Finished \<longrightarrow> qj_serial j \<in> set (settled_serials s)) \<and>
        (qj_phase j = RetryPause \<longrightarrow> qj_attempts j < qc_maxAttempts c)) \<and>
     (jq_closed s \<longrightarrow> jq_queue s = [])"

definition settlements_sound :: "queue_config \<Rightarrow> job_queue \<Rightarrow> bool" where
  "settlements_sound c s \<longleftrightarrow>
     (\<forall>x \<in> set (jq_settled s). se_attempts x \<le> qc_maxAttempts c \<and>
        (se_state x = JCompleted \<longrightarrow> 1 \<le> se_attempts x) \<and>
        (se_state x = JFailed \<longrightarrow> se_attempts x = qc_maxAttempts c))"

definition queue_core :: "queue_config \<Rightarrow> job_queue \<Rightarrow> bool" where
  "queue_core c s \<longleftrightarrow>
     length (jq_running s) \<le> qc_concurrency c \<and> length (jq_queue s) \<le> qc_maxQueue c \<and>
     jobs_sound c s \<and> settlements_sound c s \<and>
     distinct (map qj_serial (jq_running s)) \<and> all_serials s = mset [0..<jq_next s]"

definition nothing_left :: "job_queue \<Rightarrow> bool" where
  "nothing_left s \<longleftrightarrow> jq_queue s = [] \<and> jq_running s = []"

definition slots_used :: "queue_config \<Rightarrow> job_queue \<Rightarrow> bool" where
  "slots_used c s \<longleftrightarrow> jq_closed s \<or> jq_queue s = [] \<or> length (jq_running s) = qc_concurrency c"

definition queue_inv :: "queue_config \<Rightarrow> job_queue \<Rightarrow> bool" where
  "queue_inv c s \<longleftrightarrow> queue_core c s \<and> slots_used c s \<and> (nothing_left s \<longrightarrow> jq_waiting s = 0)"

definition config_ok :: "queue_config \<Rightarrow> bool" where
  "config_ok c \<longleftrightarrow> 0 < qc_concurrency c \<and> 0 < qc_maxQueue c \<and> 0 < qc_maxAttempts c"

lemma new_queue_config_ok:
  assumes "new_queue_config a b d e = Inr c"
  shows "config_ok c"
  using assms
  by (auto simp: new_queue_config_def and_then_def positive_integer_def config_ok_def
      split: option.splits if_splits sum.splits)

named_theorems queue_defs

lemmas [queue_defs] = unfinished_def settled_serials_def all_serials_def jobs_sound_def settlements_sound_def
  queue_core_def settlement_of_def

lemma new_job_queue_inv: "queue_inv c new_job_queue"
  by (simp add: queue_inv_def queue_defs new_job_queue_def slots_used_def)

subsection \<open>Pumping\<close>

definition start_next :: "job_queue \<Rightarrow> job_queue" where
  "start_next s = s\<lparr>jq_queue := tl (jq_queue s), jq_running := jq_running s @ [start_job (hd (jq_queue s))]\<rparr>"

lemma queue_serial_fresh:
  assumes "queue_core c s" "j \<in> set (jq_queue s)"
  shows "qj_serial j < jq_next s" "qj_serial j \<notin> set (map qj_serial (jq_running s))"
proof -
  have m: "all_serials s = mset [0..<jq_next s]" using assms(1) by (simp add: queue_core_def)
  have "qj_serial j \<in># all_serials s" using assms(2) by (auto simp: all_serials_def)
  then show "qj_serial j < jq_next s" unfolding m by simp
  have one: "count (all_serials s) n \<le> 1" for n
    unfolding m using distinct_count_atmost_1 [of "[0..<jq_next s]"] by (simp add: count_mset)
  show "qj_serial j \<notin> set (map qj_serial (jq_running s))"
  proof
    assume "qj_serial j \<in> set (map qj_serial (jq_running s))"
    then obtain k where k: "k \<in> set (jq_running s)" "qj_serial k = qj_serial j" by auto
    have q: "qj_serial j \<in># mset (map qj_serial (jq_queue s))" using assms(2) by auto
    have "qj_serial j \<in># mset (settled_serials s) + mset (map qj_serial (unfinished (jq_running s)))"
    proof (cases "qj_phase k = Finished")
      case True
      then have "qj_serial k \<in> set (settled_serials s)" using assms(1) k by (auto simp: queue_core_def jobs_sound_def)
      then show ?thesis using k by simp
    next
      case False
      then have "k \<in> set (unfinished (jq_running s))" using k by (simp add: unfinished_def)
      then have "qj_serial k \<in> set (map qj_serial (unfinished (jq_running s)))" by simp
      then have "qj_serial k \<in># mset (map qj_serial (unfinished (jq_running s)))" by (simp only: set_mset_mset)
      then show ?thesis using k by simp
    qed
    then have "0 < count (mset (settled_serials s) + mset (map qj_serial (unfinished (jq_running s)))) (qj_serial j)"
      by (simp only: count_greater_zero_iff)
    moreover have "0 < count (mset (map qj_serial (jq_queue s))) (qj_serial j)"
      using q by (simp only: count_greater_zero_iff)
    moreover have "count (all_serials s) (qj_serial j) =
        count (mset (settled_serials s) + mset (map qj_serial (unfinished (jq_running s)))) (qj_serial j)
        + count (mset (map qj_serial (jq_queue s))) (qj_serial j)"
      by (simp add: all_serials_def)
    ultimately show False using one [of "qj_serial j"] by linarith
  qed
qed

lemma start_next_core:
  assumes "queue_core c s" "jq_queue s \<noteq> []" "\<not> jq_closed s" "length (jq_running s) < qc_concurrency c" "config_ok c"
  shows "queue_core c (start_next s)"
proof -
  obtain j js where q: "jq_queue s = j # js" using assms(2) by (cases "jq_queue s") auto
  have "qj_serial j \<notin> set (map qj_serial (jq_running s))" using queue_serial_fresh(2) [OF assms(1)] q by simp
  then show ?thesis using assms q
    by (auto simp: queue_core_def jobs_sound_def settlements_sound_def all_serials_def settled_serials_def
        unfinished_def start_next_def start_job_def config_ok_def)
qed

lemma start_next_simps [simp]:
  "jq_closed (start_next s) = jq_closed s" "jq_handlers (start_next s) = jq_handlers s"
  "jq_settled (start_next s) = jq_settled s" "jq_waiting (start_next s) = jq_waiting s"
  "jq_released (start_next s) = jq_released s" "jq_next (start_next s) = jq_next s"
  by (simp_all add: start_next_def)

lemma pump_jobs_unfold:
  "pump_jobs c s = (if \<not> jq_closed s \<and> length (jq_running s) < qc_concurrency c \<and> jq_queue s \<noteq> []
     then pump_jobs c (start_next s) else s)"
  by (subst pump_jobs.simps) (simp add: start_next_def)

lemma pump_jobs_core:
  assumes "config_ok c" "queue_core c s"
  shows "queue_core c (pump_jobs c s) \<and> slots_used c (pump_jobs c s)"
  using assms
proof (induction c s rule: pump_jobs.induct)
  case (1 c s)
  show ?case
  proof (cases "\<not> jq_closed s \<and> length (jq_running s) < qc_concurrency c \<and> jq_queue s \<noteq> []")
    case True
    then have "queue_core c (start_next s)" using start_next_core 1(2,3) by blast
    then have "queue_core c (pump_jobs c (start_next s)) \<and> slots_used c (pump_jobs c (start_next s))"
      using 1(1) True 1(2) by (simp add: start_next_def)
    then show ?thesis using True pump_jobs_unfold by simp
  next
    case False
    then have p: "pump_jobs c s = s" by (rule trans [OF pump_jobs_unfold if_not_P])
    have "length (jq_running s) \<le> qc_concurrency c" using 1(3) by (simp add: queue_core_def)
    then have "slots_used c s" using False unfolding slots_used_def by linarith
    then show ?thesis using p 1(3) by simp
  qed
qed

lemma notify_drain_core [simp]: "queue_core c (notify_drain s) = queue_core c s"
  by (simp add: notify_drain_def queue_core_def jobs_sound_def settlements_sound_def all_serials_def settled_serials_def)

lemma notify_drain_slots [simp]: "slots_used c (notify_drain s) = slots_used c s"
  by (simp add: notify_drain_def slots_used_def)

lemma notify_drain_none_waiting: "nothing_left (notify_drain s) \<Longrightarrow> jq_waiting (notify_drain s) = 0"
  by (simp add: notify_drain_def nothing_left_def split: if_splits)

lemma pump_inv:
  assumes "config_ok c" "queue_core c s"
  shows "queue_inv c (pump c s)"
  using pump_jobs_core [OF assms] notify_drain_none_waiting by (simp add: pump_def queue_inv_def)

subsection \<open>Running jobs\<close>

lemma running_inD:
  assumes "running_in p n s = Some j"
  shows "j \<in> set (jq_running s)" "qj_serial j = n" "qj_phase j = p"
  using assms find_Some_iff [of "\<lambda>j. qj_serial j = n \<and> qj_phase j = p" "jq_running s" j]
  by (auto simp: running_in_def)

lemma running_in_None:
  "running_in p n s = None \<longleftrightarrow> (\<forall>j \<in> set (jq_running s). \<not> (qj_serial j = n \<and> qj_phase j = p))"
  by (auto simp: running_in_def find_None_iff)

lemma same_serial_same_job:
  "distinct (map qj_serial xs) \<Longrightarrow> j \<in> set xs \<Longrightarrow> k \<in> set xs \<Longrightarrow> qj_serial j = qj_serial k \<Longrightarrow> j = k"
  by (metis distinct_map inj_onD)

lemma map_serial_update [simp]:
  assumes "\<And>j. qj_serial (f j) = qj_serial j"
  shows "map qj_serial (map (\<lambda>j. if qj_serial j = n then f j else j) xs) = map qj_serial xs"
  using assms by (simp add: comp_def if_distrib)

lemma unfinished_unchanged:
  assumes "n \<notin> qj_serial ` set xs"
  shows "map (\<lambda>j. if qj_serial j = n then f j else j) xs = xs"
  using assms by (induction xs) auto

lemma unfinished_finish:
  assumes "distinct (map qj_serial xs)" "j \<in> set xs" "qj_phase j \<noteq> Finished"
  shows "add_mset (qj_serial j) (mset (map qj_serial (unfinished
           (map (\<lambda>k. if qj_serial k = qj_serial j then k\<lparr>qj_phase := Finished\<rparr> else k) xs))))
         = mset (map qj_serial (unfinished xs))"
  using assms
proof (induction xs)
  case (Cons k ks)
  show ?case
  proof (cases "k = j")
    case True
    then have "qj_serial j \<notin> qj_serial ` set ks" using Cons.prems(1) by auto
    then show ?thesis using True Cons.prems(3) unfinished_unchanged [of "qj_serial j" ks] by (simp add: unfinished_def)
  next
    case False
    then have "j \<in> set ks" "qj_serial k \<noteq> qj_serial j" using Cons.prems by auto
    then show ?thesis using Cons.IH Cons.prems(1,3) by (auto simp: unfinished_def add_mset_commute)
  qed
qed simp

lemma unfinished_update:
  assumes "distinct (map qj_serial xs)" "j \<in> set xs" "qj_phase j \<noteq> Finished"
    "\<And>k. qj_serial (f k) = qj_serial k" "qj_phase (f j) \<noteq> Finished"
  shows "map qj_serial (unfinished (map (\<lambda>k. if qj_serial k = qj_serial j then f k else k) xs))
         = map qj_serial (unfinished xs)"
  using assms
proof (induction xs)
  case (Cons k ks)
  show ?case
  proof (cases "k = j")
    case True
    then have "qj_serial j \<notin> qj_serial ` set ks" using Cons.prems(1) by auto
    then show ?thesis using True Cons.prems unfinished_unchanged [of "qj_serial j" ks f] by (simp add: unfinished_def)
  next
    case False
    then have "j \<in> set ks" "qj_serial k \<noteq> qj_serial j" using Cons.prems by auto
    then show ?thesis using Cons.IH Cons.prems by (simp add: unfinished_def)
  qed
qed simp

lemma unfinished_remove:
  assumes "distinct (map qj_serial xs)" "j \<in> set xs" "qj_phase j = Finished"
  shows "unfinished (filter (\<lambda>k. qj_serial k \<noteq> qj_serial j) xs) = unfinished xs"
proof -
  have one: "k = j" if "k \<in> set xs" "qj_serial k = qj_serial j" for k
    using same_serial_same_job [OF assms(1) that(1) assms(2) that(2)] .
  show ?thesis unfolding unfinished_def filter_filter
    by (rule filter_cong [OF refl]) (use one assms(3) in blast)
qed

definition settlement_ok :: "queue_config \<Rightarrow> final_state \<Rightarrow> queue_job \<Rightarrow> bool" where
  "settlement_ok c st j \<longleftrightarrow> (st = JFailed \<longrightarrow> qj_attempts j = qc_maxAttempts c)"

lemma settle_job_core:
  assumes "queue_core c s" "j \<in> set (jq_running s)" "qj_phase j \<noteq> Finished" "settlement_ok c st j"
  shows "queue_core c (settle_job st j s)"
proof -
  let ?r = "map (\<lambda>k. if qj_serial k = qj_serial j then k\<lparr>qj_phase := Finished\<rparr> else k) (jq_running s)"
  have d: "distinct (map qj_serial (jq_running s))" using assms(1) by (simp add: queue_core_def)
  have m: "all_serials (settle_job st j s) = all_serials s"
    using unfinished_finish [OF d assms(2,3), symmetric]
    by (simp add: all_serials_def settle_job_def update_job_def settled_serials_def settlement_of_def)
  have ds: "map qj_serial ?r = map qj_serial (jq_running s)" by (rule map_serial_update) simp
  have j: "jobs_sound c s" using assms(1) by (simp add: queue_core_def)
  have "jobs_sound c (settle_job st j s)"
    using j unfolding jobs_sound_def settle_job_def update_job_def
    by (auto simp: settled_serials_def settlement_of_def)
  moreover have "settlements_sound c (settle_job st j s)"
    using assms j
    by (auto simp: settlements_sound_def queue_core_def settle_job_def update_job_def settlement_of_def
        jobs_sound_def settlement_ok_def)
  ultimately show ?thesis
    using assms(1) m d ds by (simp add: queue_core_def settle_job_def update_job_def del: map_map)
qed

lemma update_job_core:
  assumes "queue_core c s" "j \<in> set (jq_running s)" "qj_phase j \<noteq> Finished"
    "\<And>k. qj_serial (f k) = qj_serial k" "\<And>k. qj_aborted (f k) = qj_aborted k"
    "qj_phase (f j) \<noteq> Finished" "1 \<le> qj_attempts (f j)" "qj_attempts (f j) \<le> qc_maxAttempts c"
    "qj_phase (f j) = RetryPause \<Longrightarrow> qj_attempts (f j) < qc_maxAttempts c"
  shows "queue_core c (update_job (qj_serial j) f s)"
proof -
  let ?r = "map (\<lambda>k. if qj_serial k = qj_serial j then f k else k) (jq_running s)"
  have d: "distinct (map qj_serial (jq_running s))" using assms(1) by (simp add: queue_core_def)
  have m: "all_serials (update_job (qj_serial j) f s) = all_serials s"
    using unfinished_update [OF d assms(2,3,4,6)]
    by (simp add: all_serials_def update_job_def settled_serials_def)
  have ds: "map qj_serial ?r = map qj_serial (jq_running s)" by (rule map_serial_update) (rule assms(4))
  have j: "jobs_sound c s" using assms(1) by (simp add: queue_core_def)
  have one: "k = j" if "k \<in> set (jq_running s)" "qj_serial k = qj_serial j" for k
    using same_serial_same_job [OF d that(1) assms(2) that(2)] .
  have "1 \<le> qj_attempts k \<and> qj_attempts k \<le> qc_maxAttempts c \<and> (qj_aborted k \<longleftrightarrow> jq_closed s) \<and>
      (qj_phase k = Finished \<longrightarrow> qj_serial k \<in> set (settled_serials s)) \<and>
      (qj_phase k = RetryPause \<longrightarrow> qj_attempts k < qc_maxAttempts c)" if k: "k \<in> set ?r" for k
  proof -
    obtain i where i: "i \<in> set (jq_running s)" "k = (if qj_serial i = qj_serial j then f i else i)"
      using k by auto
    have s: "1 \<le> qj_attempts i \<and> qj_attempts i \<le> qc_maxAttempts c \<and> (qj_aborted i \<longleftrightarrow> jq_closed s) \<and>
      (qj_phase i = Finished \<longrightarrow> qj_serial i \<in> set (settled_serials s)) \<and>
      (qj_phase i = RetryPause \<longrightarrow> qj_attempts i < qc_maxAttempts c)"
      using j i(1) by (simp add: jobs_sound_def)
    show ?thesis
    proof (cases "qj_serial i = qj_serial j")
      case True
      then have "i = j" using one i(1) by blast
      then show ?thesis using s i(2) assms(5-9) by simp
    next
      case False
      then show ?thesis using s i(2) by simp
    qed
  qed
  then have "jobs_sound c (update_job (qj_serial j) f s)"
    using j by (simp add: jobs_sound_def update_job_def settled_serials_def)
  then show ?thesis
    using assms(1) m d ds by (simp add: queue_core_def update_job_def settlements_sound_def del: map_map)
qed

lemma update_job_simps [simp]:
  "jq_closed (update_job n f s) = jq_closed s" "jq_queue (update_job n f s) = jq_queue s"
  "jq_settled (update_job n f s) = jq_settled s" "jq_waiting (update_job n f s) = jq_waiting s"
  "jq_next (update_job n f s) = jq_next s" "jq_handlers (update_job n f s) = jq_handlers s"
  "length (jq_running (update_job n f s)) = length (jq_running s)"
  "jq_running (update_job n f s) = [] \<longleftrightarrow> jq_running s = []"
  by (simp_all add: update_job_def)

lemma settle_job_simps [simp]:
  "jq_closed (settle_job st j s) = jq_closed s" "jq_queue (settle_job st j s) = jq_queue s"
  "jq_waiting (settle_job st j s) = jq_waiting s" "jq_next (settle_job st j s) = jq_next s"
  "jq_handlers (settle_job st j s) = jq_handlers s"
  "jq_settled (settle_job st j s) = jq_settled s @ [settlement_of st j]"
  "length (jq_running (settle_job st j s)) = length (jq_running s)"
  "jq_running (settle_job st j s) = [] \<longleftrightarrow> jq_running s = []"
  by (simp_all add: settle_job_def)

lemma settle_job_inv:
  "queue_inv c s \<Longrightarrow> j \<in> set (jq_running s) \<Longrightarrow> qj_phase j \<noteq> Finished \<Longrightarrow> settlement_ok c st j
   \<Longrightarrow> queue_inv c (settle_job st j s)"
  by (simp add: queue_inv_def settle_job_core slots_used_def nothing_left_def)

lemma update_job_inv:
  assumes "queue_inv c s" "j \<in> set (jq_running s)" "qj_phase j \<noteq> Finished"
    "\<And>k. qj_serial (f k) = qj_serial k" "\<And>k. qj_aborted (f k) = qj_aborted k"
    "qj_phase (f j) \<noteq> Finished" "1 \<le> qj_attempts (f j)" "qj_attempts (f j) \<le> qc_maxAttempts c"
    "qj_phase (f j) = RetryPause \<Longrightarrow> qj_attempts (f j) < qc_maxAttempts c"
  shows "queue_inv c (update_job (qj_serial j) f s)"
proof -
  have "queue_core c (update_job (qj_serial j) f s)"
    by (rule update_job_core) (use assms in \<open>simp_all add: queue_inv_def\<close>)
  then show ?thesis using assms(1) by (simp add: queue_inv_def slots_used_def nothing_left_def)
qed

lemma inv_attempts:
  assumes "queue_inv c s" "j \<in> set (jq_running s)"
  shows "1 \<le> qj_attempts j" "qj_attempts j \<le> qc_maxAttempts c" "qj_aborted j \<longleftrightarrow> jq_closed s"
  using assms by (auto simp: queue_inv_def queue_core_def jobs_sound_def)

lemma handler_resolves_inv:
  assumes "queue_inv c s"
  shows "queue_inv c (handler_resolves n s)"
proof (cases "running_in Handling n s")
  case (Some j)
  show ?thesis using settle_job_inv [OF assms running_inD(1) [OF Some]] running_inD(3) [OF Some] Some
    by (simp add: handler_resolves_def settlement_ok_def)
qed (simp add: handler_resolves_def assms)

lemma handler_throws_inv:
  assumes "queue_inv c s"
  shows "queue_inv c (handler_throws c n s)"
proof (cases "running_in Handling n s")
  case (Some j)
  note j = running_inD [OF Some]
  have p: "qj_phase j \<noteq> Finished" using j(3) by simp
  have b: "1 \<le> qj_attempts j" "qj_attempts j \<le> qc_maxAttempts c" using inv_attempts [OF assms j(1)] by auto
  have "queue_inv c (settle_job JCancelled j s)"
    using settle_job_inv [OF assms j(1) p] by (simp add: settlement_ok_def)
  moreover have "queue_inv c (settle_job JFailed j s)" if "qj_attempts j \<ge> qc_maxAttempts c"
    using settle_job_inv [OF assms j(1) p, of JFailed] that b by (simp add: settlement_ok_def)
  moreover have "queue_inv c (update_job n (\<lambda>j. j\<lparr>qj_phase := RetryPause\<rparr>) s)" if "\<not> qj_attempts j \<ge> qc_maxAttempts c"
    using update_job_inv [OF assms j(1) p, of "\<lambda>j. j\<lparr>qj_phase := RetryPause\<rparr>"] b j(2) that by simp
  ultimately show ?thesis using Some by (simp add: handler_throws_def)
qed (simp add: handler_throws_def assms)

lemma retry_pause_over_inv:
  assumes "queue_inv c s"
  shows "queue_inv c (retry_pause_over n s)"
proof (cases "running_in RetryPause n s")
  case (Some j)
  note j = running_inD [OF Some]
  have p: "qj_phase j \<noteq> Finished" using j(3) by simp
  have b: "qj_attempts j < qc_maxAttempts c" using assms j(1,3) by (auto simp: queue_inv_def queue_core_def jobs_sound_def)
  have "queue_inv c (settle_job JCancelled j s)"
    using settle_job_inv [OF assms j(1) p] by (simp add: settlement_ok_def)
  moreover have "queue_inv c (update_job n (\<lambda>j. j\<lparr>qj_attempts := qj_attempts j + 1, qj_phase := Handling\<rparr>) s)"
    using update_job_inv [OF assms j(1) p, of "\<lambda>j. j\<lparr>qj_attempts := qj_attempts j + 1, qj_phase := Handling\<rparr>"]
      b j(2) by simp
  ultimately show ?thesis using Some by (simp add: retry_pause_over_def)
qed (simp add: retry_pause_over_def assms)

definition release_slot :: "nat \<Rightarrow> job_queue \<Rightarrow> job_queue" where
  "release_slot n s = s\<lparr>jq_running := filter (\<lambda>j. qj_serial j \<noteq> n) (jq_running s)\<rparr>"

lemma release_slot_core:
  assumes "queue_core c s" "running_in Finished n s = Some j"
  shows "queue_core c (release_slot n s)"
proof -
  note j = running_inD [OF assms(2)]
  have d: "distinct (map qj_serial (jq_running s))" using assms(1) by (simp add: queue_core_def)
  have "unfinished (filter (\<lambda>k. qj_serial k \<noteq> n) (jq_running s)) = unfinished (jq_running s)"
    using unfinished_remove [OF d j(1,3)] j(2) by simp
  moreover have "length (filter (\<lambda>k. qj_serial k \<noteq> n) (jq_running s)) \<le> qc_concurrency c"
    by (rule le_trans [OF length_filter_le]) (use assms(1) in \<open>simp add: queue_core_def\<close>)
  moreover have "distinct (map qj_serial (filter (\<lambda>k. qj_serial k \<noteq> n) (jq_running s)))"
    using d by (rule distinct_map_filter)
  ultimately show ?thesis using assms(1)
    by (auto simp: queue_core_def release_slot_def all_serials_def settled_serials_def jobs_sound_def
        settlements_sound_def)
qed

lemma after_execute_inv:
  assumes "config_ok c" "queue_inv c s"
  shows "queue_inv c (after_execute c n s)"
proof (cases "running_in Finished n s")
  case (Some j)
  let ?s = "notify_drain (release_slot n s)"
  have core: "queue_core c ?s" using release_slot_core [OF _ Some] assms(2) by (simp add: queue_inv_def)
  have a: "after_execute c n s = (if jq_closed ?s then ?s else pump c ?s)"
    using Some by (simp add: after_execute_def release_slot_def Let_def)
  show ?thesis
  proof (cases "jq_closed ?s")
    case True
    then show ?thesis using a core notify_drain_none_waiting by (auto simp: queue_inv_def slots_used_def)
  next
    case False
    then show ?thesis using a pump_inv [OF assms(1) core] by simp
  qed
qed (simp add: after_execute_def assms)

lemma drain_jobs_inv: "queue_inv c s \<Longrightarrow> queue_inv c (drain_jobs s)"
  by (auto simp: drain_jobs_def queue_inv_def queue_core_def jobs_sound_def settlements_sound_def all_serials_def
      settled_serials_def slots_used_def nothing_left_def)

lemma register_type_inv: "queue_inv c s \<Longrightarrow> register_type t s = Inr u \<Longrightarrow> queue_inv c u"
  by (auto simp: register_type_def queue_inv_def queue_core_def jobs_sound_def settlements_sound_def all_serials_def
      settled_serials_def slots_used_def nothing_left_def split: if_splits)

lemma enqueue_job_inv:
  assumes "config_ok c" "queue_inv c s" "enqueue_job c t i s = Inr u"
  shows "queue_inv c u"
proof -
  let ?j = "\<lparr>qj_serial = jq_next s, qj_id = i, qj_type = t, qj_attempts = 0, qj_aborted = False, qj_phase = Handling\<rparr>"
  let ?s = "s\<lparr>jq_queue := jq_queue s @ [?j], jq_next := jq_next s + 1\<rparr>"
  have u: "u = pump c ?s" "\<not> jq_closed s" "length (jq_queue s) < qc_maxQueue c"
    using assms(3) by (auto simp: enqueue_job_def split: if_splits)
  have "all_serials ?s = add_mset (jq_next s) (all_serials s)"
    by (simp add: all_serials_def settled_serials_def)
  then have "queue_core c ?s" using assms(2) u(2,3)
    by (auto simp: queue_inv_def queue_core_def jobs_sound_def settlements_sound_def settled_serials_def)
  then show ?thesis using u(1) pump_inv [OF assms(1)] by simp
qed

lemma unfinished_abort:
  "map qj_serial (unfinished (map (\<lambda>j. j\<lparr>qj_aborted := True\<rparr>) js)) = map qj_serial (unfinished js)"
  by (induction js) (simp_all add: unfinished_def)

lemma shutdown_queue_inv:
  assumes cfg: "config_ok c" and inv: "queue_inv c s"
  shows "queue_inv c (shutdown_queue s)"
proof (cases "jq_closed s")
  case True
  then show ?thesis using drain_jobs_inv [OF inv] by (simp add: shutdown_queue_def)
next
  case False
  let ?s = "s\<lparr>jq_closed := True, jq_queue := [], jq_settled := jq_settled s @ map (settlement_of JCancelled) (jq_queue s),
        jq_running := map (\<lambda>j. j\<lparr>qj_aborted := True\<rparr>) (jq_running s)\<rparr>"
  have ser: "map se_serial (map (settlement_of JCancelled) js) = map qj_serial js" for js
    by (simp add: settlement_of_def)
  have ab: "map qj_serial (map (\<lambda>j. j\<lparr>qj_aborted := True\<rparr>) js) = map qj_serial js" for js
    by (induction js) simp_all
  have m: "all_serials ?s = all_serials s"
    by (simp add: all_serials_def settled_serials_def unfinished_abort ser del: map_map)
  have "queue_core c ?s" using inv m ab [of "jq_running s"]
    by (auto simp: queue_inv_def queue_core_def jobs_sound_def settlements_sound_def settled_serials_def
        settlement_of_def simp del: map_map)
  moreover have "jq_waiting s = 0" if "jq_running s = []"
  proof -
    have "jq_queue s = []" using that inv False cfg by (auto simp: queue_inv_def slots_used_def config_ok_def)
    then show ?thesis using that inv by (simp add: queue_inv_def nothing_left_def)
  qed
  ultimately have "queue_inv c ?s" by (simp add: queue_inv_def slots_used_def nothing_left_def)
  then show ?thesis using drain_jobs_inv False by (simp add: shutdown_queue_def)
qed

subsection \<open>Runs\<close>

lemma queue_step_inv:
  assumes "config_ok c" "queue_inv c s"
  shows "queue_inv c (queue_step c x s)"
  using assms
  by (cases x) (auto simp: accepted_or_def handler_resolves_inv handler_throws_inv retry_pause_over_inv
      after_execute_inv drain_jobs_inv shutdown_queue_inv split: sum.splits
      intro: register_type_inv enqueue_job_inv)

lemma queue_run_inv:
  "config_ok c \<Longrightarrow> queue_inv c s \<Longrightarrow> queue_inv c (queue_run c xs s)"
  by (induction xs arbitrary: s) (auto simp: queue_step_inv)

lemma queue_run_append: "queue_run c (xs @ ys) s = queue_run c ys (queue_run c xs s)"
  by (induction xs arbitrary: s) simp_all

lemma reachable_inv:
  "new_queue_config a b d e = Inr c \<Longrightarrow> queue_inv c (queue_run c xs new_job_queue)"
  using queue_run_inv new_job_queue_inv new_queue_config_ok by blast

subsection \<open>Work left\<close>

fun job_work :: "queue_config \<Rightarrow> queue_job \<Rightarrow> nat" where
  "job_work c j = (case qj_phase j of
     Handling \<Rightarrow> 2 * (qc_maxAttempts c - qj_attempts j) + 2
   | RetryPause \<Rightarrow> 2 * (qc_maxAttempts c - qj_attempts j) + 1
   | Finished \<Rightarrow> 1)"

definition work_left :: "queue_config \<Rightarrow> job_queue \<Rightarrow> nat" where
  "work_left c s = (2 * qc_maxAttempts c + 1) * length (jq_queue s) + sum_list (map (job_work c) (jq_running s))"

fun worker_event :: "queue_event \<Rightarrow> bool" where
  "worker_event (QResolve n) = True"
| "worker_event (QThrow n) = True"
| "worker_event (QPauseOver n) = True"
| "worker_event (QAfter n) = True"
| "worker_event _ = False"

text \<open>A sequence of events of the running jobs, each of which changes the state.\<close>

fun effective_run :: "queue_config \<Rightarrow> queue_event list \<Rightarrow> job_queue \<Rightarrow> bool" where
  "effective_run c [] s = True"
| "effective_run c (x # xs) s \<longleftrightarrow> worker_event x \<and> queue_step c x s \<noteq> s \<and> effective_run c xs (queue_step c x s)"

lemma work_left_notify [simp]: "work_left c (notify_drain s) = work_left c s"
  by (simp add: work_left_def notify_drain_def)

lemma work_left_pump_jobs:
  assumes "config_ok c"
  shows "work_left c (pump_jobs c s) \<le> work_left c s"
  using assms
proof (induction c s rule: pump_jobs.induct)
  case (1 c s)
  show ?case
  proof (cases "\<not> jq_closed s \<and> length (jq_running s) < qc_concurrency c \<and> jq_queue s \<noteq> []")
    case True
    obtain j js where q: "jq_queue s = j # js" using True by (cases "jq_queue s") auto
    have "work_left c (start_next s) \<le> work_left c s"
    proof -
      have "job_work c (start_job j) \<le> 2 * qc_maxAttempts c + 1"
        using 1(2) by (cases "qc_maxAttempts c") (simp_all add: start_job_def config_ok_def)
      then show ?thesis using q by (simp add: work_left_def start_next_def del: job_work.simps)
    qed
    then show ?thesis using 1 True by (subst pump_jobs_unfold) (simp add: start_next_def)
  next
    case False
    then have p: "pump_jobs c s = s" by (rule trans [OF pump_jobs_unfold if_not_P])
    then show ?thesis by simp
  qed
qed

lemma sum_list_update:
  assumes "distinct (map qj_serial xs)" "j \<in> set xs" "w (f j) < w j"
  shows "sum_list (map w (map (\<lambda>k. if qj_serial k = qj_serial j then f k else k) xs))
         < sum_list (map (w :: queue_job \<Rightarrow> nat) xs)"
  using assms
proof (induction xs)
  case (Cons k ks)
  show ?case
  proof (cases "k = j")
    case True
    then have "qj_serial j \<notin> qj_serial ` set ks" using Cons.prems(1) by auto
    then show ?thesis using True Cons.prems(3) unfinished_unchanged [of "qj_serial j" ks f]
      by (simp del: map_map)
  next
    case False
    then have "j \<in> set ks" "qj_serial k \<noteq> qj_serial j" using Cons.prems by auto
    then show ?thesis using Cons.IH Cons.prems by (simp del: map_map)
  qed
qed simp

lemma sum_list_remove:
  assumes "j \<in> set xs" "0 < w j"
  shows "sum_list (map w (filter (\<lambda>k. qj_serial k \<noteq> qj_serial j) xs)) < sum_list (map (w :: queue_job \<Rightarrow> nat) xs)"
proof -
  have le: "sum_list (map w (filter P ys)) \<le> sum_list (map w ys)" for P ys by (induction ys) auto
  obtain ys zs where "xs = ys @ j # zs" using assms(1) by (metis split_list)
  then show ?thesis using assms(2) le [of "\<lambda>k. qj_serial k \<noteq> qj_serial j" ys] le [of "\<lambda>k. qj_serial k \<noteq> qj_serial j" zs]
    by simp
qed

lemma work_update_job:
  assumes "queue_inv c s" "j \<in> set (jq_running s)" "job_work c (f j) < job_work c j"
  shows "work_left c (update_job (qj_serial j) f s) < work_left c s"
proof -
  have "distinct (map qj_serial (jq_running s))" using assms(1) by (simp add: queue_inv_def queue_core_def)
  then show ?thesis using sum_list_update [OF _ assms(2), of "job_work c" f] assms(3)
    by (simp add: work_left_def update_job_def del: map_map job_work.simps)
qed

lemma work_settle_job:
  assumes "queue_inv c s" "j \<in> set (jq_running s)" "qj_phase j \<noteq> Finished"
  shows "work_left c (settle_job st j s) < work_left c s"
proof -
  have "job_work c (j\<lparr>qj_phase := Finished\<rparr>) < job_work c j"
    using assms(3) inv_attempts [OF assms(1,2)] assms by (cases "qj_phase j")
      (auto simp: queue_inv_def queue_core_def jobs_sound_def)
  then have "work_left c (update_job (qj_serial j) (\<lambda>j. j\<lparr>qj_phase := Finished\<rparr>) s) < work_left c s"
    by (rule work_update_job [OF assms(1,2)])
  then show ?thesis by (simp add: settle_job_def work_left_def update_job_def del: map_map job_work.simps)
qed

lemma worker_event_effect:
  assumes "config_ok c" "queue_inv c s" "worker_event x" "queue_step c x s \<noteq> s"
  shows "work_left c (queue_step c x s) < work_left c s"
  using assms(3)
proof (cases x rule: worker_event.cases)
  case (1 n)
  then obtain j where j: "running_in Handling n s = Some j"
    using assms(4) by (auto simp: handler_resolves_def split: option.splits)
  show ?thesis using 1 j work_settle_job [OF assms(2) running_inD(1) [OF j]] running_inD(3) [OF j]
    by (simp add: handler_resolves_def)
next
  case (2 n)
  then obtain j where j: "running_in Handling n s = Some j"
    using assms(4) by (auto simp: handler_throws_def split: option.splits)
  note jD = running_inD [OF j]
  have "work_left c (update_job n (\<lambda>j. j\<lparr>qj_phase := RetryPause\<rparr>) s) < work_left c s"
    using work_update_job [OF assms(2) jD(1), of "\<lambda>j. j\<lparr>qj_phase := RetryPause\<rparr>"] jD by simp
  then show ?thesis using 2 j work_settle_job [OF assms(2) jD(1)] jD(3) by (simp add: handler_throws_def)
next
  case (3 n)
  then obtain j where j: "running_in RetryPause n s = Some j"
    using assms(4) by (auto simp: retry_pause_over_def split: option.splits)
  note jD = running_inD [OF j]
  have "qj_attempts j < qc_maxAttempts c" using assms(2) jD by (auto simp: queue_inv_def queue_core_def jobs_sound_def)
  then have "work_left c (update_job n (\<lambda>j. j\<lparr>qj_attempts := qj_attempts j + 1, qj_phase := Handling\<rparr>) s) < work_left c s"
    using work_update_job [OF assms(2) jD(1), of "\<lambda>j. j\<lparr>qj_attempts := qj_attempts j + 1, qj_phase := Handling\<rparr>"] jD by simp
  then show ?thesis using 3 j work_settle_job [OF assms(2) jD(1)] jD(3) by (simp add: retry_pause_over_def)
next
  case (4 n)
  then obtain j where j: "running_in Finished n s = Some j"
    using assms(4) by (auto simp: after_execute_def split: option.splits)
  note jD = running_inD [OF j]
  let ?s = "notify_drain (release_slot n s)"
  have "work_left c (release_slot n s) < work_left c s"
    using sum_list_remove [OF jD(1), of "job_work c"] jD
    by (simp add: work_left_def release_slot_def)
  then have less: "work_left c ?s < work_left c s" by simp
  have "queue_step c x s = (if jq_closed ?s then ?s else pump c ?s)"
    using 4 j by (simp add: after_execute_def release_slot_def Let_def)
  then show ?thesis using less work_left_pump_jobs [OF assms(1), of ?s] by (simp add: pump_def)
qed simp_all

lemma effective_run_bounded:
  assumes "config_ok c" "queue_inv c s" "effective_run c xs s"
  shows "length xs \<le> work_left c s"
  using assms(2,3)
proof (induction xs arbitrary: s)
  case (Cons x xs)
  have "work_left c (queue_step c x s) < work_left c s"
    using worker_event_effect [OF assms(1) Cons.prems(1)] Cons.prems(2) by simp
  moreover have "length xs \<le> work_left c (queue_step c x s)"
    using Cons.IH queue_step_inv [OF assms(1) Cons.prems(1)] Cons.prems(2) by simp
  ultimately show ?case by simp
qed simp

lemma work_left_bound:
  assumes "queue_inv c s"
  shows "work_left c s \<le> (2 * qc_maxAttempts c + 1) * (length (jq_queue s) + length (jq_running s))"
proof -
  have "job_work c j \<le> 2 * qc_maxAttempts c + 1" if "j \<in> set (jq_running s)" for j
    using inv_attempts [OF assms that] by (cases "qj_phase j") auto
  then have "sum_list (map (job_work c) (jq_running s)) \<le> sum_list (map (\<lambda>j. 2 * qc_maxAttempts c + 1) (jq_running s))"
    by (rule sum_list_mono)
  then show ?thesis by (simp add: work_left_def sum_list_triv add_mult_distrib2 algebra_simps)
qed

text \<open>Without an effective event nothing runs, and so nothing waits.\<close>

lemma stuck_is_drained:
  assumes "config_ok c" "queue_inv c s" "\<And>x. worker_event x \<Longrightarrow> queue_step c x s = s"
  shows "nothing_left s"
proof -
  have none: False if j: "j \<in> set (jq_running s)" for j
  proof -
    let ?n = "qj_serial j"
    have "\<exists>k. running_in (qj_phase j) ?n s = Some k" using j running_in_None [of "qj_phase j" ?n s] by auto
    then obtain k where k: "running_in (qj_phase j) ?n s = Some k" by blast
    have "\<exists>x. worker_event x \<and> queue_step c x s \<noteq> s"
    proof -
      note kD = running_inD [OF k]
      note eff = work_settle_job [OF assms(2) kD(1)]
      consider "qj_phase j = Handling" | "qj_phase j = RetryPause" | "qj_phase j = Finished" by (cases "qj_phase j")
      then show ?thesis
      proof cases
        case 1
        then have "queue_step c (QResolve ?n) s = settle_job (if qj_aborted k then JCancelled else JCompleted) k s"
          using k by (simp add: handler_resolves_def)
        then have "work_left c (queue_step c (QResolve ?n) s) < work_left c s" using eff kD(3) 1 by simp
        then show ?thesis by (metis less_irrefl worker_event.simps(1))
      next
        case 2
        have a: "qj_attempts k < qc_maxAttempts c" using assms(2) kD(1,3) 2
          by (auto simp: queue_inv_def queue_core_def jobs_sound_def)
        have "work_left c (update_job ?n (\<lambda>j. j\<lparr>qj_attempts := qj_attempts j + 1, qj_phase := Handling\<rparr>) s) < work_left c s"
          using work_update_job [OF assms(2) kD(1), of "\<lambda>j. j\<lparr>qj_attempts := qj_attempts j + 1, qj_phase := Handling\<rparr>"]
            a kD 2 by simp
        then have "work_left c (queue_step c (QPauseOver ?n) s) < work_left c s"
          using k 2 eff kD(3) by (simp add: retry_pause_over_def)
        then show ?thesis by (metis less_irrefl worker_event.simps(3))
      next
        case 3
        have "work_left c (release_slot ?n s) < work_left c s"
          using sum_list_remove [OF kD(1), of "job_work c"] kD 3 by (simp add: work_left_def release_slot_def)
        moreover have "queue_step c (QAfter ?n) s = (if jq_closed (notify_drain (release_slot ?n s))
            then notify_drain (release_slot ?n s) else pump c (notify_drain (release_slot ?n s)))"
          using k 3 by (simp add: after_execute_def release_slot_def Let_def)
        ultimately have "work_left c (queue_step c (QAfter ?n) s) < work_left c s"
          using work_left_pump_jobs [OF assms(1), of "notify_drain (release_slot ?n s)"] by (simp add: pump_def)
        then show ?thesis by (metis less_irrefl worker_event.simps(4))
      qed
    qed
    then show False using assms(3) by blast
  qed
  then have "jq_running s = []" by (cases "jq_running s") auto
  moreover have "jq_queue s = []" using calculation assms(1,2)
    by (auto simp: queue_inv_def slots_used_def config_ok_def queue_core_def jobs_sound_def)
  ultimately show ?thesis by (simp add: nothing_left_def)
qed

section \<open>Properties\<close>

definition example_queue :: queue_config where
  "example_queue = \<lparr>qc_concurrency = 1, qc_maxQueue = 2, qc_maxAttempts = 2, qc_retryDelayMs = 0\<rparr>"

lemma example_queue_made:
  "new_queue_config (Some (Some 1)) (Some (Some 2)) (Some (Some 2)) None = Inr example_queue"
  by (simp add: new_queue_config_def given_or_def positive_integer_def non_negative_number_def and_then_def
      example_queue_def)

definition example_queue_events :: "queue_event list" where
  "example_queue_events = [QRegister ''maintenance'', QEnqueue ''maintenance'' ''a'', QEnqueue ''maintenance'' ''b'',
     QThrow 0, QPauseOver 0, QThrow 0, QDrain]"

text \<open>The in-process queue keeps its bounds in every reachable state: at most \<open>concurrency\<close> handlers
  run, at most \<open>maxQueue\<close> jobs wait, no job is tried more than \<open>maxAttempts\<close> times; it wastes no slot (while
  it is open, a job waits only if every slot is taken), and nobody is left waiting for a drained queue.\<close>

theorem queue_bounded:
  assumes "new_queue_config a b d e = Inr c"
  shows "length (jq_running (queue_run c xs new_job_queue)) \<le> qc_concurrency c \<and>
    length (jq_queue (queue_run c xs new_job_queue)) \<le> qc_maxQueue c \<and>
    (\<forall>j \<in> set (jq_running (queue_run c xs new_job_queue)). 1 \<le> qj_attempts j \<and> qj_attempts j \<le> qc_maxAttempts c) \<and>
    slots_used c (queue_run c xs new_job_queue) \<and>
    (nothing_left (queue_run c xs new_job_queue) \<longrightarrow> jq_waiting (queue_run c xs new_job_queue) = 0)"
  using reachable_inv [OF assms, of xs] by (simp add: queue_inv_def queue_core_def jobs_sound_def)

theorem queue_bounded_witness:
  "length (jq_running (queue_run example_queue example_queue_events new_job_queue)) \<le> 1"
  using queue_bounded [OF example_queue_made, of example_queue_events] by (simp add: example_queue_def)

text \<open>C27. Every accepted job gets exactly one result: the serials of the settled, the waiting and the
  running jobs without a result are together the accepted ones, each once; a job that failed was tried
  \<open>maxAttempts\<close> times and one that completed was tried.\<close>

theorem queue_settles_once:
  assumes "new_queue_config a b d e = Inr c"
  shows "all_serials (queue_run c xs new_job_queue) = mset [0..<jq_next (queue_run c xs new_job_queue)] \<and>
    distinct (settled_serials (queue_run c xs new_job_queue)) \<and>
    settlements_sound c (queue_run c xs new_job_queue)"
proof -
  let ?s = "queue_run c xs new_job_queue"
  have m: "all_serials ?s = mset [0..<jq_next ?s]" and ok: "settlements_sound c ?s"
    using reachable_inv [OF assms, of xs] by (simp_all add: queue_inv_def queue_core_def)
  have "count (mset (settled_serials ?s)) n \<le> count (mset [0..<jq_next ?s]) n" for n
    unfolding m [symmetric] all_serials_def by simp
  moreover have "count (mset [0..<jq_next ?s]) n \<le> 1" for n
    using distinct_count_atmost_1 [of "[0..<jq_next ?s]"] by (simp add: count_mset)
  ultimately have "count (mset (settled_serials ?s)) n \<le> 1" for n by (meson le_trans)
  then have "count (mset (settled_serials ?s)) n = (if n \<in> set (settled_serials ?s) then 1 else 0)" for n
    by (metis One_nat_def count_mset_0_iff le_0_eq le_Suc_eq)
  then have "distinct (settled_serials ?s)" by (simp add: distinct_count_atmost_1)
  then show ?thesis using m ok by simp
qed

theorem queue_settles_once_witness:
  "distinct (settled_serials (queue_run example_queue example_queue_events new_job_queue))"
  using queue_settles_once [OF example_queue_made, of example_queue_events] by blast

text \<open>C28. The queue drains: from any reachable state the running jobs take only so many steps, linear in
  what is queued and running, and when none of them can take a step nothing is queued, nothing runs and
  every waiting drain has been released.\<close>

theorem queue_drains:
  assumes "new_queue_config a b d e = Inr c"
  shows "(\<forall>ys. effective_run c ys (queue_run c xs new_job_queue) \<longrightarrow>
      length ys \<le> (2 * qc_maxAttempts c + 1) * (length (jq_queue (queue_run c xs new_job_queue))
        + length (jq_running (queue_run c xs new_job_queue)))) \<and>
    ((\<forall>x. worker_event x \<longrightarrow> queue_step c x (queue_run c xs new_job_queue) = queue_run c xs new_job_queue)
      \<longrightarrow> nothing_left (queue_run c xs new_job_queue) \<and> jq_waiting (queue_run c xs new_job_queue) = 0)"
proof -
  let ?s = "queue_run c xs new_job_queue"
  note ok = new_queue_config_ok [OF assms] and inv = reachable_inv [OF assms, of xs]
  have "\<forall>ys. effective_run c ys ?s \<longrightarrow>
      length ys \<le> (2 * qc_maxAttempts c + 1) * (length (jq_queue ?s) + length (jq_running ?s))"
    using effective_run_bounded [OF ok inv] work_left_bound [OF inv] le_trans by blast
  moreover have "nothing_left ?s \<and> jq_waiting ?s = 0" if "\<forall>x. worker_event x \<longrightarrow> queue_step c x ?s = ?s"
    using stuck_is_drained [OF ok inv] that inv by (simp add: queue_inv_def)
  ultimately show ?thesis by blast
qed

theorem queue_drains_witness:
  "length [QAfter 0] \<le> 5 * (length (jq_queue (queue_run example_queue example_queue_events new_job_queue))
        + length (jq_running (queue_run example_queue example_queue_events new_job_queue))) \<and>
    nothing_left (queue_run example_queue [] new_job_queue)"
proof
  let ?s = "queue_run example_queue example_queue_events new_job_queue"
  have "effective_run example_queue [QAfter 0] ?s" by code_simp
  then have "length [QAfter 0] \<le> (2 * qc_maxAttempts example_queue + 1) * (length (jq_queue ?s) + length (jq_running ?s))"
    using queue_drains [OF example_queue_made, of example_queue_events] by blast
  then show "length [QAfter 0] \<le> 5 * (length (jq_queue ?s) + length (jq_running ?s))"
    by (simp add: example_queue_def)
  have "queue_step example_queue x new_job_queue = new_job_queue" if "worker_event x" for x
    using that by (cases x) (simp_all add: handler_resolves_def handler_throws_def retry_pause_over_def
        after_execute_def running_in_def new_job_queue_def)
  then show "nothing_left (queue_run example_queue [] new_job_queue)"
    using queue_drains [OF example_queue_made, of "[]"] by simp
qed

lemma notify_drain_simps [simp]:
  "jq_closed (notify_drain s) = jq_closed s" "jq_queue (notify_drain s) = jq_queue s"
  "jq_running (notify_drain s) = jq_running s" "jq_settled (notify_drain s) = jq_settled s"
  "jq_next (notify_drain s) = jq_next s"
  by (simp_all add: notify_drain_def)

text \<open>What a closed queue adds to the results.\<close>

definition only_cancels :: "job_queue \<Rightarrow> job_queue \<Rightarrow> bool" where
  "only_cancels s t \<longleftrightarrow> jq_closed t \<and> jq_queue t = [] \<and> jq_next t = jq_next s \<and>
     (\<exists>zs. jq_settled t = jq_settled s @ zs \<and> (\<forall>z \<in> set zs. se_state z = JCancelled))"

lemma closed_step:
  assumes "queue_inv c s" "jq_closed s"
  shows "only_cancels s (queue_step c x s)"
proof -
  have q: "jq_queue s = []" using assms by (simp add: queue_inv_def queue_core_def jobs_sound_def)
  have same: "only_cancels s s" using q assms(2) by (simp add: only_cancels_def)
  have upd: "only_cancels s (update_job n f s)" for n f using q assms(2) by (simp add: only_cancels_def)
  have cancel: "only_cancels s (settle_job JCancelled j s)" for j
    using q assms(2) by (auto simp: only_cancels_def settlement_of_def)
  have ab: "qj_aborted j" if "running_in p n s = Some j" for p n j
    using inv_attempts(3) [OF assms(1) running_inD(1) [OF that]] assms(2) by simp
  show ?thesis
  proof (cases x)
    case (QResolve n)
    then show ?thesis using same cancel ab by (auto simp: handler_resolves_def split: option.split)
  next
    case (QThrow n)
    then show ?thesis using same cancel ab by (auto simp: handler_throws_def split: option.split)
  next
    case (QPauseOver n)
    then show ?thesis using same cancel ab by (auto simp: retry_pause_over_def split: option.split)
  next
    case (QAfter n)
    then show ?thesis using q assms(2) by (auto simp: after_execute_def only_cancels_def Let_def split: option.split)
  qed (use q assms(2) in \<open>auto simp: only_cancels_def accepted_or_def register_type_def enqueue_job_def
      drain_jobs_def shutdown_queue_def\<close>)
qed

lemma only_cancels_trans: "only_cancels s t \<Longrightarrow> only_cancels t u \<Longrightarrow> only_cancels s u"
  by (fastforce simp: only_cancels_def)

lemma closed_run:
  assumes "config_ok c" "queue_inv c s" "jq_closed s"
  shows "only_cancels s (queue_run c xs s)"
  using assms(2,3)
proof (induction xs arbitrary: s)
  case Nil
  then show ?case by (simp add: only_cancels_def queue_inv_def queue_core_def jobs_sound_def)
next
  case (Cons x xs)
  have step: "only_cancels s (queue_step c x s)" by (rule closed_step [OF Cons.prems])
  have "only_cancels (queue_step c x s) (queue_run c xs (queue_step c x s))"
    by (rule Cons.IH) (use step queue_step_inv [OF assms(1) Cons.prems(1)] in \<open>simp_all add: only_cancels_def\<close>)
  then show ?case using only_cancels_trans [OF step] by simp
qed

text \<open>Shutting down is final: whatever happens afterwards, nothing is accepted (enqueue and register are
  refused with \<open>QUEUE_CLOSED\<close>), nothing waits, the jobs that waited are cancelled without having been tried,
  and every result from then on is a cancellation, also of a handler that ignores the signal and succeeds.\<close>

theorem queue_shutdown_final:
  assumes "new_queue_config a b d e = Inr c" "s = queue_run c xs new_job_queue" "\<not> jq_closed s"
    "t = queue_run c (QShutdown # ys) s"
  shows "enqueue_job c ty i t = Inl QUEUE_CLOSED \<and> register_type ty t = Inl QUEUE_CLOSED \<and>
    jq_queue t = [] \<and> jq_next t = jq_next s \<and>
    (\<exists>zs. jq_settled t = jq_settled s @ map (settlement_of JCancelled) (jq_queue s) @ zs \<and>
      (\<forall>z \<in> set zs. se_state z = JCancelled))"
proof -
  note ok = new_queue_config_ok [OF assms(1)]
  have inv: "queue_inv c s" using reachable_inv [OF assms(1)] assms(2) by simp
  let ?u = "shutdown_queue s"
  have u: "jq_closed ?u" "jq_next ?u = jq_next s"
    "jq_settled ?u = jq_settled s @ map (settlement_of JCancelled) (jq_queue s)"
    using assms(3) by (simp_all add: shutdown_queue_def drain_jobs_def)
  have "only_cancels ?u t" using closed_run [OF ok shutdown_queue_inv [OF ok inv] u(1)] assms(4) by simp
  then show ?thesis using u by (auto simp: only_cancels_def enqueue_job_def register_type_def)
qed

theorem queue_shutdown_final_witness:
  "jq_queue (queue_run example_queue [QShutdown, QResolve 1]
     (queue_run example_queue example_queue_events new_job_queue)) = []"
proof -
  have "\<not> jq_closed (queue_run example_queue example_queue_events new_job_queue)" by code_simp
  then show ?thesis
    using queue_shutdown_final [OF example_queue_made refl _ refl, where xs = example_queue_events and ys = "[QResolve 1]"]
    by blast
qed

end
