(* ===== verification/Spec2Isabelle.thy ===== *)
theory Spec2Isabelle
  imports RetrievalText Retrieval RetrievalFacts MemoryRecord FrontMatter FileStore ParseCache ParseTypes FileStoreFacts FileStoreSpec FileStoreRecovery Prelude Errors Tenant Authorization TenantDirectory TenantDirectoryFacts TenantDirectorySpec
    PolicyV6 LifecycleV6 RateLimiter Quota LeaseLock FileLease JobLedger DurableWorker Json BatchLedger LineDiff ContextBudget JobQueue
begin

text \<open>
  A model of Remembra, a memory server for agents. Under development.
\<close>

end
